(* ===== verification/Prelude.thy ===== *)
theory Prelude
  imports Main "HOL-Library.Multiset"
begin

text \<open>
  Shared ground of the development: Go error values and outcomes (a normal result, a
  returned error, a panic), the parts of the packages strings, strconv and sort that the
  program calls, and the generic lemmas on them.

  A Go string or byte slice is a \<^typ>\<open>string\<close>, one \<^typ>\<open>char\<close> per byte. White space
  and digits are those of ASCII. A Go \<open>int\<close> is an \<^typ>\<open>int\<close>; its 64-bit bounds are written
  out where a conversion from text can exceed them.
\<close>

named_theorems outcome_simps \<open>unfolding of the outcome combinators\<close>
named_theorems string_simps \<open>evaluation of the string library\<close>

section \<open>Errors and outcomes\<close>

text \<open>
  \<open>common/error.go\<close>: an \<open>Error\<close> has a message and possibly a cause. \<open>Errno\<close> is an error
  value made by a library function (a failed system call, a malformed numeral).
\<close>

datatype error = Error string "error option" | Errno string

fun Error_Error :: "error \<Rightarrow> string" where
  "Error_Error (Error what None) = what"
| "Error_Error (Error what (Some cause)) = what @ '': '' @ Error_Error cause"
| "Error_Error (Errno msg) = msg"

text \<open>
  A call returns a value, returns an error, or panics. \<open>Panic\<close> ends the goroutine: no caller
  of the program recovers from it.
\<close>

datatype 'a outcome = Ok 'a | Fail error | Panic string

primrec bind_outcome :: "'a outcome \<Rightarrow> ('a \<Rightarrow> 'b outcome) \<Rightarrow> 'b outcome" where
  "bind_outcome (Ok x) f = f x"
| "bind_outcome (Fail e) f = Fail e"
| "bind_outcome (Panic p) f = Panic p"

definition is_Ok :: "'a outcome \<Rightarrow> bool" where
  "is_Ok r = (case r of Ok _ \<Rightarrow> True | _ \<Rightarrow> False)"

definition is_Panic :: "'a outcome \<Rightarrow> bool" where
  "is_Panic r = (case r of Panic _ \<Rightarrow> True | _ \<Rightarrow> False)"

text \<open>A loop over a slice that stops at the first error, collecting the results.\<close>

primrec map_outcome :: "('a \<Rightarrow> 'b outcome) \<Rightarrow> 'a list \<Rightarrow> 'b list outcome" where
  "map_outcome f [] = Ok []"
| "map_outcome f (x # xs) =
     bind_outcome (f x) (\<lambda>y. bind_outcome (map_outcome f xs) (\<lambda>ys. Ok (y # ys)))"

lemma bind_outcome_Ok_iff [outcome_simps]:
  "bind_outcome r f = Ok y \<longleftrightarrow> (\<exists>x. r = Ok x \<and> f x = Ok y)"
  by (cases r) auto

lemma bind_outcome_Fail_iff [outcome_simps]:
  "bind_outcome r f = Fail e \<longleftrightarrow> r = Fail e \<or> (\<exists>x. r = Ok x \<and> f x = Fail e)"
  by (cases r) auto

lemma bind_outcome_Panic_iff [outcome_simps]:
  "bind_outcome r f = Panic p \<longleftrightarrow> r = Panic p \<or> (\<exists>x. r = Ok x \<and> f x = Panic p)"
  by (cases r) auto

lemma is_Ok_simps [simp]: "is_Ok (Ok x)" "\<not> is_Ok (Fail e)" "\<not> is_Ok (Panic p)"
  by (simp_all add: is_Ok_def)

lemma is_Panic_simps [simp]: "\<not> is_Panic (Ok x)" "\<not> is_Panic (Fail e)" "is_Panic (Panic p)"
  by (simp_all add: is_Panic_def)

lemma is_Ok_iff: "is_Ok r \<longleftrightarrow> (\<exists>x. r = Ok x)"
  by (cases r) auto

lemma map_outcome_Ok_iff:
  "map_outcome f xs = Ok ys \<longleftrightarrow> list_all2 (\<lambda>x y. f x = Ok y) xs ys"
  by (induction xs arbitrary: ys) (auto simp: outcome_simps list_all2_Cons1)

lemma map_outcome_total:
  "(\<And>x. x \<in> set xs \<Longrightarrow> f x = Ok (g x)) \<Longrightarrow> map_outcome f xs = Ok (map g xs)"
  by (induction xs) auto

section \<open>Package strings\<close>

definition HasPrefix :: "string \<Rightarrow> string \<Rightarrow> bool" where
  "HasPrefix s p \<longleftrightarrow> take (length p) s = p"

fun Contains :: "string \<Rightarrow> string \<Rightarrow> bool" where
  "Contains [] p \<longleftrightarrow> p = []"
| "Contains (c # s) p \<longleftrightarrow> HasPrefix (c # s) p \<or> Contains s p"

text \<open>\<open>strings.Split\<close> for a non-empty separator; \<open>acc\<close> is the current part, reversed.\<close>

function split_acc :: "string \<Rightarrow> string \<Rightarrow> string \<Rightarrow> string list" where
  "split_acc sep acc [] = [rev acc]"
| "split_acc sep acc (c # s) =
     (if sep \<noteq> [] \<and> HasPrefix (c # s) sep
      then rev acc # split_acc sep [] (drop (length sep) (c # s))
      else split_acc sep (c # acc) s)"
  by pat_completeness auto
termination
  by (relation "measure (\<lambda>(sep, acc, s). length s)") (auto simp: neq_Nil_conv)

definition Split :: "string \<Rightarrow> string \<Rightarrow> string list" where
  "Split s sep = split_acc sep [] s"

fun Join :: "string list \<Rightarrow> string \<Rightarrow> string" where
  "Join [] sep = []"
| "Join [p] sep = p"
| "Join (p # q # ps) sep = p @ sep @ Join (q # ps) sep"

definition is_space :: "char \<Rightarrow> bool" where
  "is_space c \<longleftrightarrow> c \<in> {CHR '' '', CHR 0x09, CHR 0x0A, CHR 0x0B, CHR 0x0C, CHR 0x0D}"

definition TrimRight :: "string \<Rightarrow> char \<Rightarrow> string" where
  "TrimRight s c = rev (dropWhile (\<lambda>x. x = c) (rev s))"

definition TrimSpace :: "string \<Rightarrow> string" where
  "TrimSpace s = rev (dropWhile is_space (rev (dropWhile is_space s)))"

text \<open>\<open>strings.Fields\<close>: the maximal runs of bytes that are not white space.\<close>

fun fields_acc :: "string \<Rightarrow> string \<Rightarrow> string list" where
  "fields_acc acc [] = (if acc = [] then [] else [rev acc])"
| "fields_acc acc (c # s) =
     (if is_space c then (if acc = [] then fields_acc [] s else rev acc # fields_acc [] s)
      else fields_acc (c # acc) s)"

definition Fields :: "string \<Rightarrow> string list" where
  "Fields s = fields_acc [] s"

definition Repeat :: "char \<Rightarrow> int \<Rightarrow> string outcome" where
  "Repeat c n = (if n < 0 then Panic ''strings: negative Repeat count''
                 else Ok (replicate (nat n) c))"

lemma split_acc_Join:
  "sep \<noteq> [] \<Longrightarrow> Join (split_acc sep acc s) sep = rev acc @ s"
proof (induction sep acc s rule: split_acc.induct)
  case (1 sep acc)
  then show ?case by simp
next
  case (2 sep acc c s)
  have cut: "sep @ drop (length sep) (c # s) = c # s" if "HasPrefix (c # s) sep"
    using that unfolding HasPrefix_def by (metis append_take_drop_id)
  have nonempty: "split_acc sep acc' s' \<noteq> []" for acc' s'
    by (induction sep acc' s' rule: split_acc.induct) auto
  show ?case
  proof (cases "HasPrefix (c # s) sep")
    case True
    let ?rest = "split_acc sep [] (drop (length sep) (c # s))"
    have "Join (rev acc # ?rest) sep = rev acc @ sep @ Join ?rest sep"
      using nonempty [of "[]" "drop (length sep) (c # s)"] by (cases ?rest) auto
    then show ?thesis using True 2 cut by (simp del: drop.simps)
  next
    case False
    then show ?thesis using 2 by simp
  qed
qed

lemma Join_Split: "sep \<noteq> [] \<Longrightarrow> Join (Split s sep) sep = s"
  by (simp add: Split_def split_acc_Join)

lemma split_acc_char_notin:
  "c \<notin> set s \<Longrightarrow> split_acc [c] acc s = [rev acc @ s]"
  by (induction s arbitrary: acc) (auto simp: HasPrefix_def)

lemma Split_char_notin [string_simps]: "c \<notin> set s \<Longrightarrow> Split s [c] = [s]"
  by (simp add: Split_def split_acc_char_notin)

lemma split_acc_char_append:
  "c \<notin> set s \<Longrightarrow> split_acc [c] acc (s @ c # t) = (rev acc @ s) # split_acc [c] [] t"
  by (induction s arbitrary: acc) (auto simp: HasPrefix_def)

lemma Split_char_append [string_simps]:
  "c \<notin> set s \<Longrightarrow> Split (s @ c # t) [c] = s # Split t [c]"
  by (simp add: Split_def split_acc_char_append)

lemma Split_Join_char:
  assumes "ps \<noteq> []" "\<And>p. p \<in> set ps \<Longrightarrow> c \<notin> set p"
  shows "Split (Join ps [c]) [c] = ps"
  using assms
proof (induction ps "[c]" rule: Join.induct)
  case 1
  then show ?case by simp
next
  case (2 p)
  then show ?case by (simp add: Split_char_notin)
next
  case (3 p q ps)
  then show ?case by (simp add: Split_char_append)
qed

section \<open>Package strconv\<close>

definition digit_char :: "nat \<Rightarrow> char" where
  "digit_char d = char_of (48 + d)"

definition is_digit :: "char \<Rightarrow> bool" where
  "is_digit c \<longleftrightarrow> 48 \<le> (of_char c :: nat) \<and> (of_char c :: nat) \<le> 57"

definition digit_val :: "char \<Rightarrow> nat" where
  "digit_val c = of_char c - 48"

fun nat_str :: "nat \<Rightarrow> string" where
  "nat_str n = (if n < 10 then [digit_char n] else nat_str (n div 10) @ [digit_char (n mod 10)])"

declare nat_str.simps [simp del]

definition Itoa :: "int \<Rightarrow> string" where
  "Itoa i = (if i < 0 then ''-'' @ nat_str (nat (- i)) else nat_str (nat i))"

definition digits_val :: "string \<Rightarrow> nat" where
  "digits_val s = foldl (\<lambda>n c. n * 10 + digit_val c) 0 s"

definition syntax_error :: "string \<Rightarrow> error" where
  "syntax_error s = Errno (''strconv: parsing '' @ s @ '': invalid syntax'')"

definition range_error :: "string \<Rightarrow> error" where
  "range_error s = Errno (''strconv: parsing '' @ s @ '': value out of range'')"

text \<open>\<open>strconv.ParseUint(s, 10, bits)\<close>.\<close>

definition ParseUint :: "string \<Rightarrow> nat \<Rightarrow> nat outcome" where
  "ParseUint s bits =
     (if s = [] \<or> \<not> list_all is_digit s then Fail (syntax_error s)
      else if digits_val s < 2 ^ bits then Ok (digits_val s) else Fail (range_error s))"

text \<open>\<open>strconv.ParseInt(s, 10, 64)\<close>, which is also \<open>strconv.Atoi\<close> on a 64-bit platform.\<close>

definition ParseInt :: "string \<Rightarrow> int outcome" where
  "ParseInt s =
     (let neg = (s \<noteq> [] \<and> hd s = CHR ''-'');
          body = (if s \<noteq> [] \<and> (hd s = CHR ''-'' \<or> hd s = CHR ''+'') then tl s else s)
      in if body = [] \<or> \<not> list_all is_digit body then Fail (syntax_error s)
         else let v = int (digits_val body) in
           if neg then (if v \<le> 2 ^ 63 then Ok (- v) else Fail (range_error s))
           else (if v < 2 ^ 63 then Ok v else Fail (range_error s)))"

lemma is_digit_digit_char [simp]: "d < 10 \<Longrightarrow> is_digit (digit_char d)"
  by (simp add: is_digit_def digit_char_def)

lemma digit_val_digit_char [simp]: "d < 10 \<Longrightarrow> digit_val (digit_char d) = d"
  by (simp add: digit_val_def digit_char_def)

lemma nat_str_ne [simp]: "nat_str n \<noteq> []"
  by (subst nat_str.simps) simp

lemma nat_str_digits: "list_all is_digit (nat_str n)"
proof (induction n rule: nat_str.induct)
  case (1 n)
  then show ?case by (subst nat_str.simps) simp
qed

lemma digits_val_nat_str [simp]: "digits_val (nat_str n) = n"
proof (induction n rule: nat_str.induct)
  case (1 n)
  then show ?case by (subst nat_str.simps) (simp add: digits_val_def)
qed

lemma digit_not: "is_digit c \<Longrightarrow> c \<noteq> CHR ''-'' \<and> c \<noteq> CHR ''+'' \<and> c \<noteq> CHR ''.''
    \<and> c \<noteq> CHR '','' \<and> c \<noteq> CHR ''*'' \<and> c \<noteq> CHR ''R'' \<and> c \<noteq> CHR '' '' \<and> c \<noteq> CHR 0x09 \<and> \<not> is_space c"
  by (auto simp: is_digit_def is_space_def)

lemma dot_not_digit: "\<not> is_digit CHR ''.''"
  by (simp add: is_digit_def)

lemma nat_str_notin:
  "\<not> is_digit c \<Longrightarrow> c \<notin> set (nat_str n)"
  using nat_str_digits [of n] by (auto simp: list_all_iff)

lemma hd_nat_str_digit: "is_digit (hd (nat_str n))"
  using nat_str_digits [of n] nat_str_ne [of n] by (auto simp: list_all_iff neq_Nil_conv)

lemma ParseUint_nat_str [simp]: "n < 2 ^ bits \<Longrightarrow> ParseUint (nat_str n) bits = Ok n"
  by (simp add: ParseUint_def nat_str_digits)

lemma ParseInt_nat_str: "int n < 2 ^ 63 \<Longrightarrow> ParseInt (nat_str n) = Ok (int n)"
  using digit_not [OF hd_nat_str_digit [of n]]
  by (simp add: ParseInt_def Let_def nat_str_digits)

lemma ParseInt_Itoa: "- (2 ^ 63) \<le> i \<Longrightarrow> i < 2 ^ 63 \<Longrightarrow> ParseInt (Itoa i) = Ok i"
  by (cases "i < 0") (simp_all add: Itoa_def ParseInt_nat_str, simp add: ParseInt_def Let_def nat_str_digits)

section \<open>Package sort\<close>

text \<open>
  \<open>sort.Search(n, f)\<close>: binary search in \<open>[i, j)\<close>. Its contract needs \<open>f\<close> to be monotone; then
  it is the least index at which \<open>f\<close> holds, or \<open>n\<close>.
\<close>

function search_loop :: "(nat \<Rightarrow> bool) \<Rightarrow> nat \<Rightarrow> nat \<Rightarrow> nat" where
  "search_loop f i j =
     (if i < j then
        (let h = (i + j) div 2 in
         if \<not> f h then search_loop f (h + 1) j else search_loop f i h)
      else i)"
  by pat_completeness auto
termination
  by (relation "measure (\<lambda>(f, i, j). j - i)") (auto simp: Let_def)

declare search_loop.simps [simp del]

definition Search :: "nat \<Rightarrow> (nat \<Rightarrow> bool) \<Rightarrow> nat" where
  "Search n f = search_loop f 0 n"

lemma search_loop_spec:
  assumes "mono_on {..<n} f" "j \<le> n" "i \<le> j"
    "\<And>k. k < i \<Longrightarrow> \<not> f k" "\<And>k. j \<le> k \<Longrightarrow> k < n \<Longrightarrow> f k"
  shows "search_loop f i j \<le> j \<and> (\<forall>k < n. f k \<longleftrightarrow> search_loop f i j \<le> k)"
  using assms
proof (induction f i j rule: search_loop.induct)
  case (1 f i j)
  let ?h = "(i + j) div 2"
  show ?case
  proof (cases "i < j")
    case False
    then have "i = j" using "1.prems" by simp
    then show ?thesis using "1.prems"(4,5) by (auto simp: search_loop.simps [of f j j] not_le [symmetric])
  next
    case lt: True
    then have h: "i \<le> ?h" "?h < j" "?h < n" using "1.prems"(2) by auto
    show ?thesis
    proof (cases "f ?h")
      case True
      have "f k" if "?h \<le> k" "k < n" for k
        using mono_onD [OF "1.prems"(1), of ?h k] that h True by auto
      then have "search_loop f i ?h \<le> ?h \<and> (\<forall>k < n. f k \<longleftrightarrow> search_loop f i ?h \<le> k)"
        using "1.IH"(2) [OF lt refl] True "1.prems" h by auto
      then show ?thesis using lt True h by (auto simp: search_loop.simps [of f i j] Let_def)
    next
      case False
      have "\<not> f k" if "k < ?h + 1" for k
        using mono_onD [OF "1.prems"(1), of k ?h] that h False by auto
      then have "search_loop f (?h + 1) j \<le> j \<and> (\<forall>k < n. f k \<longleftrightarrow> search_loop f (?h + 1) j \<le> k)"
        using "1.IH"(1) [OF lt refl] False "1.prems" h by auto
      then show ?thesis using lt False by (auto simp: search_loop.simps [of f i j] Let_def)
    qed
  qed
qed

lemma Search_le: "mono_on {..<n} f \<Longrightarrow> Search n f \<le> n"
  using search_loop_spec [of n f n 0] by (simp add: Search_def)

lemma Search_iff: "mono_on {..<n} f \<Longrightarrow> k < n \<Longrightarrow> f k \<longleftrightarrow> Search n f \<le> k"
  using search_loop_spec [of n f n 0] by (simp add: Search_def)

lemma Search_cong: "(\<And>k. k < n \<Longrightarrow> f k = g k) \<Longrightarrow> Search n f = Search n g"
proof -
  assume eq: "\<And>k. k < n \<Longrightarrow> f k = g k"
  have "j \<le> n \<Longrightarrow> (\<And>k. k < n \<Longrightarrow> f k = g k) \<Longrightarrow> search_loop f i j = search_loop g i j" for i j
    by (induction f i j rule: search_loop.induct)
       (subst (1 2) search_loop.simps, auto simp: Let_def)
  then show ?thesis using eq by (simp add: Search_def)
qed

section \<open>Lists cut at a position\<close>

lemma in_set_tlD: "x \<in> set (tl xs) \<Longrightarrow> x \<in> set xs"
  by (cases xs) auto

text \<open>A property that holds exactly from position \<open>s\<close> on.\<close>

lemma filter_from:
  assumes "s \<le> length xs" "\<And>i. i < length xs \<Longrightarrow> P (xs ! i) \<longleftrightarrow> s \<le> i"
  shows "filter P xs = drop s xs" "filter (\<lambda>x. \<not> P x) xs = take s xs"
    "takeWhile (\<lambda>x. \<not> P x) xs = take s xs" "dropWhile (\<lambda>x. \<not> P x) xs = drop s xs"
proof -
  have t: "\<not> P x" if "x \<in> set (take s xs)" for x
    using that assms by (auto simp: in_set_conv_nth)
  have d: "P x" if "x \<in> set (drop s xs)" for x
    using that assms(2) by (auto simp: in_set_conv_nth)
  have "filter P (take s xs @ drop s xs) = drop s xs"
    using t d by (simp only: filter_append) (simp add: filter_id_conv filter_empty_conv)
  then show "filter P xs = drop s xs" by simp
  have "filter (\<lambda>x. \<not> P x) (take s xs @ drop s xs) = take s xs"
    using t d by (simp only: filter_append) (simp add: filter_id_conv filter_empty_conv)
  then show "filter (\<lambda>x. \<not> P x) xs = take s xs" by simp
  have h: "drop s xs = [] \<or> P (hd (drop s xs))" using d by (cases "drop s xs") auto
  have "takeWhile (\<lambda>x. \<not> P x) (take s xs @ drop s xs) = take s xs"
    using t h by (subst takeWhile_append2) (auto simp: takeWhile_eq_Nil_iff)
  then show "takeWhile (\<lambda>x. \<not> P x) xs = take s xs" by simp
  have "dropWhile (\<lambda>x. \<not> P x) (take s xs @ drop s xs) = drop s xs"
    using t h by (subst dropWhile_append2) (auto simp: dropWhile_eq_self_iff)
  then show "dropWhile (\<lambda>x. \<not> P x) xs = drop s xs" by simp
qed

end
