(* ===== verification/Sem_Ver.thy ===== *)
theory Sem_Ver
  imports Prelude "HOL-Library.Product_Lexorder"
begin

text \<open>
  Semantic versions (\<open>jobfile/semver.go\<close>): comparison, printing, and parsing. The method
  \<open>fromString\<close> writes the fields of its receiver one at a time, so the model returns the
  receiver as it is left beside the error, also when a later field is malformed.
\<close>

section \<open>Definitions\<close>

datatype SemVer = SemVer (Major: nat) (Minor: nat) (Patch: nat)

definition SemVer_zero :: SemVer where
  "SemVer_zero = SemVer 0 0 0"

definition IsZero :: "SemVer \<Rightarrow> bool" where
  "IsZero v \<longleftrightarrow> Major v = 0 \<and> Minor v = 0 \<and> Patch v = 0"

definition SemVer_String :: "SemVer \<Rightarrow> string" where
  "SemVer_String v =
     (if Patch v > 0 then nat_str (Major v) @ ''.'' @ nat_str (Minor v) @ ''.'' @ nat_str (Patch v)
      else if Minor v > 0 then nat_str (Major v) @ ''.'' @ nat_str (Minor v)
      else nat_str (Major v))"

definition SemVer_MarshalJSON :: "SemVer \<Rightarrow> string" where
  "SemVer_MarshalJSON v = [CHR 0x22] @ SemVer_String v @ [CHR 0x22]"

definition SemVer_MarshalYAML :: "SemVer \<Rightarrow> string" where
  "SemVer_MarshalYAML v = SemVer_String v"

definition SemVer_fromString :: "SemVer \<Rightarrow> string \<Rightarrow> SemVer \<times> error option" where
  "SemVer_fromString self s =
     (let parts = Split s ''.'' in
      if length parts > 3 \<or> length parts = 0
      then (self, Some (Error (''Invalid Semantic Version: '' @ s) None))
      else
        case (if length parts > 0 then ParseUint (parts ! 0) 32 else Ok (Major self)) of
          Fail e \<Rightarrow> (self, Some e)
        | Panic p \<Rightarrow> (self, Some (Errno p))
        | Ok major \<Rightarrow>
          let self1 = SemVer major (Minor self) (Patch self) in
          case (if length parts > 1 then ParseUint (parts ! 1) 32 else Ok (Minor self)) of
            Fail e \<Rightarrow> (self1, Some e)
          | Panic p \<Rightarrow> (self1, Some (Errno p))
          | Ok minor \<Rightarrow>
            let self2 = SemVer major minor (Patch self) in
            case (if length parts > 2 then ParseUint (parts ! 2) 32 else Ok (Patch self)) of
              Fail e \<Rightarrow> (self2, Some e)
            | Panic p \<Rightarrow> (self2, Some (Errno p))
            | Ok patch \<Rightarrow> (SemVer major minor patch, None))"

text \<open>
  \<open>UnmarshalYAML\<close> is called by the YAML decoder with a callback that decodes the node as a
  string; the callback is the argument \<open>unmarshal\<close>.
\<close>

definition SemVer_UnmarshalYAML :: "SemVer \<Rightarrow> (unit \<Rightarrow> string outcome) \<Rightarrow> SemVer \<times> error option" where
  "SemVer_UnmarshalYAML self unmarshal =
     (case unmarshal () of
        Ok s \<Rightarrow> SemVer_fromString self s
      | Fail e \<Rightarrow> (self, Some (Error ''Cannot unmarshal SemVer'' (Some e)))
      | Panic p \<Rightarrow> (self, Some (Errno p)))"

definition compareInts :: "nat \<Rightarrow> nat \<Rightarrow> int" where
  "compareInts a b = (if a < b then -1 else if a > b then 1 else 0)"

definition Compare :: "SemVer \<Rightarrow> SemVer \<Rightarrow> int" where
  "Compare self other =
     (let c = compareInts (Major self) (Major other) in
      if c \<noteq> 0 then c
      else let c = compareInts (Minor self) (Minor other) in
        if c \<noteq> 0 then c
        else compareInts (Patch self) (Patch other))"

section \<open>Comparison\<close>

lemma compareInts_sign:
  "compareInts a b < 0 \<longleftrightarrow> a < b" "compareInts a b = 0 \<longleftrightarrow> a = b" "compareInts a b > 0 \<longleftrightarrow> a > b"
  by (auto simp: compareInts_def)

lemma Compare_less_iff:
  "Compare v w < 0 \<longleftrightarrow>
     Major v < Major w \<or> Major v = Major w \<and>
       (Minor v < Minor w \<or> Minor v = Minor w \<and> Patch v < Patch w)"
  by (auto simp: Compare_def compareInts_def Let_def)

lemma Compare_eq_iff: "Compare v w = 0 \<longleftrightarrow> v = w"
  by (cases v; cases w) (auto simp: Compare_def compareInts_def Let_def)

lemma Compare_swap: "Compare w v = - Compare v w"
  by (auto simp: Compare_def compareInts_def Let_def)

text \<open>
  The order of \<open>Compare\<close> makes versions a linear order, so that the library's order lemmas
  apply to the version tests of the job-file loader and of the program sink.
\<close>

instantiation SemVer :: linorder
begin

definition less_eq_SemVer :: "SemVer \<Rightarrow> SemVer \<Rightarrow> bool" where
  "less_eq_SemVer v w \<longleftrightarrow> Compare v w \<le> 0"

definition less_SemVer :: "SemVer \<Rightarrow> SemVer \<Rightarrow> bool" where
  "less_SemVer v w \<longleftrightarrow> Compare v w < 0"

instance
proof
  fix x y z :: SemVer
  show "x < y \<longleftrightarrow> x \<le> y \<and> \<not> y \<le> x"
    using Compare_swap [of x y] by (auto simp: less_SemVer_def less_eq_SemVer_def)
  show "x \<le> x"
    using Compare_eq_iff [of x x] by (simp add: less_eq_SemVer_def)
  have le: "v \<le> w \<longleftrightarrow> Compare v w < 0 \<or> v = w" for v w :: SemVer
    using Compare_eq_iff [of v w] by (auto simp: less_eq_SemVer_def)
  show "x \<le> y \<Longrightarrow> y \<le> z \<Longrightarrow> x \<le> z"
    by (auto simp: le Compare_less_iff)
  show "x \<le> y \<Longrightarrow> y \<le> x \<Longrightarrow> x = y"
    using Compare_swap [of x y] by (auto simp: le)
  show "x \<le> y \<or> y \<le> x"
    using Compare_swap [of x y] by (auto simp: less_eq_SemVer_def)
qed

end

lemma Compare_le_trans:
  "Compare u v \<le> 0 \<Longrightarrow> Compare v w \<le> 0 \<Longrightarrow> Compare u w \<le> 0"
  using order_trans [of u v w] by (simp add: less_eq_SemVer_def)

section \<open>Printing and parsing\<close>

lemma SemVer_String_parts:
  "Split (SemVer_String v) ''.'' =
     (if Patch v > 0 then [nat_str (Major v), nat_str (Minor v), nat_str (Patch v)]
      else if Minor v > 0 then [nat_str (Major v), nat_str (Minor v)]
      else [nat_str (Major v)])"
  by (simp add: SemVer_String_def string_simps nat_str_notin dot_not_digit)

lemma SemVer_fromString_frame:
  assumes "SemVer_fromString self s = (v, Some e)"
  shows "Patch v = Patch self"
  using assms
  by (auto simp: SemVer_fromString_def Let_def split: if_splits outcome.splits)

section \<open>Properties\<close>

text \<open>
  A version whose parts fit 32 bits, printed and read back into a zero value (as the job-file
  loader does), is the version itself, whichever of its parts were left out of the text; the
  YAML decoder's entry point reads it the same way.
\<close>

theorem SemVer_roundtrip:
  assumes "Major v < 2 ^ 32" "Minor v < 2 ^ 32" "Patch v < 2 ^ 32"
  shows "SemVer_fromString SemVer_zero (SemVer_String v) = (v, None) \<and>
    SemVer_UnmarshalYAML SemVer_zero (\<lambda>_. Ok (SemVer_MarshalYAML v)) = (v, None)"
  using assms
  by (cases v) (auto simp: SemVer_fromString_def SemVer_UnmarshalYAML_def SemVer_MarshalYAML_def
      SemVer_String_parts SemVer_zero_def)

theorem SemVer_roundtrip_witness:
  "SemVer_fromString SemVer_zero (SemVer_String (SemVer 1 4 0)) = (SemVer 1 4 0, None) \<and>
   SemVer_String (SemVer 1 4 0) = ''1.4''"
proof
  show "SemVer_fromString SemVer_zero (SemVer_String (SemVer 1 4 0)) = (SemVer 1 4 0, None)"
    using SemVer_roundtrip [of "SemVer 1 4 0"] by simp
  show "SemVer_String (SemVer 1 4 0) = ''1.4''" by code_simp
qed

text \<open>
  \<open>Compare\<close> is the lexicographic comparison of the three parts: its sign is negative, zero or
  positive when the first version is older, equal or newer; swapping the arguments flips the
  sign; and "not newer" is transitive.
\<close>

theorem Compare_order:
  "(Compare v w < 0 \<longleftrightarrow> (Major v, Minor v, Patch v) < (Major w, Minor w, Patch w)) \<and>
   (Compare v w = 0 \<longleftrightarrow> v = w) \<and> Compare w v = - Compare v w \<and>
   (Compare u w \<le> 0 \<or> Compare u v > 0 \<or> Compare v w > 0)"
proof (intro conjI)
  show "Compare v w < 0 \<longleftrightarrow> (Major v, Minor v, Patch v) < (Major w, Minor w, Patch w)"
    by (auto simp: Compare_less_iff less_prod_def less_eq_prod_def)
  show "Compare u w \<le> 0 \<or> Compare u v > 0 \<or> Compare v w > 0"
    using Compare_le_trans [of u v w] by linarith
qed (auto simp: Compare_eq_iff Compare_swap [of v w])

end
