(* ===== verification/Go_Time.thy ===== *)
theory Go_Time
  imports Prelude
begin

text \<open>
  The part of package time that the program uses. A \<open>time.Time\<close> is its instant, in
  nanoseconds since the Unix epoch. The calendar methods read the instant in a location;
  the location's zone data comes from the system, so it is an argument \<open>loc\<close>: the offset
  from UTC, in seconds, in force at a Unix second. The calendar is the proleptic Gregorian
  one that Go uses.
\<close>

type_synonym go_time = int
type_synonym duration = int
type_synonym location = "int \<Rightarrow> int"

definition Second_dur :: duration where
  "Second_dur = 1000000000"

definition Hour_dur :: duration where
  "Hour_dur = 3600 * Second_dur"

definition Add :: "go_time \<Rightarrow> duration \<Rightarrow> go_time" where
  "Add t d = t + d"

definition Sub :: "go_time \<Rightarrow> go_time \<Rightarrow> duration" where
  "Sub t u = t - u"

definition After :: "go_time \<Rightarrow> go_time \<Rightarrow> bool" where
  "After t u \<longleftrightarrow> u < t"

definition Before :: "go_time \<Rightarrow> go_time \<Rightarrow> bool" where
  "Before t u \<longleftrightarrow> t < u"

definition Unix :: "go_time \<Rightarrow> int" where
  "Unix t = t div Second_dur"

text \<open>The zero value of \<open>time.Time\<close>: midnight of January 1 of year 1, UTC.\<close>

definition zero_time :: go_time where
  "zero_time = - 62135596800 * Second_dur"

text \<open>Seconds and days since the epoch on the location's wall clock.\<close>

definition wall_sec :: "location \<Rightarrow> go_time \<Rightarrow> int" where
  "wall_sec loc t = Unix t + loc (Unix t)"

definition wall_day :: "location \<Rightarrow> go_time \<Rightarrow> int" where
  "wall_day loc t = wall_sec loc t div 86400"

definition Second_of :: "location \<Rightarrow> go_time \<Rightarrow> int" where
  "Second_of loc t = wall_sec loc t mod 60"

definition Minute_of :: "location \<Rightarrow> go_time \<Rightarrow> int" where
  "Minute_of loc t = wall_sec loc t mod 3600 div 60"

definition Hour_of :: "location \<Rightarrow> go_time \<Rightarrow> int" where
  "Hour_of loc t = wall_sec loc t mod 86400 div 3600"

text \<open>Day 0 is a Thursday; \<open>time.Sunday\<close> is 0.\<close>

definition Weekday_of :: "location \<Rightarrow> go_time \<Rightarrow> int" where
  "Weekday_of loc t = (wall_day loc t + 4) mod 7"

text \<open>
  Month and day of month of a day number: the day is placed in its 400-year era, counted
  from March 1, then in its year and in its month.
\<close>

definition day_of_era :: "int \<Rightarrow> int" where
  "day_of_era z = (z + 719468) mod 146097"

definition year_of_era :: "int \<Rightarrow> int" where
  "year_of_era doe = (doe - doe div 1460 + doe div 36524 - doe div 146096) div 365"

definition day_of_year :: "int \<Rightarrow> int" where
  "day_of_year doe =
     (let yoe = year_of_era doe in doe - (365 * yoe + yoe div 4 - yoe div 100))"

definition civil :: "int \<Rightarrow> int \<times> int" where
  "civil z =
     (let doy = day_of_year (day_of_era z); mp = (5 * doy + 2) div 153 in
      (if mp < 10 then mp + 3 else mp - 9, doy - (153 * mp + 2) div 5 + 1))"

definition Month_of :: "location \<Rightarrow> go_time \<Rightarrow> int" where
  "Month_of loc t = fst (civil (wall_day loc t))"

definition Day_of :: "location \<Rightarrow> go_time \<Rightarrow> int" where
  "Day_of loc t = snd (civil (wall_day loc t))"

lemmas time_order_defs = Before_def After_def Add_def Sub_def

lemma clock_bounds:
  "0 \<le> Second_of loc t" "Second_of loc t \<le> 59"
  "0 \<le> Minute_of loc t" "Minute_of loc t \<le> 59"
  "0 \<le> Hour_of loc t" "Hour_of loc t \<le> 23"
  "0 \<le> Weekday_of loc t" "Weekday_of loc t \<le> 6"
proof -
  have "wall_sec loc t mod 3600 < 3600" by simp
  then show "Minute_of loc t \<le> 59" unfolding Minute_of_def by linarith
  have "wall_sec loc t mod 86400 < 86400" by simp
  then show "Hour_of loc t \<le> 23" unfolding Hour_of_def by linarith
  show "Weekday_of loc t \<le> 6" "Second_of loc t \<le> 59"
    using pos_mod_bound [of 7 "wall_day loc t + 4"] pos_mod_bound [of 60 "wall_sec loc t"]
    by (simp_all add: Weekday_of_def Second_of_def)
qed (simp_all add: Second_of_def Minute_of_def Hour_of_def Weekday_of_def pos_imp_zdiv_nonneg_iff)

lemma month_day_bounds:
  assumes "0 \<le> doy" "doy \<le> 365" "mp = (5 * doy + 2) div 153"
  shows "0 \<le> mp \<and> mp \<le> 11 \<and> 1 \<le> doy - (153 * mp + 2) div 5 + 1 \<and> doy - (153 * mp + 2) div 5 + 1 \<le> (31::int)"
  using assms by (intro conjI) linarith+

text \<open>A known date: 2016-01-04 is a Monday (the schedule tests of the program use it).\<close>

lemma civil_2016_01_04: "civil 16804 = (1, 4)" "(16804 + 4) mod 7 = (1::int)"
  by (simp_all add: civil_def day_of_year_def year_of_era_def day_of_era_def Let_def)

end
