(* ===== verification/Time_Spec.thy ===== *)
theory Time_Spec
  imports Go_Time
begin

text \<open>
  Time specifications (\<open>jobfile/time_spec.go\<close>): the four implementations of the interface
  \<open>TimeSpec\<close>, the test of a time against a full specification, and the choice of a random
  value by \<open>Derandomize\<close>.

  The numbers drawn from package \<open>math/rand\<close> are an argument: \<open>intn k n\<close> is what the
  \<open>k\<close>-th call \<open>rand.Intn(n)\<close> returns. Its documented contract is \<open>intn_ok\<close>.
\<close>

section \<open>Definitions\<close>

definition monthToInt :: "int \<Rightarrow> int" where
  "monthToInt m =
     (if m = 1 then 1 else if m = 2 then 2 else if m = 3 then 3 else if m = 4 then 4
      else if m = 5 then 5 else if m = 6 then 6 else if m = 7 then 7 else if m = 8 then 8
      else if m = 9 then 9 else if m = 10 then 10 else if m = 11 then 11 else 12)"

definition weekdayToInt :: "int \<Rightarrow> int" where
  "weekdayToInt d =
     (if d = 0 then 0 else if d = 1 then 1 else if d = 2 then 2 else if d = 3 then 3
      else if d = 4 then 4 else if d = 5 then 5 else 6)"

datatype TimeSpec =
    WildcardTimeSpec
  | OneValTimeSpec int
  | SetTimeSpec string "int list"
  | RandomTimeSpec string "int list" "int option"

fun IsWildcard :: "TimeSpec \<Rightarrow> bool" where
  "IsWildcard WildcardTimeSpec = True"
| "IsWildcard (OneValTimeSpec v) = False"
| "IsWildcard (SetTimeSpec desc vals) = False"
| "IsWildcard (RandomTimeSpec desc vals pickedVal) = False"

fun TimeSpec_String :: "TimeSpec \<Rightarrow> string" where
  "TimeSpec_String WildcardTimeSpec = ''*''"
| "TimeSpec_String (OneValTimeSpec v) = Itoa v"
| "TimeSpec_String (SetTimeSpec desc vals) = desc"
| "TimeSpec_String (RandomTimeSpec desc vals None) = desc"
| "TimeSpec_String (RandomTimeSpec desc vals (Some v)) = desc @ ''->'' @ Itoa v"

fun SetTimeSpec_Satisfied :: "int list \<Rightarrow> int \<Rightarrow> bool" where
  "SetTimeSpec_Satisfied [] v = False"
| "SetTimeSpec_Satisfied (v2 # vals) v = (if v = v2 then True else SetTimeSpec_Satisfied vals v)"

fun TimeSpec_Satisfied :: "TimeSpec \<Rightarrow> int \<Rightarrow> bool outcome" where
  "TimeSpec_Satisfied WildcardTimeSpec v = Ok True"
| "TimeSpec_Satisfied (OneValTimeSpec val) v = Ok (val = v)"
| "TimeSpec_Satisfied (SetTimeSpec desc vals) v = Ok (SetTimeSpec_Satisfied vals v)"
| "TimeSpec_Satisfied (RandomTimeSpec desc vals None) v =
     Panic ''RandomTimeSpec has never been derandomized''"
| "TimeSpec_Satisfied (RandomTimeSpec desc vals (Some p)) v = Ok (p = v)"

fun TimeSpec_Derandomize :: "(nat \<Rightarrow> nat) \<Rightarrow> TimeSpec \<Rightarrow> TimeSpec outcome" where
  "TimeSpec_Derandomize intn (RandomTimeSpec desc vals None) =
     (if length vals = 0 then Panic ''invalid argument to Intn''
      else if intn (length vals) < length vals
      then Ok (RandomTimeSpec desc vals (Some (vals ! intn (length vals))))
      else Panic ''index out of range'')"
| "TimeSpec_Derandomize intn spec = Ok spec"

fun PickedValue :: "TimeSpec \<Rightarrow> int option" where
  "PickedValue (RandomTimeSpec desc vals p) = p"
| "PickedValue spec = None"

record FullTimeSpec =
  SecSpec :: TimeSpec
  MinSpec :: TimeSpec
  HourSpec :: TimeSpec
  MdaySpec :: TimeSpec
  MonSpec :: TimeSpec
  WdaySpec :: TimeSpec

definition FullTimeSpec_String :: "FullTimeSpec \<Rightarrow> string" where
  "FullTimeSpec_String spec =
     TimeSpec_String (SecSpec spec) @ '' '' @ TimeSpec_String (MinSpec spec) @ '' '' @
     TimeSpec_String (HourSpec spec) @ '' '' @ TimeSpec_String (MdaySpec spec) @ '' '' @
     TimeSpec_String (MonSpec spec) @ '' '' @ TimeSpec_String (WdaySpec spec)"

definition FullTimeSpec_Derandomize ::
    "(nat \<Rightarrow> nat \<Rightarrow> nat) \<Rightarrow> FullTimeSpec \<Rightarrow> FullTimeSpec outcome" where
  "FullTimeSpec_Derandomize intn spec =
     bind_outcome (TimeSpec_Derandomize (intn 0) (SecSpec spec)) (\<lambda>sec.
     bind_outcome (TimeSpec_Derandomize (intn 1) (MinSpec spec)) (\<lambda>mins.
     bind_outcome (TimeSpec_Derandomize (intn 2) (HourSpec spec)) (\<lambda>hour.
     bind_outcome (TimeSpec_Derandomize (intn 3) (MdaySpec spec)) (\<lambda>mday.
     bind_outcome (TimeSpec_Derandomize (intn 4) (MonSpec spec)) (\<lambda>mon.
     bind_outcome (TimeSpec_Derandomize (intn 5) (WdaySpec spec)) (\<lambda>wday.
       Ok \<lparr>SecSpec = sec, MinSpec = mins, HourSpec = hour, MdaySpec = mday,
           MonSpec = mon, WdaySpec = wday\<rparr>))))))"

text \<open>Go's \<open>&&\<close> and \<open>||\<close> do not evaluate (so do not panic in) a right operand they skip.\<close>

definition and_also :: "bool outcome \<Rightarrow> bool outcome \<Rightarrow> bool outcome" where
  "and_also a b = bind_outcome a (\<lambda>x. if x then b else Ok False)"

definition or_else :: "bool outcome \<Rightarrow> bool outcome \<Rightarrow> bool outcome" where
  "or_else a b = bind_outcome a (\<lambda>x. if x then Ok True else b)"

definition FullTimeSpec_Satisfied :: "location \<Rightarrow> FullTimeSpec \<Rightarrow> go_time \<Rightarrow> bool outcome" where
  "FullTimeSpec_Satisfied loc self t =
     bind_outcome
       (and_also (and_also (and_also
          (TimeSpec_Satisfied (SecSpec self) (Second_of loc t))
          (TimeSpec_Satisfied (MinSpec self) (Minute_of loc t)))
          (TimeSpec_Satisfied (HourSpec self) (Hour_of loc t)))
          (TimeSpec_Satisfied (MonSpec self) (monthToInt (Month_of loc t))))
       (\<lambda>nondayMatch.
     bind_outcome
       (if \<not> IsWildcard (MdaySpec self) \<and> \<not> IsWildcard (WdaySpec self)
        then or_else (TimeSpec_Satisfied (WdaySpec self) (weekdayToInt (Weekday_of loc t)))
                     (TimeSpec_Satisfied (MdaySpec self) (Day_of loc t))
        else and_also (TimeSpec_Satisfied (WdaySpec self) (weekdayToInt (Weekday_of loc t)))
                      (TimeSpec_Satisfied (MdaySpec self) (Day_of loc t)))
       (\<lambda>dayMatch. Ok (nondayMatch \<and> dayMatch)))"

section \<open>Specification\<close>

text \<open>
  What a specification means, as the set of field values it admits, and what a full one
  means, as a predicate on the calendar fields of a time.
\<close>

fun admits :: "TimeSpec \<Rightarrow> int \<Rightarrow> bool" where
  "admits WildcardTimeSpec v \<longleftrightarrow> True"
| "admits (OneValTimeSpec val) v \<longleftrightarrow> v = val"
| "admits (SetTimeSpec desc vals) v \<longleftrightarrow> v \<in> set vals"
| "admits (RandomTimeSpec desc vals p) v \<longleftrightarrow> p = Some v"

fun derandomized :: "TimeSpec \<Rightarrow> bool" where
  "derandomized (RandomTimeSpec desc vals p) \<longleftrightarrow> p \<noteq> None"
| "derandomized spec \<longleftrightarrow> True"

definition full_derandomized :: "FullTimeSpec \<Rightarrow> bool" where
  "full_derandomized s \<longleftrightarrow> derandomized (SecSpec s) \<and> derandomized (MinSpec s) \<and>
     derandomized (HourSpec s) \<and> derandomized (MdaySpec s) \<and> derandomized (MonSpec s) \<and>
     derandomized (WdaySpec s)"

definition schedule_admits :: "location \<Rightarrow> FullTimeSpec \<Rightarrow> go_time \<Rightarrow> bool" where
  "schedule_admits loc s t \<longleftrightarrow>
     admits (SecSpec s) (Second_of loc t) \<and> admits (MinSpec s) (Minute_of loc t) \<and>
     admits (HourSpec s) (Hour_of loc t) \<and> admits (MonSpec s) (monthToInt (Month_of loc t)) \<and>
     (if IsWildcard (MdaySpec s) then admits (WdaySpec s) (Weekday_of loc t)
      else if IsWildcard (WdaySpec s) then admits (MdaySpec s) (Day_of loc t)
      else admits (WdaySpec s) (Weekday_of loc t) \<or> admits (MdaySpec s) (Day_of loc t))"

definition intn_ok :: "(nat \<Rightarrow> nat \<Rightarrow> nat) \<Rightarrow> bool" where
  "intn_ok intn \<longleftrightarrow> (\<forall>k n. 0 < n \<longrightarrow> intn k n < n)"

text \<open>A random specification has something to pick from.\<close>

fun pickable :: "TimeSpec \<Rightarrow> bool" where
  "pickable (RandomTimeSpec desc vals p) \<longleftrightarrow> vals \<noteq> []"
| "pickable spec \<longleftrightarrow> True"

definition full_pickable :: "FullTimeSpec \<Rightarrow> bool" where
  "full_pickable s \<longleftrightarrow> pickable (SecSpec s) \<and> pickable (MinSpec s) \<and> pickable (HourSpec s) \<and>
     pickable (MdaySpec s) \<and> pickable (MonSpec s) \<and> pickable (WdaySpec s)"

section \<open>Lemmas\<close>

lemma SetTimeSpec_Satisfied_iff [simp]: "SetTimeSpec_Satisfied vals v \<longleftrightarrow> v \<in> set vals"
  by (induction vals) auto

lemma TimeSpec_Satisfied_derandomized:
  "derandomized spec \<Longrightarrow> TimeSpec_Satisfied spec v = Ok (admits spec v)"
  by (cases "(spec, v)" rule: TimeSpec_Satisfied.cases) auto

lemma IsWildcard_iff: "IsWildcard spec \<longleftrightarrow> spec = WildcardTimeSpec"
  by (cases spec) auto

lemma weekdayToInt_id [simp]: "weekdayToInt (Weekday_of loc t) = Weekday_of loc t"
  using clock_bounds(7,8) [of loc t] by (auto simp: weekdayToInt_def)

lemma monthToInt_id: "1 \<le> m \<Longrightarrow> m \<le> 12 \<Longrightarrow> monthToInt m = m"
  unfolding monthToInt_def by presburger

lemma and_also_Ok [simp]: "and_also (Ok a) (Ok b) = Ok (a \<and> b)"
  by (simp add: and_also_def)

lemma or_else_Ok [simp]: "or_else (Ok a) (Ok b) = Ok (a \<or> b)"
  by (simp add: or_else_def)

lemma FullTimeSpec_Satisfied_eq:
  "full_derandomized s \<Longrightarrow> FullTimeSpec_Satisfied loc s t = Ok (schedule_admits loc s t)"
  by (auto simp: full_derandomized_def FullTimeSpec_Satisfied_def schedule_admits_def
      TimeSpec_Satisfied_derandomized IsWildcard_iff)

lemma TimeSpec_Derandomize_Ok:
  assumes "pickable spec" "\<And>n. 0 < n \<Longrightarrow> intn n < n"
  shows "\<exists>spec'. TimeSpec_Derandomize intn spec = Ok spec' \<and> derandomized spec' \<and>
    (\<forall>v. PickedValue spec' = Some v \<longrightarrow>
       (\<exists>desc vals. spec' = RandomTimeSpec desc vals (Some v) \<and>
          (PickedValue spec = None \<longrightarrow> v \<in> set vals)))"
  using assms by (cases "(intn, spec)" rule: TimeSpec_Derandomize.cases) auto

lemma TimeSpec_Derandomize_derandomized:
  "TimeSpec_Derandomize intn spec = Ok spec' \<Longrightarrow> derandomized spec'"
  by (cases "(intn, spec)" rule: TimeSpec_Derandomize.cases) (auto split: if_splits)

lemma TimeSpec_Derandomize_idem:
  "derandomized spec \<Longrightarrow> TimeSpec_Derandomize intn spec = Ok spec"
  by (cases "(intn, spec)" rule: TimeSpec_Derandomize.cases) auto

lemma FullTimeSpec_Derandomize_Ok:
  assumes "full_pickable s" "intn_ok intn"
  shows "\<exists>s'. FullTimeSpec_Derandomize intn s = Ok s' \<and> full_derandomized s'"
proof -
  have total: "\<exists>spec'. TimeSpec_Derandomize (intn k) spec = Ok spec' \<and> derandomized spec'"
    if "pickable spec" for k spec
    using TimeSpec_Derandomize_Ok [OF that, of "intn k"] assms(2) by (auto simp: intn_ok_def)
  have p: "pickable (SecSpec s)" "pickable (MinSpec s)" "pickable (HourSpec s)"
      "pickable (MdaySpec s)" "pickable (MonSpec s)" "pickable (WdaySpec s)"
    using assms(1) by (simp_all add: full_pickable_def)
  show ?thesis
    using total [OF p(1), of 0] total [OF p(2), of 1] total [OF p(3), of 2]
      total [OF p(4), of 3] total [OF p(5), of 4] total [OF p(6), of 5]
    by (auto simp: FullTimeSpec_Derandomize_def full_derandomized_def)
qed

lemma FullTimeSpec_Derandomize_idem:
  "full_derandomized s \<Longrightarrow> FullTimeSpec_Derandomize intn s = Ok s"
  by (simp add: full_derandomized_def FullTimeSpec_Derandomize_def TimeSpec_Derandomize_idem)

section \<open>Properties\<close>

text \<open>
  C9. The schedule test: for a schedule whose random values are picked, \<open>Satisfied\<close> never panics
  and is true exactly of the times whose second, minute, hour and month the schedule admits and
  whose day it admits by week day or by month day (either one suffices if both are given, as in
  cron; a wildcard on one side leaves the other to decide).
\<close>

theorem Satisfied_iff_schedule:
  assumes "full_derandomized s"
  shows "FullTimeSpec_Satisfied loc s t = Ok (schedule_admits loc s t)"
  by (rule FullTimeSpec_Satisfied_eq [OF assms])

text \<open>At noon of Friday 2016-01-01 in UTC: the 13th of the month or a Friday.\<close>

theorem Satisfied_iff_schedule_witness:
  "FullTimeSpec_Satisfied (\<lambda>_. 0)
     \<lparr>SecSpec = OneValTimeSpec 0, MinSpec = OneValTimeSpec 0, HourSpec = SetTimeSpec ''12,18'' [12, 18],
      MdaySpec = OneValTimeSpec 13, MonSpec = WildcardTimeSpec, WdaySpec = OneValTimeSpec 5\<rparr>
     (1451649600 * 10 ^ 9) = Ok True"
proof -
  let ?s = "\<lparr>SecSpec = OneValTimeSpec 0, MinSpec = OneValTimeSpec 0, HourSpec = SetTimeSpec ''12,18'' [12, 18],
      MdaySpec = OneValTimeSpec 13, MonSpec = WildcardTimeSpec, WdaySpec = OneValTimeSpec 5\<rparr>"
  have "full_derandomized ?s" by (simp add: full_derandomized_def)
  moreover have "schedule_admits (\<lambda>_. 0) ?s (1451649600 * 10 ^ 9)"
    by (simp add: schedule_admits_def Second_of_def Minute_of_def Hour_of_def Weekday_of_def
        wall_sec_def wall_day_def Unix_def Second_dur_def)
  ultimately show ?thesis using Satisfied_iff_schedule by simp
qed

text \<open>
  \<open>Derandomize\<close>: when every random field has values to pick from and the random source keeps
  its bound, the call succeeds, every random field is left with one of its own values, the other
  fields are unchanged, and calling it again changes nothing whatever the source then gives.
\<close>

definition picked_from :: "TimeSpec \<Rightarrow> TimeSpec \<Rightarrow> bool" where
  "picked_from spec spec' \<longleftrightarrow>
     (case spec of
        RandomTimeSpec desc vals None \<Rightarrow> \<exists>v \<in> set vals. spec' = RandomTimeSpec desc vals (Some v)
      | _ \<Rightarrow> spec' = spec)"

lemma TimeSpec_Derandomize_picked:
  assumes "TimeSpec_Derandomize intn spec = Ok spec'" "pickable spec" "\<And>n. 0 < n \<Longrightarrow> intn n < n"
  shows "picked_from spec spec'"
  using assms
  by (cases "(intn, spec)" rule: TimeSpec_Derandomize.cases) (auto simp: picked_from_def split: option.splits)

theorem Derandomize_picks:
  assumes "full_pickable s" "intn_ok intn"
  shows "\<exists>s'. FullTimeSpec_Derandomize intn s = Ok s' \<and> full_derandomized s' \<and>
    picked_from (SecSpec s) (SecSpec s') \<and> picked_from (MinSpec s) (MinSpec s') \<and>
    picked_from (HourSpec s) (HourSpec s') \<and> picked_from (MdaySpec s) (MdaySpec s') \<and>
    picked_from (MonSpec s) (MonSpec s') \<and> picked_from (WdaySpec s) (WdaySpec s') \<and>
    FullTimeSpec_Derandomize intn2 s' = Ok s'"
proof -
  obtain s' where s': "FullTimeSpec_Derandomize intn s = Ok s'" "full_derandomized s'"
    using FullTimeSpec_Derandomize_Ok [OF assms] by blast
  have "picked_from spec spec'" if "TimeSpec_Derandomize (intn k) spec = Ok spec'" "pickable spec" for k spec spec'
    using TimeSpec_Derandomize_picked [OF that] assms(2) by (simp add: intn_ok_def)
  then show ?thesis
    using s' FullTimeSpec_Derandomize_idem [OF s'(2)] assms(1)
    by (auto simp: FullTimeSpec_Derandomize_def full_pickable_def outcome_simps)
qed

theorem Derandomize_picks_witness:
  "\<exists>s'. FullTimeSpec_Derandomize (\<lambda>k n. k mod n)
      \<lparr>SecSpec = RandomTimeSpec ''R'' [0..59] None, MinSpec = WildcardTimeSpec, HourSpec = WildcardTimeSpec,
       MdaySpec = WildcardTimeSpec, MonSpec = WildcardTimeSpec, WdaySpec = WildcardTimeSpec\<rparr> = Ok s' \<and>
    full_derandomized s'"
proof -
  let ?s = "\<lparr>SecSpec = RandomTimeSpec ''R'' [0..59] None, MinSpec = WildcardTimeSpec, HourSpec = WildcardTimeSpec,
       MdaySpec = WildcardTimeSpec, MonSpec = WildcardTimeSpec, WdaySpec = WildcardTimeSpec\<rparr>"
  have "full_pickable ?s" "intn_ok (\<lambda>k n. k mod n)"
    by (simp_all add: full_pickable_def intn_ok_def upto.simps [of 0])
  from Derandomize_picks [OF this] show ?thesis by blast
qed

end
