(* ===== verification/Time_Spec_Parser.thy ===== *)
theory Time_Spec_Parser
  imports Time_Spec
begin

text \<open>
  The parser of one field of a schedule (\<open>jobfile/parse_time_spec.y\<close>) and of a whole
  schedule (\<open>ParseFullTimeSpec\<close> of \<open>jobfile/time_spec.go\<close>).

  The lexer is translated with its state (the rest of the input and one rune of push-back)
  and the global error message that it and the parser share. The grammar is small enough
  that the automaton goyacc makes from it is a descent with one token of look-ahead:
  \<open>yyParse\<close> reads the tokens in the automaton's order, calls the lexer's method \<open>Error\<close> where
  the automaton finds no action, and runs the three error productions (an \<open>INT\<close> missing
  after \<open>*/\<close>, a comma or a dash). The lexer reads bytes as runes, so a rune is a \<^typ>\<open>char\<close>
  and the tests of package unicode are those of Latin-1.

  A step of zero makes \<open>StepSetExp.Eval\<close> loop for ever: that function is partial, and
  \<^term>\<open>None\<close> means that the call does not return.
\<close>

section \<open>Runes and the lexer\<close>

definition gEof :: char where
  "gEof = CHR 0x00"

definition unicode_IsSpace :: "char \<Rightarrow> bool" where
  "unicode_IsSpace r \<longleftrightarrow> is_space r \<or> r = CHR 0x85 \<or> r = CHR 0xA0"

definition unicode_IsPunct :: "char \<Rightarrow> bool" where
  "unicode_IsPunct r \<longleftrightarrow>
     r \<in> set ''!#%&()*,-./:;?@[]_{}'' \<or> r \<in> {CHR 0x22, CHR 0x27, CHR 0x5C} \<or>
     r \<in> {CHR 0xA1, CHR 0xA7, CHR 0xAB, CHR 0xB6, CHR 0xB7, CHR 0xBB, CHR 0xBF}"

definition unicode_IsGraphic :: "char \<Rightarrow> bool" where
  "unicode_IsGraphic r \<longleftrightarrow>
     (32 \<le> (of_char r :: nat) \<and> (of_char r :: nat) \<le> 126) \<or>
     (160 \<le> (of_char r :: nat) \<and> (of_char r :: nat) \<noteq> 173)"

text \<open>\<open>string(r)\<close> encodes the rune in UTF-8.\<close>

definition rune_str :: "char \<Rightarrow> string" where
  "rune_str r =
     (let n = (of_char r :: nat) in
      if n < 128 then [r] else [char_of (192 + n div 64), char_of (128 + n mod 64)])"

definition quoted :: "string \<Rightarrow> string" where
  "quoted s = [CHR 0x22] @ s @ [CHR 0x22]"

text \<open>The global \<open>gErrorMsg\<close> and the function that writes it.\<close>

fun setErrorMsg :: "string \<Rightarrow> string option \<Rightarrow> string option" where
  "setErrorMsg msg None = Some msg"
| "setErrorMsg msg (Some old) = Some (msg @ '': '' @ old)"

record yyLex =
  expr :: string
  peek :: char

definition NewTimeSpecLexer :: "string \<Rightarrow> yyLex" where
  "NewTimeSpecLexer s = \<lparr>expr = s, peek = gEof\<rparr>"

definition yyLex_Error :: "string \<Rightarrow> string option \<Rightarrow> string option" where
  "yyLex_Error msg err = (if err = None then setErrorMsg msg err else err)"

definition nextRune :: "yyLex \<Rightarrow> char \<times> yyLex" where
  "nextRune self =
     (if peek self \<noteq> gEof then (peek self, self\<lparr>peek := gEof\<rparr>)
      else case expr self of
        [] \<Rightarrow> (gEof, self)
      | r # rest \<Rightarrow> (r, self\<lparr>expr := rest\<rparr>))"

datatype token = TComma | TDash | TStar | TR | STAR_SLASH | TInt int | TEof

text \<open>What is left to read: the termination measure of the lexer's loops.\<close>

definition lex_size :: "yyLex \<Rightarrow> nat" where
  "lex_size self = length (expr self) + (if peek self \<noteq> gEof then 1 else 0)"

lemma nextRune_size: "fst (nextRune lx) \<noteq> gEof \<Longrightarrow> lex_size (snd (nextRune lx)) < lex_size lx"
  by (auto simp: nextRune_def lex_size_def split: if_splits list.splits)

lemma nextRune_size_eq: "nextRune lx = (r, lx') \<Longrightarrow> r \<noteq> gEof \<Longrightarrow> lex_size lx' < lex_size lx"
  using nextRune_size [of lx] by simp

text \<open>
  The loop \<open>ReadNums\<close>: the digits after the first one. It ends at a space, a punctuation
  mark or the end (pushed back); any other rune is an error.
\<close>

function readNums :: "string \<Rightarrow> yyLex \<Rightarrow> (string + string) \<times> yyLex" where
  "readNums digs lx =
     (let (r2, lx') = nextRune lx in
      if is_digit r2 then readNums (digs @ rune_str r2) lx'
      else if unicode_IsSpace r2 \<or> unicode_IsPunct r2 \<or> r2 = gEof
      then (Inr digs, lx'\<lparr>peek := r2\<rparr>)
      else (Inl (digs @ rune_str r2), lx'))"
  by pat_completeness auto
termination
proof (relation "measure (\<lambda>(digs, lx). lex_size lx)", goal_cases)
  case 1
  then show ?case by simp
next
  case (2 digs lx x r2 lx')
  then have "r2 \<noteq> gEof" by (auto simp: is_digit_def gEof_def)
  with 2 show ?case using nextRune_size_eq [of lx r2 lx'] by simp
qed

declare readNums.simps [simp del]

function Lex :: "yyLex \<Rightarrow> string option \<Rightarrow> token \<times> yyLex \<times> string option" where
  "Lex self err =
     (let (r, lx) = nextRune self in
      if r = CHR '','' then (TComma, lx, err)
      else if r = CHR ''-'' then (TDash, lx, err)
      else if r = CHR ''R'' then (TR, lx, err)
      else if r = CHR ''*'' then
        (let (r2, lx') = nextRune lx in
         if r2 = CHR ''/'' then (STAR_SLASH, lx', err) else (TStar, lx'\<lparr>peek := r2\<rparr>, err))
      else if is_digit r then
        (case readNums (rune_str r) lx of
           (Inl digs, lx') \<Rightarrow>
             (TEof, lx', setErrorMsg (''Invalid number: '' @ quoted digs) err)
         | (Inr digs, lx') \<Rightarrow>
             (case ParseInt digs of
                Ok number \<Rightarrow> (TInt number, lx', err)
              | _ \<Rightarrow> (TEof, lx', setErrorMsg (''Invalid number: '' @ quoted digs) err)))
      else if r = CHR '' '' \<or> r = CHR 0x09 then Lex lx err
      else if r = gEof then (TEof, lx, err)
      else (TEof, lx,
            setErrorMsg
              (if unicode_IsGraphic r then ''Unexpected char: '' @ quoted (rune_str r)
               else ''Unexpected char: '' @ nat_str (of_char r)) err))"
  by pat_completeness auto
termination
proof (relation "measure (\<lambda>(lx, err). lex_size lx)", goal_cases)
  case 1
  then show ?case by simp
next
  case (2 self err x r lx)
  then have "r \<noteq> gEof" by (auto simp: gEof_def)
  with 2 show ?case using nextRune_size_eq [of self r lx] by simp
qed

declare Lex.simps [simp del]

section \<open>Syntax trees and the parser\<close>

datatype SetExp = StepSetExp int | EnumSetExp "int list" | RangeSetExp int int | AnySetExp

datatype TimeSpecExp =
    OneValTimeSpecExp int
  | WildcardTimeSpecExp
  | SetTimeSpecExp SetExp
  | RandomTimeSpecExp SetExp

text \<open>
  A parser procedure returns its value with the look-ahead token, or the final error
  message. \<open>syntaxError\<close> is the automaton's error with no recovery, \<open>errorAction\<close> its error
  followed by an error production.
\<close>

type_synonym 'a parsed = "string + ('a \<times> token \<times> yyLex \<times> string option)"

definition message :: "string option \<Rightarrow> string" where
  "message err = (case err of None \<Rightarrow> '''' | Some m \<Rightarrow> m)"

definition syntaxError :: "string option \<Rightarrow> string + 'a" where
  "syntaxError err = Inl (message (yyLex_Error ''syntax error'' err))"

definition errorAction :: "string \<Rightarrow> string option \<Rightarrow> string + 'a" where
  "errorAction msg err = Inl (message (setErrorMsg msg (yyLex_Error ''syntax error'' err)))"

text \<open>A token other than the end takes at least one rune.\<close>

lemma readNums_size: "lex_size (snd (readNums digs lx)) \<le> lex_size lx"
proof (induction digs lx rule: readNums.induct)
  case (1 digs lx)
  obtain r2 lx' where n: "nextRune lx = (r2, lx')" by fastforce
  have pushed: "lex_size (lx'\<lparr>peek := r2\<rparr>) \<le> lex_size lx" "lex_size lx' \<le> lex_size lx"
    using n by (auto simp: nextRune_def lex_size_def gEof_def split: if_splits list.splits)
  show ?case
  proof (cases "is_digit r2")
    case True
    then have "lex_size (snd (readNums (digs @ rune_str r2) lx')) \<le> lex_size lx'"
      using 1 n by simp
    then show ?thesis using True n pushed by (subst readNums.simps) (simp add: order_trans)
  next
    case False
    then show ?thesis using n pushed by (subst readNums.simps) simp
  qed
qed

lemma Lex_size: "Lex lx err = (tok, lx', err') \<Longrightarrow> tok \<noteq> TEof \<Longrightarrow> lex_size lx' < lex_size lx"
proof (induction lx err arbitrary: tok lx' err' rule: Lex.induct)
  case (1 self err)
  obtain r lx where n: "nextRune self = (r, lx)" by fastforce
  have step: "lex_size lx < lex_size self" if "r \<noteq> gEof"
    using nextRune_size_eq [OF n that] .
  have pushed: "lex_size (lx2\<lparr>peek := r2\<rparr>) \<le> lex_size lx" "lex_size lx2 \<le> lex_size lx"
    if "nextRune lx = (r2, lx2)" for r2 lx2
    using that by (auto simp: nextRune_def lex_size_def gEof_def split: if_splits list.splits)
  have nums: "lex_size lx2 \<le> lex_size lx" if "readNums (rune_str r) lx = (res, lx2)" for res lx2
    using readNums_size [of "rune_str r" lx] that by simp
  have ne: "r \<noteq> gEof" using 1(2,3) n by (subst (asm) Lex.simps) (auto simp: gEof_def is_digit_def)
  note IH = "1.IH" [OF n [symmetric] refl]
  show ?case
  proof (cases "r = CHR '' '' \<or> r = CHR 0x09")
    case True
    then have d: "\<not> is_digit r" by (auto simp: is_digit_def)
    then have "Lex lx err = (tok, lx', err')"
      using 1(2) n True by (subst (asm) Lex.simps) auto
    then have "lex_size lx' < lex_size lx"
      using IH [of tok lx' err'] True d "1.prems"(2) by auto
    then show ?thesis using step [OF ne] by simp
  next
    case False
    then have "lex_size lx' \<le> lex_size lx"
      using 1(2,3) n False pushed nums
      by (subst (asm) Lex.simps) (fastforce split: if_splits prod.splits sum.splits outcome.splits)
    then show ?thesis using step [OF ne] by simp
  qed
qed

text \<open>\<open>enum_set_exp_tail\<close>, entered when its comma has been read.\<close>

function enum_set_exp_tail :: "yyLex \<Rightarrow> string option \<Rightarrow> int list parsed" where
  "enum_set_exp_tail lx err =
     (case Lex lx err of
        (TInt n, lx1, err1) \<Rightarrow>
          (case Lex lx1 err1 of
             (TComma, lx2, err2) \<Rightarrow>
               (case enum_set_exp_tail lx2 err2 of
                  Inl m \<Rightarrow> Inl m
                | Inr (ints, la) \<Rightarrow> Inr (n # ints, la))
           | (la, lx2, err2) \<Rightarrow> Inr ([n], la, lx2, err2))
      | (_, lx1, err1) \<Rightarrow> errorAction (''Expected int after '' @ quoted '','') err1)"
  by pat_completeness auto
termination
proof (relation "measure (\<lambda>(lx, err). lex_size lx)", goal_cases)
  case 1
  then show ?case by simp
next
  case (2 lx err x1 n y lx1 err1 x2 y2 lx2 err2)
  then have "lex_size lx2 < lex_size lx1" "lex_size lx1 < lex_size lx"
    using Lex_size by (metis prod.collapse fst_conv snd_conv token.distinct)+
  then show ?case by simp
qed

declare enum_set_exp_tail.simps [simp del]

text \<open>
  What follows an \<open>INT\<close>: a comma and an enumeration, a dash and the end of a range, or
  neither (\<^term>\<open>None\<close>).
\<close>

definition after_int :: "int \<Rightarrow> yyLex \<Rightarrow> string option \<Rightarrow> SetExp option parsed" where
  "after_int n lx err =
     (case Lex lx err of
        (TComma, lx1, err1) \<Rightarrow>
          (case enum_set_exp_tail lx1 err1 of
             Inl m \<Rightarrow> Inl m
           | Inr (ints, la) \<Rightarrow> Inr (Some (EnumSetExp (n # ints)), la))
      | (TDash, lx1, err1) \<Rightarrow>
          (case Lex lx1 err1 of
             (TInt k, lx2, err2) \<Rightarrow> Inr (Some (RangeSetExp n k), Lex lx2 err2)
           | (_, lx2, err2) \<Rightarrow> errorAction (''Expected int after '' @ quoted ''-'') err2)
      | la \<Rightarrow> Inr (None, la))"

definition step_set_exp :: "yyLex \<Rightarrow> string option \<Rightarrow> SetExp parsed" where
  "step_set_exp lx err =
     (case Lex lx err of
        (TInt k, lx1, err1) \<Rightarrow> Inr (StepSetExp k, Lex lx1 err1)
      | (_, lx1, err1) \<Rightarrow> errorAction (''Expected int after '' @ quoted ''*/'') err1)"

text \<open>The automaton accepts a phrase when the look-ahead is the end of the input.\<close>

definition accept :: "'a \<Rightarrow> token \<times> yyLex \<times> string option \<Rightarrow> string + 'a" where
  "accept e la = (case la of (tok, lx, err) \<Rightarrow> if tok = TEof then Inr e else syntaxError err)"

definition rand_time_spec_exp :: "yyLex \<Rightarrow> string option \<Rightarrow> string + TimeSpecExp" where
  "rand_time_spec_exp lx err =
     (case Lex lx err of
        (TInt n, lx1, err1) \<Rightarrow>
          (case after_int n lx1 err1 of
             Inl m \<Rightarrow> Inl m
           | Inr (Some e, la) \<Rightarrow> accept (RandomTimeSpecExp e) la
           | Inr (None, tok, lx2, err2) \<Rightarrow> syntaxError err2)
      | (STAR_SLASH, lx1, err1) \<Rightarrow>
          (case step_set_exp lx1 err1 of
             Inl m \<Rightarrow> Inl m
           | Inr (e, la) \<Rightarrow> accept (RandomTimeSpecExp e) la)
      | la \<Rightarrow> accept (RandomTimeSpecExp AnySetExp) la)"

definition yyParse :: "yyLex \<Rightarrow> string option \<Rightarrow> string + TimeSpecExp" where
  "yyParse lx err =
     (case Lex lx err of
        (TInt n, lx1, err1) \<Rightarrow>
          (case after_int n lx1 err1 of
             Inl m \<Rightarrow> Inl m
           | Inr (Some e, la) \<Rightarrow> accept (SetTimeSpecExp e) la
           | Inr (None, la) \<Rightarrow> accept (OneValTimeSpecExp n) la)
      | (STAR_SLASH, lx1, err1) \<Rightarrow>
          (case step_set_exp lx1 err1 of
             Inl m \<Rightarrow> Inl m
           | Inr (e, la) \<Rightarrow> accept (SetTimeSpecExp e) la)
      | (TStar, lx1, err1) \<Rightarrow> accept WildcardTimeSpecExp (Lex lx1 err1)
      | (TR, lx1, err1) \<Rightarrow> rand_time_spec_exp lx1 err1
      | (_, lx1, err1) \<Rightarrow> syntaxError err1)"

section \<open>Evaluation\<close>

text \<open>A Go \<open>int\<close> sum wraps at 64 bits.\<close>

definition int64 :: "int \<Rightarrow> int" where
  "int64 x = (x + 2 ^ 63) mod 2 ^ 64 - 2 ^ 63"

partial_function (option) step_loop :: "int \<Rightarrow> int \<Rightarrow> int \<Rightarrow> int list \<Rightarrow> int list option" where
  [code]: "step_loop v step hi vals =
     (if v \<le> hi then step_loop (int64 (v + step)) step hi (vals @ [v]) else Some vals)"

fun uniq_loop :: "int list \<Rightarrow> int list \<Rightarrow> int list" where
  "uniq_loop uniqInts [] = uniqInts"
| "uniq_loop uniqInts (v # vs) =
     (if v \<in> set uniqInts then uniq_loop uniqInts vs else uniq_loop (uniqInts @ [v]) vs)"

definition normValues :: "int list \<Rightarrow> int list" where
  "normValues ints = uniq_loop [] (sort ints)"

fun SetExp_String :: "SetExp \<Rightarrow> string" where
  "SetExp_String (StepSetExp step) = ''*/'' @ Itoa step"
| "SetExp_String (EnumSetExp ints) = Join (map Itoa (normValues ints)) '',''"
| "SetExp_String (RangeSetExp start end) = Itoa start @ ''-'' @ Itoa end"
| "SetExp_String AnySetExp = []"

definition errPrefix :: "string \<Rightarrow> string" where
  "errPrefix fieldName = ''Invalid '' @ quoted fieldName @ '' value''"

fun enum_check :: "string \<Rightarrow> int \<Rightarrow> int \<Rightarrow> int list \<Rightarrow> error option" where
  "enum_check fieldName lo hi [] = None"
| "enum_check fieldName lo hi (v # vs) =
     (if v < lo then Some (Error (errPrefix fieldName @
        '': Values must be greater than or equal to '' @ Itoa lo) None)
      else if v > hi then Some (Error (errPrefix fieldName @
        '': Values must be less than or equal to '' @ Itoa hi) None)
      else enum_check fieldName lo hi vs)"

fun SetExp_Eval :: "SetExp \<Rightarrow> string \<Rightarrow> int \<Rightarrow> int \<Rightarrow> int list outcome option" where
  "SetExp_Eval (StepSetExp step) fieldName lo hi = map_option Ok (step_loop lo step hi [])"
| "SetExp_Eval (EnumSetExp ints) fieldName lo hi =
     (case enum_check fieldName lo hi ints of
        Some e \<Rightarrow> Some (Fail e)
      | None \<Rightarrow> Some (Ok (normValues ints)))"
| "SetExp_Eval (RangeSetExp start end) fieldName lo hi =
     (if start < lo then Some (Fail (Error (errPrefix fieldName @
        '': Values must be greater than or equal to '' @ Itoa lo) None))
      else if end > hi then Some (Fail (Error (errPrefix fieldName @
        '': Values must be less than or equal to '' @ Itoa hi) None))
      else if start > end then Some (Fail (Error (errPrefix fieldName @
        '': start must be less than or equal to end'') None))
      else Some (Ok [start..end]))"
| "SetExp_Eval AnySetExp fieldName lo hi = Some (Ok [lo..hi])"

fun TimeSpecExp_Eval :: "TimeSpecExp \<Rightarrow> string \<Rightarrow> int \<Rightarrow> int \<Rightarrow> TimeSpec outcome option" where
  "TimeSpecExp_Eval (OneValTimeSpecExp val) fieldName lo hi =
     (let errMsg = ''Invalid '' @ [CHR 0x27] @ fieldName @ [CHR 0x27] @ '' value'' in
      if val < lo then Some (Fail (Error (errMsg @ '': cannot be less than '' @ Itoa lo @ ''.'') None))
      else if val > hi
      then Some (Fail (Error (errMsg @ '': cannot be greater than '' @ Itoa hi @ ''.'') None))
      else Some (Ok (OneValTimeSpec val)))"
| "TimeSpecExp_Eval WildcardTimeSpecExp fieldName lo hi = Some (Ok WildcardTimeSpec)"
| "TimeSpecExp_Eval (SetTimeSpecExp setExp) fieldName lo hi =
     map_option (\<lambda>r. bind_outcome r (\<lambda>vals. Ok (SetTimeSpec (SetExp_String setExp) vals)))
       (SetExp_Eval setExp fieldName lo hi)"
| "TimeSpecExp_Eval (RandomTimeSpecExp setExp) fieldName lo hi =
     map_option (\<lambda>r. bind_outcome r (\<lambda>vals.
         Ok (RandomTimeSpec (''R'' @ SetExp_String setExp) vals None)))
       (SetExp_Eval setExp fieldName lo hi)"

definition parseTimeSpec :: "string \<Rightarrow> string \<Rightarrow> int \<Rightarrow> int \<Rightarrow> TimeSpec outcome option" where
  "parseTimeSpec s fieldName lo hi =
     (case yyParse (NewTimeSpecLexer s) None of
        Inl msg \<Rightarrow> Some (Fail (Error
          (''Cannot parse time spec for '' @ quoted fieldName @ '': '' @ msg) None))
      | Inr phrase \<Rightarrow> TimeSpecExp_Eval phrase fieldName lo hi)"

section \<open>The whole schedule\<close>

definition bind_returning ::
    "'a outcome option \<Rightarrow> ('a \<Rightarrow> 'b outcome option) \<Rightarrow> 'b outcome option" where
  "bind_returning r f =
     (case r of
        None \<Rightarrow> None
      | Some (Ok x) \<Rightarrow> f x
      | Some (Fail e) \<Rightarrow> Some (Fail e)
      | Some (Panic p) \<Rightarrow> Some (Panic p))"

definition timePart ::
    "string list \<Rightarrow> nat \<Rightarrow> string \<Rightarrow> int \<Rightarrow> int \<Rightarrow> TimeSpec outcome option" where
  "timePart timeParts i fieldName lo hi =
     (if length timeParts > i then parseTimeSpec (timeParts ! i) fieldName lo hi
      else Some (Ok WildcardTimeSpec))"

definition ParseFullTimeSpec :: "string \<Rightarrow> FullTimeSpec outcome option" where
  "ParseFullTimeSpec s =
     (let timeParts = Fields s in
      bind_returning (timePart timeParts 0 ''sec'' 0 59) (\<lambda>sec.
      bind_returning (timePart timeParts 1 ''minute'' 0 59) (\<lambda>mins.
      bind_returning (timePart timeParts 2 ''hour'' 0 23) (\<lambda>hour.
      bind_returning (timePart timeParts 3 ''month day'' 1 31) (\<lambda>mday.
      bind_returning (timePart timeParts 4 ''month'' 1 12) (\<lambda>mon.
      bind_returning (timePart timeParts 5 ''weekday'' 0 6) (\<lambda>wday.
        if length timeParts > 6
        then Some (Fail (Error (''Excess elements in '' @ [CHR 0x27] @ ''time'' @ [CHR 0x27] @ '' field.'') None))
        else Some (Ok \<lparr>SecSpec = sec, MinSpec = mins, HourSpec = hour, MdaySpec = mday,
                       MonSpec = mon, WdaySpec = wday\<rparr>))))))))"

section \<open>Lemmas on evaluation\<close>

lemma uniq_loop_set: "set (uniq_loop acc vs) = set acc \<union> set vs"
  by (induction acc vs rule: uniq_loop.induct) auto

lemma uniq_loop_sorted:
  "sorted (acc @ vs) \<Longrightarrow> distinct acc \<Longrightarrow> sorted (uniq_loop acc vs) \<and> distinct (uniq_loop acc vs)"
proof (induction acc vs rule: uniq_loop.induct)
  case (1 uniqInts)
  then show ?case by simp
next
  case (2 uniqInts v vs)
  have "sorted (uniqInts @ vs)" using "2.prems"(1) by (auto simp: sorted_append)
  then show ?case using 2 by auto
qed

lemma normValues_eq: "normValues ints = sorted_list_of_set (set ints)"
proof (rule sorted_distinct_set_unique)
  show "sorted (normValues ints)" "distinct (normValues ints)"
    using uniq_loop_sorted [of "[]" "sort ints"] by (simp_all add: normValues_def)
  show "set (normValues ints) = set (sorted_list_of_set (set ints))"
    by (simp add: normValues_def uniq_loop_set)
qed simp_all

lemma normValues_set [simp]: "set (normValues ints) = set ints"
  by (simp add: normValues_eq)

lemma normValues_idem [simp]: "normValues (normValues ints) = normValues ints"
  by (simp add: normValues_eq)

lemma int64_id: "- (2 ^ 63) \<le> x \<Longrightarrow> x < 2 ^ 63 \<Longrightarrow> int64 x = x"
  by (simp add: int64_def)

text \<open>A positive step that cannot overflow gives the multiples of the step, from the least value.\<close>

lemma filter_step:
  assumes "(0::int) < k" "v \<le> hi"
  shows "filter (\<lambda>x. k dvd (x - v)) [v..hi] = v # filter (\<lambda>x. k dvd (x - (v + k))) [v + k..hi]"
proof -
  have shift: "k dvd (x - (v + k)) \<longleftrightarrow> k dvd (x - v)" for x
  proof -
    have "x - v = (x - (v + k)) + k" by simp
    then show ?thesis by (metis dvd_add_left_iff dvd_refl)
  qed
  have gap: "\<not> k dvd (x - v)" if "v < x" "x < v + k" for x
    using that zdvd_not_zless [of "x - v" k] by simp
  have "filter (\<lambda>x. k dvd (x - v)) [v + 1..hi] = filter (\<lambda>x. k dvd (x - v)) [v + k..hi]"
  proof (cases "v + k \<le> hi")
    case True
    then have "[v + 1..hi] = [v + 1..v + k - 1] @ [v + k..hi]"
      using assms upto_split1 [of "v + 1" "v + k" hi] by simp
    moreover have "filter (\<lambda>x. k dvd (x - v)) [v + 1..v + k - 1] = []"
      using gap by (auto simp: filter_empty_conv)
    ultimately show ?thesis by simp
  next
    case False
    then have "filter (\<lambda>x. k dvd (x - v)) [v + 1..hi] = []"
      using gap by (auto simp: filter_empty_conv)
    then show ?thesis using False by simp
  qed
  then show ?thesis using assms(2) shift by (simp add: upto_rec1)
qed

lemma step_loop_eq:
  assumes "0 < k" "hi + k < 2 ^ 63" "- (2 ^ 63) \<le> v"
  shows "step_loop v k hi acc = Some (acc @ filter (\<lambda>x. k dvd (x - v)) [v..hi])"
  using assms(3)
proof (induction "nat (hi + 1 - v)" arbitrary: v acc rule: less_induct)
  case less
  show ?case
  proof (cases "v \<le> hi")
    case False
    then show ?thesis by (simp add: step_loop.simps)
  next
    case True
    then have w: "int64 (v + k) = v + k" using less.prems assms by (simp add: int64_id)
    have "step_loop v k hi acc = step_loop (v + k) k hi (acc @ [v])"
      using True w by (subst step_loop.simps) simp
    also have "\<dots> = Some ((acc @ [v]) @ filter (\<lambda>x. k dvd (x - (v + k))) [v + k..hi])"
      using less.hyps [of "v + k" "acc @ [v]"] True less.prems assms by auto
    finally show ?thesis using filter_step [OF assms(1) True] by simp
  qed
qed

text \<open>A step of zero is never finished.\<close>

lemma step_loop_zero: "v \<le> hi \<Longrightarrow> - (2 ^ 63) \<le> v \<Longrightarrow> v < 2 ^ 63 \<Longrightarrow> step_loop v 0 hi acc = None"
proof (rule ccontr)
  assume v: "v \<le> hi" "- (2 ^ 63) \<le> v" "v < 2 ^ 63" and "step_loop v 0 hi acc \<noteq> None"
  then obtain r where r: "step_loop v 0 hi acc = Some r" by blast
  have "\<not> (0 = (0::int) \<and> v \<le> hi \<and> int64 v = v)"
  proof (rule step_loop.raw_induct [where P = "\<lambda>v k hi acc r. \<not> (k = 0 \<and> v \<le> hi \<and> int64 v = v)", OF _ r])
    fix f v k hi acc r
    assume IH: "\<And>v k hi acc r. f v k hi acc = Some r \<Longrightarrow> \<not> (k = 0 \<and> v \<le> hi \<and> int64 v = v)"
      and eq: "(if v \<le> hi then f (int64 (v + k)) k hi (acc @ [v]) else Some acc) = Some r"
    show "\<not> (k = (0::int) \<and> v \<le> hi \<and> int64 v = v)"
      using IH [of "int64 (v + k)" k hi "acc @ [v]" r] eq by auto
  qed
  then show False using v by (simp add: int64_id)
qed

lemma enum_check_None: "enum_check f lo hi vs = None \<longleftrightarrow> (\<forall>v \<in> set vs. lo \<le> v \<and> v \<le> hi)"
  by (induction vs) auto

section \<open>Lemmas on the lexer\<close>

abbreviation at :: "string \<Rightarrow> yyLex" where
  "at s \<equiv> \<lparr>expr = s, peek = gEof\<rparr>"

lemma nextRune_at [simp]:
  "nextRune (at []) = (gEof, at [])" "nextRune (at (c # s)) = (c, at s)"
  by (simp_all add: nextRune_def)

lemma nextRune_peek [simp]: "p \<noteq> gEof \<Longrightarrow> nextRune \<lparr>expr = s, peek = p\<rparr> = (p, at s)"
  by (simp add: nextRune_def)

text \<open>A rune that was pushed back is read as if it had not been taken.\<close>

lemma Lex_pushed: "p \<noteq> gEof \<Longrightarrow> Lex \<lparr>expr = s, peek = p\<rparr> err = Lex (at (p # s)) err"
  by (subst (1 2) Lex.simps) simp

lemma digit_rune [simp]: "is_digit c \<Longrightarrow> rune_str c = [c]" "is_digit c \<Longrightarrow> c \<noteq> gEof"
  by (auto simp: is_digit_def rune_str_def gEof_def Let_def)

lemma readNums_all: "list_all is_digit ds \<Longrightarrow> readNums acc (at ds) = (Inr (acc @ ds), at [])"
proof (induction ds arbitrary: acc)
  case Nil
  have "\<not> is_digit gEof" by (simp add: is_digit_def gEof_def)
  then show ?case by (subst readNums.simps) simp
next
  case (Cons d ds)
  then show ?case by (subst readNums.simps) simp
qed

lemma readNums_until:
  "list_all is_digit ds \<Longrightarrow> \<not> is_digit c \<Longrightarrow> unicode_IsPunct c \<Longrightarrow>
   readNums acc (at (ds @ c # s)) = (Inr (acc @ ds), \<lparr>expr = s, peek = c\<rparr>)"
proof (induction ds arbitrary: acc)
  case Nil
  then show ?case by (subst readNums.simps) simp
next
  case (Cons d ds)
  then show ?case by (subst readNums.simps) simp
qed

lemma nat_str_Cons: "\<exists>d ds. nat_str n = d # ds \<and> is_digit d \<and> list_all is_digit ds"
  using nat_str_digits [of n] nat_str_ne [of n] by (cases "nat_str n") auto

lemma digit_tests: "is_digit d \<Longrightarrow> d \<noteq> CHR '','' \<and> d \<noteq> CHR ''-'' \<and> d \<noteq> CHR ''R'' \<and> d \<noteq> CHR ''*''"
  using digit_not by blast

lemma Lex_nat:
  assumes "int n < 2 ^ 63"
  shows "Lex (at (nat_str n)) err = (TInt (int n), at [], err)"
    and "\<not> is_digit c \<Longrightarrow> unicode_IsPunct c \<Longrightarrow>
      Lex (at (nat_str n @ c # s)) err = (TInt (int n), \<lparr>expr = s, peek = c\<rparr>, err)"
proof -
  obtain d ds where n: "nat_str n = d # ds" "is_digit d" "list_all is_digit ds"
    using nat_str_Cons by blast
  have p: "ParseInt (d # ds) = Ok (int n)" using ParseInt_nat_str [OF assms] n by simp
  show "Lex (at (nat_str n)) err = (TInt (int n), at [], err)"
    using n p digit_tests [OF n(2)] by (subst Lex.simps) (simp add: readNums_all)
  show "Lex (at (nat_str n @ c # s)) err = (TInt (int n), \<lparr>expr = s, peek = c\<rparr>, err)"
    if "\<not> is_digit c" "unicode_IsPunct c"
    using n p digit_tests [OF n(2)] that by (subst Lex.simps) (simp add: readNums_until)
qed

lemma gEof_tests [simp]:
  "gEof \<noteq> CHR '',''" "gEof \<noteq> CHR ''-''" "gEof \<noteq> CHR ''R''" "gEof \<noteq> CHR ''*''"
  "gEof \<noteq> CHR ''/''" "gEof \<noteq> CHR '' ''" "gEof \<noteq> CHR 0x09" "\<not> is_digit gEof"
  by (simp_all add: gEof_def is_digit_def)

lemma Lex_end [simp]: "Lex (at []) err = (TEof, at [], err)"
  by (subst Lex.simps) simp

lemma Lex_marks [simp]:
  "Lex (at (CHR '','' # s)) err = (TComma, at s, err)"
  "Lex (at (CHR ''-'' # s)) err = (TDash, at s, err)"
  "Lex (at (CHR ''R'' # s)) err = (TR, at s, err)"
  "Lex (at (CHR ''*'' # CHR ''/'' # s)) err = (STAR_SLASH, at s, err)"
  "Lex (at (CHR ''*'' # [])) err = (TStar, at [], err)"
  by (subst Lex.simps, simp)+

lemma marks [simp]:
  "\<not> is_digit CHR '',''" "\<not> is_digit CHR ''-''"
  "unicode_IsPunct CHR '',''" "unicode_IsPunct CHR ''-''" "CHR '','' \<noteq> gEof" "CHR ''-'' \<noteq> gEof"
  by (simp_all add: is_digit_def unicode_IsPunct_def gEof_def)

text \<open>The values a numeral of the lexer can have.\<close>

definition lexable :: "int \<Rightarrow> bool" where
  "lexable i \<longleftrightarrow> 0 \<le> i \<and> i < 2 ^ 63"

lemma Lex_Itoa:
  assumes "lexable i"
  shows "Lex (at (Itoa i)) err = (TInt i, at [], err)"
    and "\<not> is_digit c \<Longrightarrow> unicode_IsPunct c \<Longrightarrow>
      Lex (at (Itoa i @ c # s)) err = (TInt i, \<lparr>expr = s, peek = c\<rparr>, err)"
  using assms Lex_nat [of "nat i"] by (simp_all add: lexable_def Itoa_def)

lemma enum_tail_print:
  "ns \<noteq> [] \<Longrightarrow> \<forall>n \<in> set ns. lexable n \<Longrightarrow>
   enum_set_exp_tail (at (Join (map Itoa ns) '','')) err = Inr (ns, TEof, at [], err)"
proof (induction ns rule: induct_list012)
  case 1
  then show ?case by simp
next
  case (2 n)
  then show ?case by (subst enum_set_exp_tail.simps) (simp add: Lex_Itoa)
next
  case (3 n m ns)
  then show ?case by (subst enum_set_exp_tail.simps) (simp add: Lex_Itoa Lex_pushed)
qed

lemma Lex_TInt_lexable: "Lex lx err = (TInt n, lx', err') \<Longrightarrow> lexable n"
proof (induction lx err arbitrary: lx' err' rule: Lex.induct)
  case (1 self err)
  obtain r lx where n: "nextRune self = (r, lx)" by fastforce
  have digs: "ds \<noteq> [] \<and> list_all is_digit ds \<Longrightarrow> ParseInt ds = Ok k \<Longrightarrow> lexable k" for ds k
    using digit_not by (auto simp: ParseInt_def lexable_def Let_def neq_Nil_conv split: if_splits)
  have reads: "acc \<noteq> [] \<and> list_all is_digit acc \<Longrightarrow> readNums acc lx0 = (Inr ds, lx1) \<Longrightarrow>
      ds \<noteq> [] \<and> list_all is_digit ds" for acc lx0 ds lx1
  proof (induction acc lx0 arbitrary: ds lx1 rule: readNums.induct)
    case (1 acc lx0)
    obtain r2 lx2 where n2: "nextRune lx0 = (r2, lx2)" by fastforce
    show ?case
    proof (cases "is_digit r2")
      case True
      then have "readNums (acc @ [r2]) lx2 = (Inr ds, lx1)"
        using "1.prems"(2) n2 readNums.simps [of acc lx0] by simp
      then show ?thesis using "1.IH" [OF n2 [symmetric] refl True, of ds lx1] True "1.prems"(1) by simp
    next
      case False
      then show ?thesis
        using "1.prems" n2 readNums.simps [of acc lx0] by (auto split: if_splits)
    qed
  qed
  show ?case
  proof (cases "is_digit r")
    case True
    then show ?thesis
      using "1.prems" n digs reads [of "[r]" lx] digit_tests [OF True]
      by (subst (asm) Lex.simps) (auto split: prod.splits sum.splits outcome.splits)
  next
    case False
    then show ?thesis
      using "1.prems" n "1.IH" [OF n [symmetric] refl] False
      by (subst (asm) Lex.simps) (auto split: prod.splits if_splits)
  qed
qed

section \<open>Properties\<close>

text \<open>The text of a phrase, as the specification made from it prints itself.\<close>

fun print_exp :: "TimeSpecExp \<Rightarrow> string" where
  "print_exp (OneValTimeSpecExp n) = Itoa n"
| "print_exp WildcardTimeSpecExp = ''*''"
| "print_exp (SetTimeSpecExp e) = SetExp_String e"
| "print_exp (RandomTimeSpecExp e) = ''R'' @ SetExp_String e"

fun printable_set :: "SetExp \<Rightarrow> bool" where
  "printable_set (StepSetExp k) \<longleftrightarrow> lexable k"
| "printable_set (EnumSetExp ints) \<longleftrightarrow> (\<forall>n \<in> set ints. lexable n) \<and> 2 \<le> length (normValues ints)"
| "printable_set (RangeSetExp a b) \<longleftrightarrow> lexable a \<and> lexable b"
| "printable_set AnySetExp \<longleftrightarrow> False"

fun printable :: "TimeSpecExp \<Rightarrow> bool" where
  "printable (OneValTimeSpecExp n) \<longleftrightarrow> lexable n"
| "printable WildcardTimeSpecExp \<longleftrightarrow> True"
| "printable (SetTimeSpecExp e) \<longleftrightarrow> printable_set e"
| "printable (RandomTimeSpecExp e) \<longleftrightarrow> e = AnySetExp \<or> printable_set e"

fun norm_set :: "SetExp \<Rightarrow> SetExp" where
  "norm_set (EnumSetExp ints) = EnumSetExp (normValues ints)"
| "norm_set e = e"

fun norm_exp :: "TimeSpecExp \<Rightarrow> TimeSpecExp" where
  "norm_exp (SetTimeSpecExp e) = SetTimeSpecExp (norm_set e)"
| "norm_exp (RandomTimeSpecExp e) = RandomTimeSpecExp (norm_set e)"
| "norm_exp e = e"

lemma parse_print_int:
  assumes "printable_set e" "\<And>k. e \<noteq> StepSetExp k"
  shows "\<exists>n lx1 la lx2. Lex (at (SetExp_String e)) None = (TInt n, lx1, None) \<and>
    after_int n lx1 None = Inr (Some (norm_set e), TEof, lx2, None)"
proof (cases e)
  case (EnumSetExp ints)
  obtain a b ns where ns: "normValues ints = a # b # ns"
    using assms(1) EnumSetExp by (cases "normValues ints" rule: remdups_adj.cases) auto
  have "\<forall>n \<in> set (normValues ints). lexable n" using assms(1) EnumSetExp by simp
  then have "lexable a" "\<forall>n \<in> set (b # ns). lexable n" using ns by simp_all
  then show ?thesis
    using enum_tail_print [of "b # ns" None] EnumSetExp ns
    by (auto simp: Lex_Itoa Lex_pushed after_int_def)
next
  case (RangeSetExp a b)
  then show ?thesis using assms by (auto simp: Lex_Itoa Lex_pushed after_int_def)
qed (use assms in auto)

text \<open>
  C7. Printing and parsing: the parser reads back the text of every phrase, and gives the
  phrase itself with an enumeration in its normal (sorted, duplicate-free) form. An
  enumeration needs two different values, since one value alone prints as an ordinary
  number.
\<close>

theorem yyParse_print_exp:
  assumes "printable e"
  shows "yyParse (NewTimeSpecLexer (print_exp e)) None = Inr (norm_exp e)"
proof (cases e)
  case (OneValTimeSpecExp n)
  then show ?thesis
    using assms by (simp add: NewTimeSpecLexer_def yyParse_def Lex_Itoa after_int_def accept_def)
next
  case WildcardTimeSpecExp
  then show ?thesis by (simp add: NewTimeSpecLexer_def yyParse_def accept_def)
next
  case (SetTimeSpecExp s)
  show ?thesis
  proof (cases "\<exists>k. s = StepSetExp k")
    case True
    then show ?thesis using assms SetTimeSpecExp
      by (auto simp: NewTimeSpecLexer_def yyParse_def step_set_exp_def Lex_Itoa accept_def)
  next
    case False
    then show ?thesis using assms SetTimeSpecExp parse_print_int [of s]
      by (auto simp: NewTimeSpecLexer_def yyParse_def accept_def)
  qed
next
  case (RandomTimeSpecExp s)
  show ?thesis
  proof (cases "s = AnySetExp \<or> (\<exists>k. s = StepSetExp k)")
    case True
    then show ?thesis using assms RandomTimeSpecExp
      by (auto simp: NewTimeSpecLexer_def yyParse_def rand_time_spec_exp_def step_set_exp_def
          Lex_Itoa accept_def)
  next
    case False
    then show ?thesis using assms RandomTimeSpecExp parse_print_int [of s]
      by (auto simp: NewTimeSpecLexer_def yyParse_def rand_time_spec_exp_def accept_def)
  qed
qed

theorem yyParse_print_exp_witness:
  "printable (RandomTimeSpecExp (EnumSetExp [30, 10, 30])) \<and>
   yyParse (NewTimeSpecLexer ''R10,30'') None = Inr (RandomTimeSpecExp (EnumSetExp [10, 30]))"
proof -
  have p: "printable (RandomTimeSpecExp (EnumSetExp [30, 10, 30]))"
    by (simp add: normValues_def lexable_def)
  have "print_exp (RandomTimeSpecExp (EnumSetExp [30, 10, 30])) = ''R10,30''" by code_simp
  moreover have "norm_exp (RandomTimeSpecExp (EnumSetExp [30, 10, 30])) =
      RandomTimeSpecExp (EnumSetExp [10, 30])" by code_simp
  ultimately show ?thesis using p yyParse_print_exp [OF p] by simp
qed

text \<open>
  The values of a parsed field lie in the field's range, with one exception: the greatest step
  that the lexer reads, in a field that begins at 1, makes the counter of the loop wrap.
\<close>

definition wrapped :: "int \<Rightarrow> string \<Rightarrow> int list \<Rightarrow> bool" where
  "wrapped lo desc vals \<longleftrightarrow>
     lo = 1 \<and> (desc = ''*/9223372036854775807'' \<or> desc = ''R*/9223372036854775807'') \<and>
     vals = [1, - 9223372036854775808, - 1]"

fun field_ok :: "int \<Rightarrow> int \<Rightarrow> TimeSpec \<Rightarrow> bool" where
  "field_ok lo hi WildcardTimeSpec \<longleftrightarrow> True"
| "field_ok lo hi (OneValTimeSpec v) \<longleftrightarrow> lo \<le> v \<and> v \<le> hi"
| "field_ok lo hi (SetTimeSpec desc vals) \<longleftrightarrow>
     vals \<noteq> [] \<and> ((\<forall>v \<in> set vals. lo \<le> v \<and> v \<le> hi) \<or> wrapped lo desc vals)"
| "field_ok lo hi (RandomTimeSpec desc vals p) \<longleftrightarrow>
     vals \<noteq> [] \<and> ((\<forall>v \<in> set vals. lo \<le> v \<and> v \<le> hi) \<or> wrapped lo desc vals) \<and> p = None"

lemma step_loop_wraps:
  assumes "1 \<le> hi" "hi < 100"
  shows "step_loop 1 (2 ^ 63 - 1) hi [] = Some [1, - 9223372036854775808, - 1]"
proof -
  have "int64 (1 + (2 ^ 63 - 1)) = - 9223372036854775808" "int64 (- 9223372036854775808 + (2 ^ 63 - 1)) = - 1"
    "int64 (- 1 + (2 ^ 63 - 1)) = 9223372036854775806"
    by (simp_all add: int64_def)
  then show ?thesis using assms by (simp add: step_loop.simps)
qed

lemma step_values:
  assumes "step_loop lo k hi [] = Some vals" "lo \<le> hi" "lo = 0 \<or> lo = 1" "hi < 100" "lexable k"
  shows "vals \<noteq> [] \<and> ((\<forall>v \<in> set vals. lo \<le> v \<and> v \<le> hi) \<or>
    lo = 1 \<and> k = 2 ^ 63 - 1 \<and> vals = [1, - 9223372036854775808, - 1])"
proof -
  have k: "0 \<le> k" "k < 2 ^ 63" using assms(5) by (auto simp: lexable_def)
  have "k \<noteq> 0" using assms step_loop_zero [of lo hi "[]"] by auto
  consider "hi + k < 2 ^ 63" | "2 ^ 63 \<le> hi + k" "lo + k < 2 ^ 63" | "2 ^ 63 \<le> lo + k" by linarith
  then show ?thesis
  proof cases
    case 1
    then have "vals = filter (\<lambda>x. k dvd (x - lo)) [lo..hi]"
      using step_loop_eq [of k hi lo "[]"] k \<open>k \<noteq> 0\<close> assms by auto
    then have "set vals = {x. lo \<le> x \<and> x \<le> hi \<and> k dvd (x - lo)}" by auto
    moreover have "lo \<in> {x. lo \<le> x \<and> x \<le> hi \<and> k dvd (x - lo)}" using assms(2) by simp
    ultimately show ?thesis by (metis (no_types, lifting) empty_set ex_in_conv mem_Collect_eq)
  next
    case 2
    then have "int64 (lo + k) = lo + k" "hi < lo + k" using assms k by (auto simp: int64_id)
    then show ?thesis using assms(1,2) by (auto simp: step_loop.simps)
  next
    case 3
    then have "lo = 1" "k = 2 ^ 63 - 1" using k assms(3) by auto
    then show ?thesis using assms step_loop_wraps [of hi] by auto
  qed
qed

text \<open>This is what the parser makes of such a field.\<close>

lemma Itoa_greatest: "Itoa (2 ^ 63 - 1) = ''9223372036854775807''"
  by (simp add: Itoa_def nat_str.simps digit_char_def char_of_def bit_0)

lemma greatest_step: "SetExp_String (StepSetExp (2 ^ 63 - 1)) = ''*/9223372036854775807''"
  unfolding SetExp_String.simps Itoa_greatest by simp

lemma overflowing_step_accepted:
  assumes "1 \<le> hi" "hi < 100"
  shows "parseTimeSpec ''*/9223372036854775807'' f 1 hi =
    Some (Ok (SetTimeSpec ''*/9223372036854775807'' [1, - 9223372036854775808, - 1]))"
proof -
  have p: "yyParse (NewTimeSpecLexer (SetExp_String (StepSetExp k))) None = Inr (SetTimeSpecExp (StepSetExp k))"
    if "lexable k" for k
    using that by (simp add: NewTimeSpecLexer_def yyParse_def step_set_exp_def Lex_Itoa accept_def)
  have "lexable (2 ^ 63 - 1)" by (simp add: lexable_def)
  from p [OF this] show ?thesis
    unfolding parseTimeSpec_def greatest_step using step_loop_wraps [OF assms] greatest_step by simp
qed

lemma SetExp_Eval_range:
  assumes "SetExp_Eval e f lo hi = Some (Ok vals)" "lo \<le> hi" "lo = 0 \<or> lo = 1" "hi < 100"
    "\<And>k. e = StepSetExp k \<Longrightarrow> lexable k" "\<And>ints. e = EnumSetExp ints \<Longrightarrow> ints \<noteq> []"
  shows "vals \<noteq> [] \<and> ((\<forall>v \<in> set vals. lo \<le> v \<and> v \<le> hi) \<or> (lo = 1 \<and> e = StepSetExp (2 ^ 63 - 1) \<and> vals = [1, - 9223372036854775808, - 1]))"
proof (cases e)
  case (StepSetExp k)
  then show ?thesis using step_values [of lo k hi vals] assms by auto
next
  case (EnumSetExp ints)
  then have "enum_check f lo hi ints = None" "vals = normValues ints" "ints \<noteq> []"
    using assms(1) assms(6) [of ints] by (auto split: option.splits)
  then show ?thesis using enum_check_None [of f lo hi ints] normValues_set [of ints]
    by (metis set_empty)
next
  case (RangeSetExp a b)
  then have "lo \<le> a" "b \<le> hi" "a \<le> b" "vals = [a..b]"
    using assms(1) by (auto split: if_splits)
  then show ?thesis by auto
next
  case AnySetExp
  then show ?thesis using assms(1,2) by auto
qed

text \<open>What the grammar guarantees of a phrase: numerals are lexable, enumerations have values.\<close>

fun phrase_set :: "SetExp \<Rightarrow> bool" where
  "phrase_set (StepSetExp k) \<longleftrightarrow> lexable k"
| "phrase_set (EnumSetExp ints) \<longleftrightarrow> ints \<noteq> []"
| "phrase_set e \<longleftrightarrow> True"

fun phrase :: "TimeSpecExp \<Rightarrow> bool" where
  "phrase (SetTimeSpecExp e) \<longleftrightarrow> phrase_set e"
| "phrase (RandomTimeSpecExp e) \<longleftrightarrow> phrase_set e"
| "phrase e \<longleftrightarrow> True"

lemma accept_Inr: "accept e la = Inr e' \<longleftrightarrow> e' = e \<and> fst la = TEof"
  by (auto simp: accept_def syntaxError_def split: prod.splits if_splits)

lemma after_int_phrase: "after_int n lx err = Inr (Some e, la) \<Longrightarrow> phrase_set e"
  by (auto simp: after_int_def errorAction_def split: prod.splits token.splits sum.splits)

lemma step_set_exp_phrase: "step_set_exp lx err = Inr (e, la) \<Longrightarrow> phrase_set e"
  using Lex_TInt_lexable
  by (auto simp: step_set_exp_def errorAction_def split: prod.splits token.splits)

lemma rand_phrase: "rand_time_spec_exp lx err = Inr e \<Longrightarrow> phrase e"
  by (auto simp: rand_time_spec_exp_def syntaxError_def accept_Inr
      split: prod.splits token.splits sum.splits option.splits
      dest: after_int_phrase step_set_exp_phrase)

lemma yyParse_phrase: "yyParse lx err = Inr e \<Longrightarrow> phrase e"
  by (auto simp: yyParse_def syntaxError_def accept_Inr
      split: prod.splits token.splits sum.splits option.splits
      dest: after_int_phrase step_set_exp_phrase rand_phrase)

lemma TimeSpecExp_Eval_ok:
  assumes "TimeSpecExp_Eval e f lo hi = Some (Ok spec)" "phrase e" "lo \<le> hi" "lo = 0 \<or> lo = 1" "hi < 100"
  shows "field_ok lo hi spec"
proof (cases e)
  case (SetTimeSpecExp s)
  then obtain vals where v: "SetExp_Eval s f lo hi = Some (Ok vals)" "spec = SetTimeSpec (SetExp_String s) vals"
    using assms(1) by (auto simp: outcome_simps)
  have "phrase_set s" using assms(2) SetTimeSpecExp by simp
  then show ?thesis
    using SetExp_Eval_range [OF v(1) assms(3-5)] v(2) greatest_step by (fastforce simp: wrapped_def)
next
  case (RandomTimeSpecExp s)
  then obtain vals where v: "SetExp_Eval s f lo hi = Some (Ok vals)"
      "spec = RandomTimeSpec (''R'' @ SetExp_String s) vals None"
    using assms(1) by (auto simp: outcome_simps)
  have "phrase_set s" using assms(2) RandomTimeSpecExp by simp
  then show ?thesis
    using SetExp_Eval_range [OF v(1) assms(3-5)] v(2) greatest_step by (fastforce simp: wrapped_def)
qed (use assms in \<open>auto simp: Let_def split: if_splits\<close>)

lemma timePart_ok:
  assumes "timePart parts i f lo hi = Some (Ok spec)" "lo \<le> hi" "lo = 0 \<or> lo = 1" "hi < 100"
  shows "field_ok lo hi spec"
  using assms TimeSpecExp_Eval_ok [OF _ yyParse_phrase]
  by (auto simp: timePart_def parseTimeSpec_def split: if_splits sum.splits)

lemma bind_returning_Ok_iff:
  "bind_returning r f = Some (Ok y) \<longleftrightarrow> (\<exists>x. r = Some (Ok x) \<and> f x = Some (Ok y))"
  by (auto simp: bind_returning_def split: option.splits outcome.splits)

definition full_ok :: "FullTimeSpec \<Rightarrow> bool" where
  "full_ok s \<longleftrightarrow> field_ok 0 59 (SecSpec s) \<and> field_ok 0 59 (MinSpec s) \<and>
     field_ok 0 23 (HourSpec s) \<and> field_ok 1 31 (MdaySpec s) \<and> field_ok 1 12 (MonSpec s) \<and>
     field_ok 0 6 (WdaySpec s)"

lemma field_ok_pickable: "field_ok lo hi spec \<Longrightarrow> pickable spec"
  by (cases spec) auto

lemma full_ok_pickable: "full_ok s \<Longrightarrow> full_pickable s"
  by (auto simp: full_ok_def full_pickable_def intro: field_ok_pickable)

lemma ParseFullTimeSpec_full_ok:
  assumes "ParseFullTimeSpec s = Some (Ok spec)"
  shows "full_ok spec \<and> length (Fields s) \<le> 6"
  using assms
  by (auto simp: ParseFullTimeSpec_def Let_def bind_returning_Ok_iff full_ok_def
      intro!: timePart_ok split: if_splits)



text \<open>
  C10. A step expression: with a positive step that cannot overflow, the values are exactly
  those of the range that differ from the least one by a multiple of the step, in ascending
  order; with step zero, which the grammar accepts, the parser never returns.
\<close>

theorem StepSetExp_Eval:
  assumes "0 \<le> lo" "lo \<le> hi" "hi < 100" "0 \<le> step" "hi + step < 2 ^ 63"
  shows "SetExp_Eval (StepSetExp step) f lo hi =
    (if step = 0 then None else Some (Ok (filter (\<lambda>v. step dvd (v - lo)) [lo..hi])))"
  using assms step_loop_zero [of lo hi "[]"] step_loop_eq [of step hi lo "[]"] by auto

theorem StepSetExp_Eval_witness:
  "SetExp_Eval (StepSetExp 15) ''minute'' 0 59 = Some (Ok [0, 15, 30, 45]) \<and>
   SetExp_Eval (StepSetExp 0) ''minute'' 0 59 = None"
proof -
  have "filter (\<lambda>v. 15 dvd (v - 0)) [0..59] = [0, 15, 30, 45 :: int]" by code_simp
  then show ?thesis
    using StepSetExp_Eval [of 0 59 15 "''minute''"] StepSetExp_Eval [of 0 59 0 "''minute''"] by simp
qed

text \<open>
  A character that the lexer does not know ends the input silently: after a number, a
  decimal point and whatever follows it are dropped. So the seconds field \<open>5.5\<close> is accepted
  as 5, for every number and every text after the point.
\<close>

theorem trailing_garbage_accepted:
  assumes "lexable i" "lo \<le> i" "i \<le> hi"
  shows "parseTimeSpec (Itoa i @ ''.'' @ garbage) f lo hi = Some (Ok (OneValTimeSpec i))"
proof -
  have dot: "\<not> is_digit CHR ''.''" "unicode_IsPunct CHR ''.''" "CHR ''.'' \<noteq> gEof"
    by (simp_all add: is_digit_def unicode_IsPunct_def gEof_def)
  have e: "Lex (at (CHR ''.'' # garbage)) None =
      (TEof, at garbage, Some (''Unexpected char: '' @ quoted ''.''))"
    using dot by (subst Lex.simps) (simp add: unicode_IsGraphic_def rune_str_def)
  show ?thesis
    using assms dot e
    by (simp add: parseTimeSpec_def NewTimeSpecLexer_def yyParse_def Lex_Itoa(2) Lex_pushed
        after_int_def accept_def)
qed

theorem trailing_garbage_accepted_witness:
  "lexable 5 \<and> parseTimeSpec ''5.5'' ''sec'' 0 59 = Some (Ok (OneValTimeSpec 5))"
proof -
  have h: "lexable 5" "(0::int) \<le> 5" "(5::int) \<le> 59" by (simp_all add: lexable_def)
  have "Itoa 5 @ ''.'' @ ''5'' = ''5.5''" by code_simp
  then show ?thesis using trailing_garbage_accepted [OF h, of "''5''" "''sec''"] h by simp
qed

end
