(* ===== verification/Result_Sink.thy ===== *)
theory Result_Sink
  imports Sem_Ver "HOL-Library.Word"
begin

unbundle bit_operations_syntax

text \<open>
  Result sinks as data (\<open>jobfile/result_sink*.go\<close>): the five implementations of the
  interface \<open>ResultSink\<close>, their parameters and checks, how a sink is made from a job file,
  their equality, and the removal of duplicates (\<open>normalizeResultSinkArray\<close> of
  \<open>jobfile/job_file.go\<close>). What a sink does with a run is in the theory \<open>Run_Record\<close>.

  The YAML library is an argument: \<open>unmarshalStrict kind params\<close> is the structure it decodes
  the parameters into, or its error.
\<close>

section \<open>Definitions\<close>

type_synonym ResultSinkDataParam = "64 word"

definition RESULT_SINK_DATA_STDOUT :: ResultSinkDataParam where
  "RESULT_SINK_DATA_STDOUT = push_bit 0 1"

definition RESULT_SINK_DATA_STDERR :: ResultSinkDataParam where
  "RESULT_SINK_DATA_STDERR = push_bit 1 1"

definition data_Contains :: "ResultSinkDataParam \<Rightarrow> ResultSinkDataParam \<Rightarrow> bool" where
  "data_Contains self value \<longleftrightarrow> self AND value = value"

definition to_lower :: "char \<Rightarrow> char" where
  "to_lower c = (let n = (of_char c :: nat) in if 65 \<le> n \<and> n \<le> 90 then char_of (n + 32) else c)"

fun data_flags :: "ResultSinkDataParam \<Rightarrow> string list \<Rightarrow> ResultSinkDataParam outcome" where
  "data_flags acc [] = Ok acc"
| "data_flags acc (s # strs) =
     (let s' = map to_lower s in
      if s' = ''stdout'' then data_flags (acc OR RESULT_SINK_DATA_STDOUT) strs
      else if s' = ''stderr'' then data_flags (acc OR RESULT_SINK_DATA_STDERR) strs
      else Fail (Error (''Invalid data value: '' @ [CHR 0x22] @ s' @ [CHR 0x22]) None))"

definition data_UnmarshalYAML :: "(unit \<Rightarrow> string list outcome) \<Rightarrow> ResultSinkDataParam outcome" where
  "data_UnmarshalYAML unmarshal = bind_outcome (unmarshal ()) (data_flags 0)"

datatype ResultSink =
    SystemEmailResultSink
  | ProgramResultSink (sinkPath: string) (RunRecFormatVersion: SemVer)
  | FilesystemResultSink (sinkPath: string) (sinkData: ResultSinkDataParam) (MaxAgeDays: int)
  | StdoutResultSink (sinkData: ResultSinkDataParam)
  | SocketResultSink (sinkProto: string) (sinkAddress: string) (sinkData: ResultSinkDataParam)

fun ResultSink_String :: "ResultSink \<Rightarrow> string" where
  "ResultSink_String SystemEmailResultSink = ''system-email''"
| "ResultSink_String (ProgramResultSink path version) = ''program''"
| "ResultSink_String (FilesystemResultSink path data maxAge) = ''filesystem''"
| "ResultSink_String (StdoutResultSink data) = ''stdout''"
| "ResultSink_String (SocketResultSink proto address data) = ''socket''"

text \<open>
  \<open>CheckParams\<close> has a value receiver: the version that the one of \<open>ProgramResultSink\<close> fills in
  is written to a copy, and only the error leaves the method.
\<close>

fun CheckParams :: "ResultSink \<Rightarrow> error option" where
  "CheckParams SystemEmailResultSink = None"
| "CheckParams (ProgramResultSink path version) =
     (if length path = 0
      then Some (Error (''Program result sink needs '' @ [CHR 0x27] @ ''path'' @ [CHR 0x27] @ '' param'') None)
      else None)"
| "CheckParams (FilesystemResultSink path data maxAgeDays) =
     (if length path = 0
      then Some (Error (''Filesystem result sink needs '' @ [CHR 0x27] @ ''path'' @ [CHR 0x27] @ '' param'') None)
      else if maxAgeDays < 1
      then Some (Error (''Filesystem result sink'' @ [CHR 0x27] @ ''s '' @ [CHR 0x27] @ ''maxAgeDays''
        @ [CHR 0x27] @ '' param must be >= 1'') None)
      else None)"
| "CheckParams (StdoutResultSink data) = None"
| "CheckParams (SocketResultSink proto address data) = None"

fun Equals :: "ResultSink \<Rightarrow> ResultSink \<Rightarrow> bool" where
  "Equals SystemEmailResultSink SystemEmailResultSink = True"
| "Equals (ProgramResultSink path version) (ProgramResultSink path' version') =
     (if path' \<noteq> path then False else True)"
| "Equals (FilesystemResultSink path data maxAge) (FilesystemResultSink path' data' maxAge') =
     (if path' \<noteq> path then False else if maxAge' \<noteq> maxAge then False
      else if data' \<noteq> data then False else True)"
| "Equals (StdoutResultSink data) (StdoutResultSink data') = (if data' \<noteq> data then False else True)"
| "Equals (SocketResultSink proto address data) (SocketResultSink proto' address' data') =
     (if proto' \<noteq> proto then False else if address' \<noteq> address then False
      else if data' \<noteq> data then False else True)"
| "Equals self other = False"

text \<open>A raw sink is the map that YAML gives: keys with strings, numbers, versions or lists.\<close>

datatype yaml = YString string | YInt int | YSemVer SemVer | YSeq "yaml list"

type_synonym ResultSinkRaw = "(string \<times> yaml) list"

datatype sinkKind = KSystemEmail | KProgram | KFilesystem | KStdout | KSocket

definition loadSinkParams ::
    "(sinkKind \<Rightarrow> ResultSinkRaw \<Rightarrow> ResultSink outcome) \<Rightarrow> sinkKind \<Rightarrow> ResultSinkRaw \<Rightarrow> ResultSink outcome" where
  "loadSinkParams unmarshalStrict kind params =
     bind_outcome (unmarshalStrict kind params) (\<lambda>sink.
       case CheckParams sink of Some e \<Rightarrow> Fail e | None \<Rightarrow> Ok sink)"

definition MakeResultSinkFromConfig ::
    "(sinkKind \<Rightarrow> ResultSinkRaw \<Rightarrow> ResultSink outcome) \<Rightarrow> ResultSinkRaw \<Rightarrow> ResultSink outcome" where
  "MakeResultSinkFromConfig unmarshalStrict config =
     (case map_of config ''type'' of
        None \<Rightarrow> Fail (Error ''Missing type for result sink'' None)
      | Some typeName \<Rightarrow>
          let params = filter (\<lambda>(key, value). key \<noteq> ''type'') config in
          if typeName = YString ''system-email'' then loadSinkParams unmarshalStrict KSystemEmail params
          else if typeName = YString ''program'' then loadSinkParams unmarshalStrict KProgram params
          else if typeName = YString ''filesystem'' then loadSinkParams unmarshalStrict KFilesystem params
          else if typeName = YString ''stdout'' then loadSinkParams unmarshalStrict KStdout params
          else if typeName = YString ''socket'' then loadSinkParams unmarshalStrict KSocket params
          else Fail (Error ''No such result sink type'' None))"

fun normalize_loop :: "ResultSink list \<Rightarrow> ResultSink list \<Rightarrow> ResultSink list" where
  "normalize_loop newSinks [] = newSinks"
| "normalize_loop newSinks (currSink # sinks) =
     (if list_ex (\<lambda>s. Equals s currSink) newSinks then normalize_loop newSinks sinks
      else normalize_loop (newSinks @ [currSink]) sinks)"

definition normalizeResultSinkArray :: "ResultSink list \<Rightarrow> ResultSink list" where
  "normalizeResultSinkArray sinks = normalize_loop [] sinks"

section \<open>Equality of sinks\<close>

lemma Equals_refl [simp]: "Equals s s"
  by (cases s) auto

lemma Equals_sym: "Equals s t \<Longrightarrow> Equals t s"
  by (cases s; cases t) (auto split: if_splits)

lemma Equals_trans: "Equals s t \<Longrightarrow> Equals t u \<Longrightarrow> Equals s u"
  by (cases s; cases t; cases u) (auto split: if_splits)

lemma equivp_Equals: "equivp Equals"
  by (rule equivpI) (auto intro!: reflpI sympI transpI intro: Equals_sym Equals_trans)

section \<open>Removal of duplicates\<close>

text \<open>What the loop keeps true of the sinks it has taken so far.\<close>

definition pairwise_different :: "ResultSink list \<Rightarrow> bool" where
  "pairwise_different ss \<longleftrightarrow> sorted_wrt (\<lambda>s t. \<not> Equals s t) ss"

lemma normalize_loop_spec:
  assumes "pairwise_different acc"
  shows "pairwise_different (normalize_loop acc sinks) \<and>
    (\<exists>ss. normalize_loop acc sinks = acc @ ss \<and> mset ss \<subseteq># mset sinks) \<and>
    (\<forall>s \<in> set sinks. \<exists>t \<in> set (normalize_loop acc sinks). Equals t s)"
  using assms
proof (induction acc sinks rule: normalize_loop.induct)
  case (1 acc)
  then show ?case by simp
next
  case (2 acc s sinks)
  show ?case
  proof (cases "list_ex (\<lambda>t. Equals t s) acc")
    case True
    then obtain t where "t \<in> set acc" "Equals t s" by (auto simp: list_ex_iff)
    moreover obtain ss where "normalize_loop acc sinks = acc @ ss" "mset ss \<subseteq># mset sinks"
      using 2 True by blast
    ultimately show ?thesis
      using 2 True by (auto intro: subset_mset.order_trans [of _ "mset sinks"])
  next
    case False
    then have "pairwise_different (acc @ [s])"
      using "2.prems" by (auto simp: pairwise_different_def sorted_wrt_append list_ex_iff)
    then show ?thesis using "2.IH"(2) False by (auto simp: subset_mset.add_left_mono)
  qed
qed

lemma normalize_pairwise: "pairwise_different (normalizeResultSinkArray sinks)"
  using normalize_loop_spec [of "[]" sinks] by (simp add: pairwise_different_def normalizeResultSinkArray_def)

lemma normalize_loop_id:
  "pairwise_different (acc @ sinks) \<Longrightarrow> normalize_loop acc sinks = acc @ sinks"
  by (induction acc sinks rule: normalize_loop.induct)
     (auto simp: pairwise_different_def sorted_wrt_append list_ex_iff)

text \<open>
  Removal of duplicate sinks: no two sinks of the result are equal; the result is a
  selection of the given sinks; every given sink is equal to one of the result; and a list
  without duplicates, such as a result, is left as it is.
\<close>

theorem normalizeResultSinkArray_spec:
  "pairwise_different (normalizeResultSinkArray sinks) \<and>
   mset (normalizeResultSinkArray sinks) \<subseteq># mset sinks \<and>
   set sinks \<subseteq> {s. \<exists>t \<in> set (normalizeResultSinkArray sinks). Equals t s} \<and>
   normalizeResultSinkArray (normalizeResultSinkArray sinks) = normalizeResultSinkArray sinks"
  using normalize_loop_spec [of "[]" sinks]
    normalize_loop_id [of "[]" "normalizeResultSinkArray sinks"] normalize_pairwise [of sinks]
  by (auto simp: pairwise_different_def normalizeResultSinkArray_def)

section \<open>Data parameters\<close>

lemma and_push_bit_iff: "k < 64 \<Longrightarrow> (d :: 64 word) AND push_bit k 1 = push_bit k 1 \<longleftrightarrow> bit d k"
proof
  assume "k < 64" "d AND push_bit k 1 = push_bit k 1"
  then have "bit (d AND push_bit k 1) k" by (simp add: bit_simps)
  then show "bit d k" by (simp add: bit_simps)
next
  assume "k < 64" "bit d k"
  then show "d AND push_bit k 1 = push_bit k 1"
    by (intro bit_word_eqI) (auto simp: bit_simps)
qed

lemma data_Contains_flags:
  "data_Contains d RESULT_SINK_DATA_STDOUT \<longleftrightarrow> bit d 0"
  "data_Contains d RESULT_SINK_DATA_STDERR \<longleftrightarrow> bit d 1"
  unfolding data_Contains_def RESULT_SINK_DATA_STDOUT_def RESULT_SINK_DATA_STDERR_def
  by (rule and_push_bit_iff, simp)+

lemma data_flags_Ok:
  "data_flags acc strs = Ok d \<longleftrightarrow>
     set (map (map to_lower) strs) \<subseteq> {''stdout'', ''stderr''} \<and>
     d = (acc OR (if ''stdout'' \<in> set (map (map to_lower) strs) then RESULT_SINK_DATA_STDOUT else 0)
              OR (if ''stderr'' \<in> set (map (map to_lower) strs) then RESULT_SINK_DATA_STDERR else 0))"
  by (induction acc strs rule: data_flags.induct) (auto simp: Let_def or.assoc or.left_commute or.commute)

end
