(* ===== verification/Job.thy ===== *)
theory Job
  imports Result_Sink Time_Spec
begin

text \<open>
  Jobs and error handlers (\<open>jobfile/job.go\<close>, \<open>jobfile/error_handler.go\<close>) and the fate of a
  subprocess (\<open>common/exec.go\<close>). The methods that change the job they are called on return the
  changed job.

  The interface \<open>ErrorHandler\<close> is the locale \<open>error_handler\<close>: a handler may change only the
  status and the backoff counters of a job and keeps the job's invariant. It is interpreted on
  the three handlers of the program.
\<close>

section \<open>Definitions\<close>

datatype SubprocFate = SubprocFateSucceeded | SubprocFateFailed | SubprocFateCancelled

fun SubprocFate_String :: "SubprocFate \<Rightarrow> string" where
  "SubprocFate_String SubprocFateSucceeded = ''succeeded''"
| "SubprocFate_String SubprocFateFailed = ''failed''"
| "SubprocFate_String SubprocFateCancelled = ''cancelled''"

datatype JobStatus = JobGood | JobFailed | JobBackoff

definition JobStatuses :: "JobStatus list" where
  "JobStatuses = [JobGood, JobFailed, JobBackoff]"

fun JobStatus_String :: "JobStatus \<Rightarrow> string" where
  "JobStatus_String JobGood = ''Good''"
| "JobStatus_String JobBackoff = ''Backoff''"
| "JobStatus_String JobFailed = ''Failed''"

datatype ErrorHandler = ContinueErrorHandler | StopErrorHandler | BackoffErrorHandler

record Job =
  Name :: string
  Cmd :: string
  JobTimeSpec :: FullTimeSpec
  JobUser :: string
  JobErrorHandler :: ErrorHandler
  NotifyOnError :: "ResultSink list"
  NotifyOnFailure :: "ResultSink list"
  NotifyOnSuccess :: "ResultSink list"
  backoffLevel :: int
  skipsLeft :: int
  NextRunTime :: "go_time option"
  Status :: JobStatus
  LastRunTime :: go_time
  Paused :: bool

definition MaxBackoffWait :: int where
  "MaxBackoffWait = 8"

definition ContinueErrorHandler_Handle :: "Job \<Rightarrow> Job" where
  "ContinueErrorHandler_Handle job = job\<lparr>Status := JobGood\<rparr>"

definition StopErrorHandler_Handle :: "Job \<Rightarrow> Job" where
  "StopErrorHandler_Handle job = job\<lparr>Status := JobFailed\<rparr>"

definition BackoffErrorHandler_Handle :: "Job \<Rightarrow> Job" where
  "BackoffErrorHandler_Handle job =
     (let job1 = (if Status job = JobGood then job\<lparr>Status := JobBackoff, backoffLevel := 1\<rparr>
                  else job\<lparr>backoffLevel := backoffLevel job * 2\<rparr>)
      in if backoffLevel job1 > MaxBackoffWait
         then job1\<lparr>Status := JobFailed, backoffLevel := 0, skipsLeft := 0\<rparr>
         else job1\<lparr>skipsLeft := backoffLevel job1\<rparr>)"

fun Handle :: "ErrorHandler \<Rightarrow> Job \<Rightarrow> Job" where
  "Handle ContinueErrorHandler job = ContinueErrorHandler_Handle job"
| "Handle StopErrorHandler job = StopErrorHandler_Handle job"
| "Handle BackoffErrorHandler job = BackoffErrorHandler_Handle job"

fun ErrorHandler_String :: "ErrorHandler \<Rightarrow> string" where
  "ErrorHandler_String ContinueErrorHandler = ''Continue''"
| "ErrorHandler_String StopErrorHandler = ''Stop''"
| "ErrorHandler_String BackoffErrorHandler = ''Backoff''"

definition GetErrorHandler :: "string \<Rightarrow> ErrorHandler outcome" where
  "GetErrorHandler name =
     (if name = ''Stop'' then Ok StopErrorHandler
      else if name = ''Backoff'' then Ok BackoffErrorHandler
      else if name = ''Continue'' then Ok ContinueErrorHandler
      else Fail (Error (''Invalid error handler: '' @ name) None))"

definition ShouldRun :: "Job \<Rightarrow> bool \<times> Job" where
  "ShouldRun job =
     (case Status job of
        JobFailed \<Rightarrow> (False, job)
      | JobBackoff \<Rightarrow>
          let job1 = job\<lparr>skipsLeft := skipsLeft job - 1\<rparr> in (skipsLeft job1 \<le> 0, job1)
      | JobGood \<Rightarrow> (True, job))"

section \<open>The contract of an error handler\<close>

text \<open>
  The invariant of a job: while it backs off, its level is a power of two up to the maximum,
  and no more chances are left to skip than the level.
\<close>

definition job_inv :: "Job \<Rightarrow> bool" where
  "job_inv job \<longleftrightarrow>
     (Status job = JobBackoff \<longrightarrow> backoffLevel job \<in> {1, 2, 4, 8} \<and> skipsLeft job \<le> backoffLevel job)"

text \<open>The part of a job that no handler may touch.\<close>

definition static_part :: "Job \<Rightarrow> Job" where
  "static_part job = job\<lparr>Status := JobGood, backoffLevel := 0, skipsLeft := 0\<rparr>"

locale error_handler =
  fixes handle :: "Job \<Rightarrow> Job"
  assumes handle_static: "static_part (handle job) = static_part job"
    and handle_inv: "job_inv job \<Longrightarrow> job_inv (handle job)"
begin

lemma iterate_static: "static_part ((handle ^^ n) job) = static_part job"
  by (induction n) (simp_all add: handle_static)

lemma iterate_inv: "job_inv job \<Longrightarrow> job_inv ((handle ^^ n) job)"
  by (induction n) (simp_all add: handle_inv)

lemma handle_frame:
  "Name (handle job) = Name job" "Paused (handle job) = Paused job"
  "NextRunTime (handle job) = NextRunTime job" "JobErrorHandler (handle job) = JobErrorHandler job"
  "NotifyOnError (handle job) = NotifyOnError job" "NotifyOnFailure (handle job) = NotifyOnFailure job"
  "NotifyOnSuccess (handle job) = NotifyOnSuccess job" "JobTimeSpec (handle job) = JobTimeSpec job"
  using handle_static [of job] by (cases job, cases "handle job", simp add: static_part_def)+

end

lemmas handler_defs = ContinueErrorHandler_Handle_def StopErrorHandler_Handle_def
  BackoffErrorHandler_Handle_def MaxBackoffWait_def Let_def

interpretation eh: error_handler "Handle h" for h
proof unfold_locales
  fix job
  show "static_part (Handle h job) = static_part job"
    by (cases h) (auto simp: static_part_def handler_defs)
  show "job_inv (Handle h job)" if "job_inv job"
    using that by (cases h; cases "Status job") (auto simp: job_inv_def handler_defs)
qed

lemma ShouldRun_inv: "job_inv job \<Longrightarrow> job_inv (snd (ShouldRun job))"
  by (auto simp: job_inv_def ShouldRun_def Let_def split: JobStatus.splits)

lemma ShouldRun_frame:
  "Name (snd (ShouldRun job)) = Name job" "NextRunTime (snd (ShouldRun job)) = NextRunTime job"
  "Status (snd (ShouldRun job)) = Status job" "Paused (snd (ShouldRun job)) = Paused job"
  "JobTimeSpec (snd (ShouldRun job)) = JobTimeSpec job"
  by (auto simp: ShouldRun_def Let_def split: JobStatus.splits)

section \<open>Properties of the backoff handler\<close>

text \<open>The job after \<open>n\<close> failed runs in a row.\<close>

lemma Backoff_step:
  assumes "Status job = JobBackoff" "backoffLevel job = 2 ^ k" "k < 3"
  shows "Status (Handle BackoffErrorHandler job) = JobBackoff"
    "backoffLevel (Handle BackoffErrorHandler job) = 2 ^ Suc k"
    "skipsLeft (Handle BackoffErrorHandler job) = 2 ^ Suc k"
proof -
  have "(2::int) ^ k \<le> 4" using power_increasing [of k 2 "2::int"] assms(3) by simp
  then show "Status (Handle BackoffErrorHandler job) = JobBackoff"
    "backoffLevel (Handle BackoffErrorHandler job) = 2 ^ Suc k"
    "skipsLeft (Handle BackoffErrorHandler job) = 2 ^ Suc k"
    using assms by (simp_all add: handler_defs)
qed

lemma Backoff_first:
  assumes "Status job = JobGood"
  shows "Status (Handle BackoffErrorHandler job) = JobBackoff \<and>
    backoffLevel (Handle BackoffErrorHandler job) = 1 \<and> skipsLeft (Handle BackoffErrorHandler job) = 1"
  using assms by (simp add: handler_defs)

lemma Backoff_iterate:
  assumes "Status job = JobGood" "n < 4"
  shows "Status ((Handle BackoffErrorHandler ^^ Suc n) job) = JobBackoff \<and>
    backoffLevel ((Handle BackoffErrorHandler ^^ Suc n) job) = 2 ^ n \<and>
    skipsLeft ((Handle BackoffErrorHandler ^^ Suc n) job) = 2 ^ n"
  using assms(2)
proof (induction n)
  case 0
  then show ?case using Backoff_first [OF assms(1)] by simp
next
  case (Suc n)
  then show ?case using Backoff_step [of "(Handle BackoffErrorHandler ^^ Suc n) job" n]
    by (simp del: Handle.simps)
qed

lemma Backoff_last:
  assumes "Status job = JobBackoff \<and> backoffLevel job = 8 \<or> Status job = JobFailed \<and> backoffLevel job = 0"
  shows "Status (Handle BackoffErrorHandler job) = JobFailed \<and>
    backoffLevel (Handle BackoffErrorHandler job) = 0"
  using assms by (auto simp: handler_defs)

lemma Backoff_fifth:
  assumes "Status job = JobGood"
  shows "Status ((Handle BackoffErrorHandler ^^ (5 + n)) job) = JobFailed \<and>
    backoffLevel ((Handle BackoffErrorHandler ^^ (5 + n)) job) = 0"
proof (induction n)
  case 0
  have "(Handle BackoffErrorHandler ^^ 5) job = Handle BackoffErrorHandler ((Handle BackoffErrorHandler ^^ Suc 3) job)"
    by (simp add: eval_nat_numeral)
  then show ?case
    using Backoff_iterate [OF assms, of 3] Backoff_last [of "(Handle BackoffErrorHandler ^^ Suc 3) job"]
    by (simp del: Handle.simps funpow.simps)
next
  case (Suc n)
  then show ?case
    using Backoff_last [of "(Handle BackoffErrorHandler ^^ (5 + n)) job"]
    by (auto simp only: add_Suc_right funpow.simps(2) comp_apply)
qed

text \<open>The answers of \<open>n\<close> calls of \<open>ShouldRun\<close> in a row, with no run between them.\<close>

fun chances :: "nat \<Rightarrow> Job \<Rightarrow> bool list" where
  "chances 0 job = []"
| "chances (Suc n) job = fst (ShouldRun job) # chances n (snd (ShouldRun job))"

lemma chances_Backoff:
  "Status job = JobBackoff \<Longrightarrow> skipsLeft job = int n + 1 \<Longrightarrow>
   chances (Suc n) job = replicate n False @ [True]"
proof (induction n arbitrary: job)
  case 0
  then show ?case by (simp add: ShouldRun_def)
next
  case (Suc n)
  have "chances (Suc n) (job\<lparr>skipsLeft := int n + 1\<rparr>) = replicate n False @ [True]"
    using Suc by simp
  then show ?case using Suc.prems by (simp add: ShouldRun_def)
qed

text \<open>
  C6. Backoff: a job that was good and has failed \<open>n + 1\<close> times in a row backs off with level
  \<open>2 ^ n\<close> while \<open>n < 4\<close>, then skips exactly \<open>2 ^ n - 1\<close> chances and takes the next one (so after
  the first failure it skips none); the fifth failure in a row, and every later one, leaves it
  failed, with its counters cleared, and no further chance is taken.
\<close>

theorem Backoff_schedule:
  assumes "Status job = JobGood"
  defines "after \<equiv> \<lambda>n. (Handle BackoffErrorHandler ^^ n) job"
  shows "(\<forall>n < 4. Status (after (n + 1)) = JobBackoff \<and> backoffLevel (after (n + 1)) = 2 ^ n \<and>
      chances (2 ^ n) (after (n + 1)) = replicate (2 ^ n - 1) False @ [True]) \<and>
    (\<forall>n \<ge> 5. Status (after n) = JobFailed \<and> chances k (after n) = replicate k False)"
proof (intro conjI allI impI)
  fix n :: nat
  assume n: "n < 4"
  note it = Backoff_iterate [OF assms(1) n]
  show "Status (after (n + 1)) = JobBackoff" "backoffLevel (after (n + 1)) = 2 ^ n"
    using it by (simp_all add: after_def del: Handle.simps)
  have "skipsLeft (after (n + 1)) = int (2 ^ n - 1) + 1"
    using it by (simp add: after_def of_nat_diff del: Handle.simps)
  then have "chances (Suc (2 ^ n - 1)) (after (n + 1)) = replicate (2 ^ n - 1) False @ [True]"
    using it by (intro chances_Backoff) (simp_all add: after_def del: Handle.simps)
  then show "chances (2 ^ n) (after (n + 1)) = replicate (2 ^ n - 1) False @ [True]"
    by simp
next
  fix n :: nat
  assume "5 \<le> n"
  then obtain m where m: "n = 5 + m" using le_Suc_ex by blast
  show failed: "Status (after n) = JobFailed"
    using Backoff_fifth [OF assms(1), of m] m by (simp add: after_def del: Handle.simps)
  have "Status j = JobFailed \<Longrightarrow> chances k j = replicate k False" for j
    by (induction k arbitrary: j) (simp_all add: ShouldRun_def)
  then show "chances k (after n) = replicate k False" using failed by blast
qed

text \<open>A job as the loader makes it, for the examples.\<close>

definition empty_job :: Job where
  "empty_job = \<lparr>Name = ''job'', Cmd = ''true'', JobTimeSpec = \<lparr>SecSpec = WildcardTimeSpec,
     MinSpec = WildcardTimeSpec, HourSpec = WildcardTimeSpec, MdaySpec = WildcardTimeSpec,
     MonSpec = WildcardTimeSpec, WdaySpec = WildcardTimeSpec\<rparr>, JobUser = ''root'',
     JobErrorHandler = BackoffErrorHandler, NotifyOnError = [], NotifyOnFailure = [],
     NotifyOnSuccess = [], backoffLevel = 0, skipsLeft = 0, NextRunTime = None, Status = JobGood,
     LastRunTime = zero_time, Paused = False\<rparr>"

theorem Backoff_schedule_witness:
  "Status empty_job = JobGood \<and>
   chances 4 ((Handle BackoffErrorHandler ^^ 3) empty_job) = [False, False, False, True] \<and>
   chances 1 ((Handle BackoffErrorHandler ^^ 1) empty_job) = [True]"
proof -
  have g: "Status empty_job = JobGood" by (simp add: empty_job_def)
  have "chances (2 ^ n) ((Handle BackoffErrorHandler ^^ (n + 1)) empty_job)
      = replicate (2 ^ n - 1) False @ [True]" if "n < 4" for n
    using Backoff_schedule [OF g] that by blast
  from this [of 2] this [of 0] g show ?thesis by (simp add: numeral_eq_Suc del: chances.simps Handle.simps funpow.simps)
qed

text \<open>
  The error handlers: each of the three keeps the job's invariant and changes nothing but
  its status and counters, also over any number of failures; and the name that a handler prints
  is the name that \<open>GetErrorHandler\<close> reads, which refuses every other name.
\<close>

theorem ErrorHandler_contract:
  "static_part ((Handle h ^^ n) job) = static_part job \<and>
   (job_inv ((Handle h ^^ n) job) \<or> \<not> job_inv job) \<and>
   GetErrorHandler (ErrorHandler_String h) = Ok h \<and>
   (GetErrorHandler name = Ok h \<longleftrightarrow> name = ErrorHandler_String h) \<and>
   (is_Ok (GetErrorHandler name) \<longleftrightarrow> name \<in> {''Stop'', ''Backoff'', ''Continue''})"
  using eh.iterate_static [of n h job] eh.iterate_inv [of job n h]
  by (cases h) (auto simp: GetErrorHandler_def)

theorem ErrorHandler_contract_witness:
  "static_part ((Handle BackoffErrorHandler ^^ 2) empty_job) = static_part empty_job \<and>
   GetErrorHandler ''Backoff'' = Ok BackoffErrorHandler"
  using ErrorHandler_contract [of 2 BackoffErrorHandler empty_job "''Backoff''"] by simp

end
