(* ===== verification/Go_Heap.thy ===== *)
theory Go_Heap
  imports Prelude
begin

text \<open>
  Package \<open>container/heap\<close>, which the job queue calls, on a slice of elements: \<open>up\<close>, \<open>down\<close>,
  \<open>Push\<close> and \<open>Pop\<close>, with the comparison as an argument.

  The locale \<open>heap_order\<close> is what the package asks of the comparison (a strict weak order);
  in it the heap property is kept and the root is a least element. The locale \<open>min_queue\<close> is
  what a client of a priority queue relies on; \<open>heap_order\<close> provides it.
\<close>

section \<open>Definitions\<close>

definition swap :: "'a list \<Rightarrow> nat \<Rightarrow> nat \<Rightarrow> 'a list" where
  "swap h i j = h[i := h ! j, j := h ! i]"

function heap_up :: "('a \<Rightarrow> 'a \<Rightarrow> bool) \<Rightarrow> 'a list \<Rightarrow> nat \<Rightarrow> 'a list" where
  "heap_up lt h j =
     (let i = (j - 1) div 2 in
      if i = j \<or> \<not> lt (h ! j) (h ! i) then h else heap_up lt (swap h i j) i)"
  by pat_completeness auto
termination
  by (relation "measure (\<lambda>(lt, h, j). j)") auto

text \<open>The smaller of the children of \<open>i\<close> among the first \<open>n\<close> elements; the left one on a tie.\<close>

definition min_child :: "('a \<Rightarrow> 'a \<Rightarrow> bool) \<Rightarrow> 'a list \<Rightarrow> nat \<Rightarrow> nat \<Rightarrow> nat" where
  "min_child lt h i n =
     (let j1 = 2 * i + 1; j2 = j1 + 1 in if j2 < n \<and> lt (h ! j2) (h ! j1) then j2 else j1)"

function heap_down :: "('a \<Rightarrow> 'a \<Rightarrow> bool) \<Rightarrow> 'a list \<Rightarrow> nat \<Rightarrow> nat \<Rightarrow> 'a list" where
  "heap_down lt h i n =
     (if n \<le> 2 * i + 1 then h
      else let j = min_child lt h i n in
        if \<not> lt (h ! j) (h ! i) then h else heap_down lt (swap h i j) j n)"
  by pat_completeness auto
termination
  by (relation "measure (\<lambda>(lt, h, i, n). n - i)") (auto simp: min_child_def Let_def)

declare heap_up.simps [simp del] heap_down.simps [simp del]

definition heap_Push :: "('a \<Rightarrow> 'a \<Rightarrow> bool) \<Rightarrow> 'a \<Rightarrow> 'a list \<Rightarrow> 'a list" where
  "heap_Push lt x h = heap_up lt (h @ [x]) (length h)"

text \<open>\<open>heap.Pop\<close> on a non-empty heap: the element and what is left.\<close>

definition heap_Pop :: "('a \<Rightarrow> 'a \<Rightarrow> bool) \<Rightarrow> 'a list \<Rightarrow> 'a \<times> 'a list" where
  "heap_Pop lt h =
     (let n = length h - 1; h1 = heap_down lt (swap h 0 n) 0 n in (last h1, butlast h1))"

section \<open>Contents\<close>

lemma mset_swap_elems [simp]: "i < length h \<Longrightarrow> j < length h \<Longrightarrow> mset (swap h i j) = mset h"
  unfolding swap_def by (rule mset_swap)

lemma length_swap [simp]: "length (swap h i j) = length h"
  by (simp add: swap_def)

lemma swap_nth:
  "i < length h \<Longrightarrow> j < length h \<Longrightarrow>
   swap h i j ! k = (if k = j then h ! i else if k = i then h ! j else h ! k)"
  by (auto simp: swap_def nth_list_update)

lemma heap_up_mset: "j < length h \<Longrightarrow> mset (heap_up lt h j) = mset h"
proof (induction lt h j rule: heap_up.induct)
  case (1 lt h j)
  let ?i = "(j - 1) div 2"
  have i: "?i < length h" using "1.prems" by simp
  show ?case
  proof (cases "?i = j \<or> \<not> lt (h ! j) (h ! ?i)")
    case True
    then show ?thesis by (subst heap_up.simps) (simp add: Let_def)
  next
    case False
    then have "mset (heap_up lt (swap h ?i j) ?i) = mset (swap h ?i j)"
      using "1.IH" [OF refl] i by simp
    then show ?thesis using False "1.prems" i by (subst heap_up.simps) (simp add: Let_def)
  qed
qed

lemma heap_up_length [simp]: "j < length h \<Longrightarrow> length (heap_up lt h j) = length h"
  by (metis heap_up_mset mset_eq_length)

lemma min_child_bounds:
  "2 * i + 1 < n \<Longrightarrow> i < min_child lt h i n \<and> min_child lt h i n < n \<and> (min_child lt h i n - 1) div 2 = i"
  by (auto simp: min_child_def Let_def)

text \<open>Sifting down permutes the first \<open>n\<close> elements and leaves the others.\<close>

lemma heap_down_contents:
  "n \<le> length h \<Longrightarrow> i < n \<or> n = 0 \<Longrightarrow>
   mset (heap_down lt h i n) = mset h \<and> (\<forall>k \<ge> n. heap_down lt h i n ! k = h ! k)"
proof (induction lt h i n rule: heap_down.induct)
  case (1 lt h i n)
  let ?j = "min_child lt h i n"
  show ?case
  proof (cases "n \<le> 2 * i + 1 \<or> \<not> lt (h ! ?j) (h ! i)")
    case True
    then have "heap_down lt h i n = h" by (subst heap_down.simps) (auto simp: Let_def)
    then show ?thesis by simp
  next
    case False
    then have n: "\<not> n \<le> 2 * i + 1" "\<not> \<not> lt (h ! ?j) (h ! i)" by auto
    then have j: "?j < n" "i < n" "?j < length h" "i < length h"
      using "1.prems" min_child_bounds [of i n lt h] by auto
    have eq: "heap_down lt h i n = heap_down lt (swap h i ?j) ?j n"
      using n by (subst heap_down.simps) (simp add: Let_def)
    have "mset (heap_down lt (swap h i ?j) ?j n) = mset (swap h i ?j) \<and>
        (\<forall>k \<ge> n. heap_down lt (swap h i ?j) ?j n ! k = swap h i ?j ! k)"
      using "1.IH" [OF n(1) refl n(2)] "1.prems"(1) j by simp
    then show ?thesis using eq j by (auto simp: swap_nth)
  qed
qed

lemma heap_down_length [simp]:
  "n \<le> length h \<Longrightarrow> i < n \<or> n = 0 \<Longrightarrow> length (heap_down lt h i n) = length h"
  by (metis heap_down_contents mset_eq_length)

lemma heap_Push_mset: "mset (heap_Push lt x h) = add_mset x (mset h)"
  by (simp add: heap_Push_def heap_up_mset)

lemma heap_Push_set [simp]: "set (heap_Push lt x h) = insert x (set h)"
  using arg_cong [OF heap_Push_mset [of lt x h], of set_mset] by simp

lemma heap_Push_distinct [simp]: "distinct (heap_Push lt x h) \<longleftrightarrow> x \<notin> set h \<and> distinct h"
  using mset_eq_imp_distinct_iff [of "heap_Push lt x h" "x # h"] heap_Push_mset [of lt x h] by simp

text \<open>\<open>Pop\<close> takes the first element, whatever the order.\<close>

lemma heap_Pop_contents:
  assumes "h \<noteq> []" "heap_Pop lt h = (x, h')"
  shows "x = h ! 0 \<and> mset h = add_mset x (mset h')"
proof -
  define n where "n = length h - 1"
  define h1 where "h1 = heap_down lt (swap h 0 n) 0 n"
  have n: "n < length h" "length h = Suc n" using assms(1) by (simp_all add: n_def)
  have c: "mset h1 = mset (swap h 0 n)" "h1 ! n = swap h 0 n ! n"
    using heap_down_contents [of n "swap h 0 n" 0 lt] n by (auto simp: h1_def)
  have len: "length h1 = Suc n" using mset_eq_length [OF c(1)] n by simp
  have x: "x = last h1" "h' = butlast h1"
    using assms(2) by (simp_all add: heap_Pop_def n_def h1_def Let_def)
  have "last h1 = h1 ! n" using len by (metis diff_Suc_1 last_conv_nth length_0_conv nat.simps(3))
  also have "\<dots> = h ! 0" using c(2) n by (simp add: swap_nth)
  finally have first: "x = h ! 0" using x by simp
  have "h1 = h' @ [x]" using x len by (metis append_butlast_last_id length_0_conv nat.simps(3))
  then have "mset h1 = add_mset x (mset h')" by simp
  then have "mset h = add_mset x (mset h')" using c(1) n by simp
  then show ?thesis using first by simp
qed

section \<open>The heap property\<close>

text \<open>Position \<open>k\<close> is in order when its element is not less than its parent's.\<close>

definition in_order :: "('a \<Rightarrow> 'a \<Rightarrow> bool) \<Rightarrow> 'a list \<Rightarrow> nat \<Rightarrow> bool" where
  "in_order lt h k \<longleftrightarrow> \<not> lt (h ! k) (h ! ((k - 1) div 2))"

definition is_heap :: "('a \<Rightarrow> 'a \<Rightarrow> bool) \<Rightarrow> 'a list \<Rightarrow> bool" where
  "is_heap lt h \<longleftrightarrow> (\<forall>k. 0 < k \<longrightarrow> k < length h \<longrightarrow> in_order lt h k)"

lemma is_heap_cong:
  "(\<And>x y. x \<in> set h \<Longrightarrow> y \<in> set h \<Longrightarrow> lt x y = lt' x y) \<Longrightarrow> is_heap lt h = is_heap lt' h"
  by (auto simp: is_heap_def in_order_def)

text \<open>What a client of a priority queue relies on.\<close>

locale min_queue =
  fixes lt :: "'a \<Rightarrow> 'a \<Rightarrow> bool"
    and push :: "'a \<Rightarrow> 'q \<Rightarrow> 'q"
    and pop :: "'q \<Rightarrow> 'a \<times> 'q"
    and items :: "'q \<Rightarrow> 'a multiset"
    and inv :: "'q \<Rightarrow> bool"
  assumes push_items: "items (push x q) = add_mset x (items q)"
    and push_inv: "inv q \<Longrightarrow> inv (push x q)"
    and pop_items: "items q \<noteq> {#} \<Longrightarrow> pop q = (x, q') \<Longrightarrow> items q = add_mset x (items q')"
    and pop_inv: "inv q \<Longrightarrow> items q \<noteq> {#} \<Longrightarrow> pop q = (x, q') \<Longrightarrow> inv q'"
    and pop_least: "inv q \<Longrightarrow> items q \<noteq> {#} \<Longrightarrow> pop q = (x, q') \<Longrightarrow> y \<in># items q \<Longrightarrow> \<not> lt y x"
begin

text \<open>Taking an element out and putting one in keeps the invariant and all other elements.\<close>

lemma pop_push:
  assumes "inv q" "items q \<noteq> {#}" "pop q = (x, q')"
  shows "inv (push y q') \<and> items (push y q') = add_mset y (items q - {#x#})"
  using pop_items [OF assms(2,3)] pop_inv [OF assms] by (simp add: push_items push_inv)

text \<open>Adding a list of elements one by one.\<close>

lemma fold_push: "items (fold push xs q) = items q + mset xs \<and> (inv q \<longrightarrow> inv (fold push xs q))"
  by (induction xs arbitrary: q) (auto simp: push_items push_inv)

end

locale heap_order =
  fixes lt :: "'a \<Rightarrow> 'a \<Rightarrow> bool"
  assumes lt_asym: "lt x y \<Longrightarrow> \<not> lt y x"
    and le_trans: "\<not> lt y x \<Longrightarrow> \<not> lt z y \<Longrightarrow> \<not> lt z x"
begin

lemma heap_up_heap:
  assumes "j < length h"
    and "\<And>k. 0 < k \<Longrightarrow> k < length h \<Longrightarrow> k \<noteq> j \<Longrightarrow> in_order lt h k"
    and "\<And>k. 0 < k \<Longrightarrow> k < length h \<Longrightarrow> (k - 1) div 2 = j \<Longrightarrow> 0 < j \<Longrightarrow>
      \<not> lt (h ! k) (h ! ((j - 1) div 2))"
  shows "is_heap lt (heap_up lt h j)"
  using assms
proof (induction j arbitrary: h rule: less_induct)
  case (less j)
  define i where "i = (j - 1) div 2"
  show ?case
  proof (cases "i = j \<or> \<not> lt (h ! j) (h ! i)")
    case True
    then have "heap_up lt h j = h" by (subst heap_up.simps) (simp add: Let_def i_def)
    moreover have "in_order lt h k" if "0 < k" "k < length h" for k
      using True that less.prems(2) [of k] by (cases "k = j") (auto simp: in_order_def i_def)
    ultimately show ?thesis by (simp add: is_heap_def)
  next
    case False
    let ?h = "swap h i j"
    have ij: "i < j" "i < length h" "i \<noteq> j" using False less.prems(1) by (auto simp: i_def)
    have nth: "?h ! k = (if k = j then h ! i else if k = i then h ! j else h ! k)" for k
      using ij less.prems(1) by (simp add: swap_nth)
    have par: "(j - Suc 0) div 2 = i" by (simp add: i_def)
    have below: "\<not> lt (h ! i) (h ! j)" using False lt_asym by blast
    have ordered: "in_order lt ?h k" if "0 < k" "k < length ?h" "k \<noteq> i" for k
    proof (cases "k = j")
      case True
      then show ?thesis using below ij by (simp add: in_order_def nth par)
    next
      case kj: False
      have o: "in_order lt h k" using less.prems(2) that kj by simp
      show ?thesis
      proof (cases "(k - 1) div 2 = i")
        case True
        then show ?thesis using o kj that(3) ij le_trans [OF below, of "h ! k"]
          by (simp add: in_order_def nth)
      next
        case False
        then show ?thesis using o kj that less.prems(3) [of k] ij by (auto simp: in_order_def nth par)
      qed
    qed
    have grand: "\<not> lt (?h ! k) (?h ! ((i - 1) div 2))"
      if "0 < k" "k < length ?h" "(k - 1) div 2 = i" "0 < i" for k
    proof -
      have p: "(i - 1) div 2 < i" "(i - 1) div 2 \<noteq> j" using that(4) ij by auto
      have oi: "\<not> lt (h ! i) (h ! ((i - 1) div 2))"
        using less.prems(2) [of i] that(4) ij by (simp add: in_order_def)
      have "\<not> lt (h ! k) (h ! i)" if "k \<noteq> j"
        using less.prems(2) [of k] that \<open>0 < k\<close> \<open>k < length ?h\<close> \<open>(k - 1) div 2 = i\<close>
        by (simp add: in_order_def)
      moreover have "k \<noteq> i" using that by auto
      ultimately show ?thesis using oi le_trans [OF oi] p by (auto simp: nth)
    qed
    have "is_heap lt (heap_up lt ?h i)"
      by (rule less.IH [OF ij(1)]) (use ij ordered grand in auto)
    then show ?thesis using False by (subst heap_up.simps) (simp add: Let_def i_def)
  qed
qed

lemma min_child_least:
  assumes "2 * i + 1 < n" "0 < k" "k < n" "(k - 1) div 2 = i"
  shows "\<not> lt (h ! k) (h ! min_child lt h i n)"
proof -
  have "k = 2 * i + 1 \<or> k = 2 * i + 2" using assms by linarith
  then show ?thesis using assms(3) lt_asym by (auto simp: min_child_def Let_def)
qed

lemma heap_down_heap:
  assumes "n \<le> length h" "i < n"
    and "\<And>k. 0 < k \<Longrightarrow> k < n \<Longrightarrow> (k - 1) div 2 \<noteq> i \<Longrightarrow> in_order lt h k"
    and "\<And>k. 0 < k \<Longrightarrow> k < n \<Longrightarrow> (k - 1) div 2 = i \<Longrightarrow> 0 < i \<Longrightarrow>
      \<not> lt (h ! k) (h ! ((i - 1) div 2))"
    and "0 < k" "k < n"
  shows "in_order lt (heap_down lt h i n) k"
  using assms
proof (induction "n - i" arbitrary: h i k rule: less_induct)
  case less
  let ?j = "min_child lt h i n"
  show ?case
  proof (cases "n \<le> 2 * i + 1 \<or> \<not> lt (h ! ?j) (h ! i)")
    case True
    then have "heap_down lt h i n = h" by (subst heap_down.simps) (auto simp: Let_def)
    moreover have "in_order lt h k"
    proof (cases "(k - 1) div 2 = i")
      case child: True
      then have n: "2 * i + 1 < n" using less.prems(5,6) by linarith
      then have "\<not> lt (h ! ?j) (h ! i)" using True by simp
      then show ?thesis
        using le_trans min_child_least [OF n less.prems(5,6) child] child by (auto simp: in_order_def)
    qed (use less.prems in simp)
    ultimately show ?thesis by simp
  next
    case False
    let ?h = "swap h i ?j"
    have j: "i < ?j" "?j < n" "(?j - 1) div 2 = i" "?j < length h" "i < length h"
      using min_child_bounds [of i n lt h] False less.prems(1,2) by auto
    have nth: "?h ! k = (if k = ?j then h ! i else if k = i then h ! ?j else h ! k)" for k
      using j by (simp add: swap_nth)
    have above: "\<not> lt (h ! i) (h ! ?j)" using False lt_asym by blast
    have ordered: "in_order lt ?h k" if k: "0 < k" "k < n" "(k - 1) div 2 \<noteq> ?j" for k
    proof (cases "(k - 1) div 2 = i")
      case True
      have "2 * i + 1 < n" using k(1,2) True by linarith
      then have "\<not> lt (h ! k) (h ! ?j)" using min_child_least [OF _ k(1,2) True] by blast
      moreover have "k \<noteq> i" using True k(1) by auto
      ultimately show ?thesis using True above j by (simp add: in_order_def nth)
    next
      case outside: False
      then have o: "in_order lt h k" using less.prems(3) k by blast
      have "k \<noteq> ?j" using outside j by auto
      show ?thesis
      proof (cases "k = i")
        case True
        have "\<not> lt (h ! ?j) (h ! ((i - 1) div 2))" using less.prems(4) [of ?j] j True k by simp
        then show ?thesis using True k j \<open>k \<noteq> ?j\<close> outside by (auto simp: in_order_def nth)
      next
        case False
        then show ?thesis using o outside k \<open>k \<noteq> ?j\<close> by (simp add: in_order_def nth)
      qed
    qed
    have grand: "\<not> lt (?h ! k) (?h ! ((?j - 1) div 2))"
      if k: "0 < k" "k < n" "(k - 1) div 2 = ?j" for k
    proof -
      have "in_order lt h k" using less.prems(3) [of k] k j by simp
      then show ?thesis using k j by (auto simp: in_order_def nth)
    qed
    have "in_order lt (heap_down lt ?h ?j n) k"
      by (rule less.hyps) (use less.prems j ordered grand in auto)
    then show ?thesis using False by (subst heap_down.simps) (auto simp: Let_def)
  qed
qed

lemma root_least: "is_heap lt h \<Longrightarrow> k < length h \<Longrightarrow> \<not> lt (h ! k) (h ! 0)"
proof (induction k rule: less_induct)
  case (less k)
  show ?case
  proof (cases "k = 0")
    case True
    then show ?thesis using lt_asym by blast
  next
    case False
    then have "\<not> lt (h ! ((k - 1) div 2)) (h ! 0)" "in_order lt h k"
      using less by (auto simp: is_heap_def)
    then show ?thesis using le_trans by (auto simp: in_order_def)
  qed
qed

lemma heap_Push_heap: "is_heap lt h \<Longrightarrow> is_heap lt (heap_Push lt x h)"
proof -
  assume h: "is_heap lt h"
  have "in_order lt (h @ [x]) k" if "0 < k" "k < length (h @ [x])" "k \<noteq> length h" for k
  proof -
    have "k < length h" "(k - 1) div 2 < length h" using that by auto
    then show ?thesis using h that(1) by (simp add: is_heap_def in_order_def nth_append)
  qed
  then show ?thesis unfolding heap_Push_def by (intro heap_up_heap) auto
qed

lemma heap_Pop_heap:
  assumes "is_heap lt h" "h \<noteq> []" "heap_Pop lt h = (x, h')"
  shows "is_heap lt h'"
proof -
  define n where "n = length h - 1"
  define h1 where "h1 = heap_down lt (swap h 0 n) 0 n"
  have n: "n < length h" "length h = Suc n" using assms(2) by (simp_all add: n_def)
  have h': "h' = butlast h1" using assms(3) by (simp add: heap_Pop_def n_def h1_def Let_def)
  have len: "length h1 = Suc n" using n unfolding h1_def by (subst heap_down_length) auto
  have "in_order lt h1 k" if k: "0 < k" "k < n" for k
    unfolding h1_def
  proof (rule heap_down_heap)
    fix m assume m: "0 < m" "m < n" "(m - 1) div 2 \<noteq> 0"
    then show "in_order lt (swap h 0 n) m"
      using assms(1) n by (auto simp: is_heap_def in_order_def swap_nth)
  qed (use n k in auto)
  then show ?thesis using h' len by (auto simp: is_heap_def in_order_def nth_butlast)
qed

sublocale heap_queue: min_queue lt "heap_Push lt" "heap_Pop lt" mset "is_heap lt"
proof unfold_locales
  fix h :: "'a list" and x y :: 'a and h'
  show "mset (heap_Push lt x h) = add_mset x (mset h)" by (rule heap_Push_mset)
  show "is_heap lt h \<Longrightarrow> is_heap lt (heap_Push lt x h)" by (rule heap_Push_heap)
  assume ne: "mset h \<noteq> {#}" and pop: "heap_Pop lt h = (x, h')"
  then show "mset h = add_mset x (mset h')" using heap_Pop_contents by fastforce
  assume inv: "is_heap lt h"
  show "is_heap lt h'" using heap_Pop_heap [OF inv _ pop] ne by simp
  assume "y \<in># mset h"
  then obtain k where "k < length h" "y = h ! k" by (auto simp: in_set_conv_nth)
  moreover have "x = h ! 0" using heap_Pop_contents [OF _ pop] ne by simp
  ultimately show "\<not> lt y x" using root_least [OF inv] by simp
qed

end

end
