(* ===== verification/Job_Queue.thy ===== *)
theory Job_Queue
  imports Job Go_Heap
begin

text \<open>
  The scheduler's queue (\<open>jobberrunner/queue.go\<close>): the search for a job's next run time, and
  the priority queue of jobs ordered by it.

  The queue holds pointers to jobs, and the job manager and the queue change the jobs they
  point to. So jobs live in a store, a map from job names to jobs (a name stands for the
  pointer: the job file has one job object per name), and the queue is a slice of names.
  \<open>Less\<close> dereferences the next run times of two jobs; the queue's invariant says that they are
  there. A job with none would panic in Go; the order puts it last, which no proof relies on.

  \<open>Pop\<close> sleeps on a timer and on the cancellation of its context. What it observes while it
  waits is the argument \<open>events\<close>: timers that fire, each with the time it delivers, and the
  cancellation. No assumption is made on the delivered times. A call that is still waiting
  when the events are used up is \<open>Blocked\<close>.
\<close>

section \<open>The next run time\<close>

text \<open>The search of \<open>nextRunTime\<close>, second by second from \<open>nxt\<close> to \<open>limit\<close>.\<close>

function next_loop :: "(go_time \<Rightarrow> bool outcome) \<Rightarrow> go_time \<Rightarrow> go_time \<Rightarrow> go_time option outcome" where
  "next_loop satisfied nxt limit =
     (if Before nxt limit then
        (case satisfied nxt of
           Ok True \<Rightarrow> Ok (Some nxt)
         | Ok False \<Rightarrow> next_loop satisfied (Add nxt Second_dur) limit
         | Fail e \<Rightarrow> Fail e
         | Panic p \<Rightarrow> Panic p)
      else Ok None)"
  by pat_completeness auto
termination
  by (relation "measure (\<lambda>(satisfied, nxt, limit). nat (limit - nxt))")
     (auto simp: Before_def Add_def Second_dur_def)

declare next_loop.simps [simp del]

definition nextRunTime :: "location \<Rightarrow> Job \<Rightarrow> go_time \<Rightarrow> go_time option outcome" where
  "nextRunTime loc job now =
     (let year = Hour_dur * 24 * 365; limit = Add now (2 * year) in
      next_loop (FullTimeSpec_Satisfied loc (JobTimeSpec job)) now limit)"

section \<open>The queue\<close>

type_synonym jobs = "string \<Rightarrow> Job option"

definition next_of :: "jobs \<Rightarrow> string \<Rightarrow> go_time option" where
  "next_of jobs n = Option.bind (jobs n) NextRunTime"

definition job_less :: "jobs \<Rightarrow> string \<Rightarrow> string \<Rightarrow> bool" where
  "job_less jobs a b =
     (case next_of jobs a of
        None \<Rightarrow> False
      | Some s \<Rightarrow> (case next_of jobs b of None \<Rightarrow> True | Some t \<Rightarrow> Before s t))"

text \<open>\<open>SetJobs\<close>: \<open>names\<close> is the order in which the range over the map of jobs yields its keys.\<close>

fun setJobs_loop ::
    "location \<Rightarrow> go_time \<Rightarrow> string list \<Rightarrow> jobs \<Rightarrow> string list \<Rightarrow> (jobs \<times> string list) outcome" where
  "setJobs_loop loc now [] jobs q = Ok (jobs, q)"
| "setJobs_loop loc now (n # names) jobs q =
     (case jobs n of
        None \<Rightarrow> setJobs_loop loc now names jobs q
      | Some job \<Rightarrow>
          bind_outcome (nextRunTime loc job now) (\<lambda>next.
            let jobs1 = jobs(n \<mapsto> job\<lparr>NextRunTime := next\<rparr>);
                q1 = (if next \<noteq> None then heap_Push (job_less jobs1) n q else q)
            in setJobs_loop loc now names jobs1 q1))"

definition SetJobs :: "location \<Rightarrow> go_time \<Rightarrow> string list \<Rightarrow> jobs \<Rightarrow> (jobs \<times> string list) outcome" where
  "SetJobs loc now names jobs = setJobs_loop loc now names jobs []"

definition Empty :: "string list \<Rightarrow> bool" where
  "Empty q \<longleftrightarrow> length q = 0"

datatype wake = Fired go_time | Cancelled

datatype pop_result =
    Blocked
  | Returned "string option" jobs "string list" go_time "wake list"

text \<open>
  The sleep: \<^term>\<open>None\<close> when it is still waiting, \<open>Inl\<close> when it was cancelled, \<open>Inr\<close> with the
  time when the job is due.
\<close>

fun sleep_till :: "go_time \<Rightarrow> go_time \<Rightarrow> wake list \<Rightarrow> (wake list + (go_time \<times> wake list)) option" where
  "sleep_till next now [] = (if now < next then None else Some (Inr (now, [])))"
| "sleep_till next now (Fired t # es) =
     (if now < next then sleep_till next t es else Some (Inr (now, Fired t # es)))"
| "sleep_till next now (Cancelled # es) =
     (if now < next then Some (Inl es) else Some (Inr (now, Cancelled # es)))"

text \<open>One activation of \<open>Pop\<close>: it returns, or it skips the job and calls itself again.\<close>

datatype pop_step = Done "pop_result outcome" | Skip jobs "string list" go_time "wake list"

definition JobQueue_Pop_body :: "location \<Rightarrow> jobs \<Rightarrow> string list \<Rightarrow> go_time \<Rightarrow> wake list \<Rightarrow> pop_step" where
  "JobQueue_Pop_body loc jobs q now events =
     (if Empty q then
        Done (case dropWhile (\<lambda>e. e \<noteq> Cancelled) events of
                [] \<Rightarrow> Ok Blocked
              | e # es \<Rightarrow> Ok (Returned None jobs q now es))
      else
        let (n, q1) = heap_Pop (job_less jobs) q in
        case jobs n of
          None \<Rightarrow> Done (Panic ''nil pointer dereference'')
        | Some job \<Rightarrow>
          (case NextRunTime job of
             None \<Rightarrow> Done (Panic ''nil pointer dereference'')
           | Some next \<Rightarrow>
             (case sleep_till next now events of
                None \<Rightarrow> Done (Ok Blocked)
              | Some (Inl es) \<Rightarrow>
                  Done (Ok (Returned None jobs (heap_Push (job_less jobs) n q1) now es))
              | Some (Inr (now1, es)) \<Rightarrow>
                (case nextRunTime loc job (Add now1 Second_dur) of
                   Fail e \<Rightarrow> Done (Fail e)
                 | Panic p \<Rightarrow> Done (Panic p)
                 | Ok next1 \<Rightarrow>
                   let job1 = job\<lparr>NextRunTime := next1\<rparr>;
                       jobs1 = jobs(n \<mapsto> job1);
                       q2 = (if next1 \<noteq> None then heap_Push (job_less jobs1) n q1 else q1);
                       jobs2 = jobs1(n \<mapsto> snd (ShouldRun job1))
                   in if fst (ShouldRun job1) then Done (Ok (Returned (Some n) jobs2 q2 now1 es))
                      else Skip jobs2 q2 now1 es))))"

section \<open>Lemmas on the search\<close>

lemma next_loop_spec:
  assumes "\<And>t. satisfied t = Ok (P t)"
  shows "\<exists>r. next_loop satisfied s limit = Ok r \<and>
    (case r of
       Some t \<Rightarrow> \<exists>k. t = s + int k * Second_dur \<and> t < limit \<and> P t \<and> (\<forall>i < k. \<not> P (s + int i * Second_dur))
     | None \<Rightarrow> \<forall>k. s + int k * Second_dur < limit \<longrightarrow> \<not> P (s + int k * Second_dur))"
  using assms
proof (induction satisfied s limit rule: next_loop.induct)
  case (1 satisfied s limit)
  consider "limit \<le> s" | "s < limit" "P s" | "s < limit" "\<not> P s" by linarith
  then show ?case
  proof cases
    case 1
    have "\<not> s + int k * Second_dur < limit" for k
      using 1 by (simp add: Second_dur_def)
    then show ?thesis using 1 by (subst next_loop.simps) (auto simp: Before_def)
  next
    case 2
    then show ?thesis using "1.prems" by (subst next_loop.simps) (auto simp: Before_def intro: exI [of _ 0])
  next
    case 3
    have "satisfied s = Ok False" using "1.prems" [of s] 3 by simp
    then have eq: "next_loop satisfied s limit = next_loop satisfied (Add s Second_dur) limit"
      using 3 by (subst next_loop.simps) (simp add: Before_def)
    obtain r where r: "next_loop satisfied (Add s Second_dur) limit = Ok r"
      and spec: "case r of
        Some t \<Rightarrow> \<exists>k. t = Add s Second_dur + int k * Second_dur \<and> t < limit \<and> P t \<and>
          (\<forall>i < k. \<not> P (Add s Second_dur + int i * Second_dur))
      | None \<Rightarrow> \<forall>k. Add s Second_dur + int k * Second_dur < limit \<longrightarrow>
          \<not> P (Add s Second_dur + int k * Second_dur)"
      using "1.IH" [OF 3(1) [folded Before_def] \<open>satisfied s = Ok False\<close> refl "1.prems"] by (elim exE conjE)
    have shift: "Add s Second_dur + int k * Second_dur = s + int (Suc k) * Second_dur" for k
      by (simp add: Add_def algebra_simps)
    note later = spec [unfolded shift]
    show ?thesis
    proof (cases r)
      case None
      have "\<not> P (s + int k * Second_dur)" if "s + int k * Second_dur < limit" for k
        using that 3(2) later unfolding None by (cases k) (simp_all del: of_nat_Suc)
      then show ?thesis using eq r None by simp
    next
      case (Some t)
      then obtain k where k: "t = s + int (Suc k) * Second_dur" "t < limit" "P t"
          "\<forall>i < k. \<not> P (s + int (Suc i) * Second_dur)"
        using later by (simp del: of_nat_Suc) blast
      have "\<not> P (s + int i * Second_dur)" if "i < Suc k" for i
        using that 3(2) k(4) by (cases i) (simp_all del: of_nat_Suc)
      then show ?thesis using eq r Some k(1-3) by (simp del: of_nat_Suc) blast
    qed
  qed
qed

lemma nextRunTime_ge: "nextRunTime loc job s = Ok (Some t) \<Longrightarrow> s \<le> t"
proof -
  have "next_loop satisfied s limit = Ok (Some t) \<Longrightarrow> s \<le> t" for satisfied limit
  proof (induction satisfied s limit rule: next_loop.induct)
    case (1 satisfied s limit)
    then show ?case
      using next_loop.simps [of satisfied s limit]
      by (fastforce simp: Before_def Add_def Second_dur_def split: if_splits outcome.splits bool.splits)
  qed
  then show "nextRunTime loc job s = Ok (Some t) \<Longrightarrow> s \<le> t"
    by (auto simp: nextRunTime_def Let_def)
qed

text \<open>The two years that the search covers, in seconds.\<close>

definition horizon :: nat where
  "horizon = 63072000"

lemma horizon_pos: "2 < horizon"
  by (simp add: horizon_def)

lemma nextRunTime_search:
  assumes "full_derandomized (JobTimeSpec job)"
  shows "\<exists>r. nextRunTime loc job now = Ok r \<and>
    (case r of
       Some t \<Rightarrow> \<exists>k < horizon. t = now + int k * Second_dur \<and>
         schedule_admits loc (JobTimeSpec job) t \<and>
         (\<forall>i < k. \<not> schedule_admits loc (JobTimeSpec job) (now + int i * Second_dur))
     | None \<Rightarrow> \<forall>k < horizon. \<not> schedule_admits loc (JobTimeSpec job) (now + int k * Second_dur))"
proof -
  have lim: "now + int k * Second_dur < Add now (2 * (Hour_dur * 24 * 365)) \<longleftrightarrow> k < horizon" for k
    by (simp add: Add_def Hour_dur_def Second_dur_def horizon_def)
  obtain r where "nextRunTime loc job now = Ok r"
    and spec: "case r of
       Some t \<Rightarrow> \<exists>k. t = now + int k * Second_dur \<and> t < Add now (2 * (Hour_dur * 24 * 365)) \<and>
         schedule_admits loc (JobTimeSpec job) t \<and>
         (\<forall>i < k. \<not> schedule_admits loc (JobTimeSpec job) (now + int i * Second_dur))
     | None \<Rightarrow> \<forall>k. now + int k * Second_dur < Add now (2 * (Hour_dur * 24 * 365)) \<longrightarrow>
         \<not> schedule_admits loc (JobTimeSpec job) (now + int k * Second_dur)"
    using next_loop_spec [of "FullTimeSpec_Satisfied loc (JobTimeSpec job)"
        "schedule_admits loc (JobTimeSpec job)" now "Add now (2 * (Hour_dur * 24 * 365))"]
      FullTimeSpec_Satisfied_eq [OF assms] by (auto simp: nextRunTime_def Let_def)
  then show ?thesis using lim by (cases r) auto
qed

section \<open>Termination of Pop\<close>

text \<open>The queued jobs whose time has come: each activation that skips a job without waiting removes one.\<close>

definition is_due :: "jobs \<Rightarrow> go_time \<Rightarrow> string \<Rightarrow> bool" where
  "is_due jobs now n \<longleftrightarrow> (case next_of jobs n of Some t \<Rightarrow> t \<le> now | None \<Rightarrow> False)"

definition due :: "jobs \<Rightarrow> go_time \<Rightarrow> string list \<Rightarrow> nat" where
  "due jobs now q = size (filter_mset (is_due jobs now) (mset q))"

lemma sleep_till_Inr:
  "sleep_till nxt now events = Some (Inr (now1, es)) \<Longrightarrow>
   nxt \<le> now1 \<and> (now1 = now \<and> es = events \<or> length es < length events)"
  by (induction nxt now events rule: sleep_till.induct) (auto split: if_splits)

lemma sleep_till_None: "sleep_till nxt now events = None \<Longrightarrow> Cancelled \<notin> set events"
  by (induction nxt now events rule: sleep_till.induct) (auto split: if_splits)

lemma sleep_till_keeps:
  "sleep_till nxt now events = Some (Inr (now1, es)) \<Longrightarrow> Cancelled \<in> set events \<longrightarrow> Cancelled \<in> set es"
  by (induction nxt now events rule: sleep_till.induct) (auto split: if_splits)

lemma sleep_till_Inl: "sleep_till nxt now events = Some (Inl es) \<Longrightarrow> Cancelled \<in> set events"
  by (induction nxt now events rule: sleep_till.induct) (auto split: if_splits)

lemma sleep_till_sub: "sleep_till nxt now events = Some (Inr (now1, es)) \<Longrightarrow> set es \<subseteq> set events"
  by (induction nxt now events rule: sleep_till.induct) (auto split: if_splits)

text \<open>What a skipping activation did.\<close>

lemma JobQueue_Pop_body_Skip:
  assumes "JobQueue_Pop_body loc jobs q now events = Skip jobs2 q2 now1 es"
  obtains n q1 job nxt next1 where
    "q \<noteq> []" "heap_Pop (job_less jobs) q = (n, q1)" "jobs n = Some job" "NextRunTime job = Some nxt"
    "sleep_till nxt now events = Some (Inr (now1, es))"
    "nextRunTime loc job (Add now1 Second_dur) = Ok next1"
    "jobs2 = jobs(n \<mapsto> snd (ShouldRun (job\<lparr>NextRunTime := next1\<rparr>)))"
    "q2 = (if next1 \<noteq> None then heap_Push (job_less (jobs(n \<mapsto> job\<lparr>NextRunTime := next1\<rparr>))) n q1 else q1)"
    "\<not> fst (ShouldRun (job\<lparr>NextRunTime := next1\<rparr>))"
  using assms
  by (auto simp: JobQueue_Pop_body_def Empty_def Let_def
      split: if_splits prod.splits option.splits sum.splits outcome.splits)

lemma next_of_upd:
  "next_of (jobs(n \<mapsto> snd (ShouldRun (job\<lparr>NextRunTime := t\<rparr>)))) m = (if m = n then t else next_of jobs m)"
  "next_of (jobs(n \<mapsto> job\<lparr>NextRunTime := t\<rparr>)) m = (if m = n then t else next_of jobs m)"
  by (auto simp: next_of_def ShouldRun_frame)

lemma due_decreases:
  assumes "JobQueue_Pop_body loc jobs q now events = Skip jobs2 q2 now es"
  shows "due jobs2 now q2 < due jobs now q"
  using assms
proof (rule JobQueue_Pop_body_Skip)
  fix n q1 job nxt next1
  assume q: "q \<noteq> []" "heap_Pop (job_less jobs) q = (n, q1)"
    and job: "jobs n = Some job" "NextRunTime job = Some nxt"
    and sleep: "sleep_till nxt now events = Some (Inr (now, es))"
    and next1: "nextRunTime loc job (Add now Second_dur) = Ok next1"
    and jobs2: "jobs2 = jobs(n \<mapsto> snd (ShouldRun (job\<lparr>NextRunTime := next1\<rparr>)))"
    and q2: "q2 = (if next1 \<noteq> None then heap_Push (job_less (jobs(n \<mapsto> job\<lparr>NextRunTime := next1\<rparr>))) n q1 else q1)"
  have mq: "mset q = add_mset n (mset q1)" using heap_Pop_contents [OF q] by simp
  have was: "is_due jobs now n"
    using sleep_till_Inr [OF sleep] job by (simp add: is_due_def next_of_def)
  have later: "\<not> is_due jobs2 now n"
    using nextRunTime_ge [of loc job "Add now Second_dur"] next1
    by (fastforce simp: is_due_def jobs2 next_of_upd Add_def Second_dur_def split: option.splits)
  have others: "is_due jobs2 now m \<Longrightarrow> is_due jobs now m" for m
    using later by (cases "m = n") (auto simp: is_due_def jobs2 next_of_upd)
  have sub: "filter_mset (is_due jobs2 now) (mset q2) \<subseteq># filter_mset (is_due jobs now) (mset q1)"
  proof -
    have "filter_mset (is_due jobs2 now) (mset q2) = filter_mset (is_due jobs2 now) (mset q1)"
      using later by (auto simp: q2 heap_Push_mset)
    also have "\<dots> \<subseteq># filter_mset (is_due jobs now) (mset q1)"
      using others by (intro filter_mset_mono_strong) auto
    finally show ?thesis .
  qed
  then show ?thesis using size_mset_mono [OF sub] was by (simp add: due_def mq)
qed

function JobQueue_Pop :: "location \<Rightarrow> jobs \<Rightarrow> string list \<Rightarrow> go_time \<Rightarrow> wake list \<Rightarrow> pop_result outcome" where
  "JobQueue_Pop loc jobs q now events =
     (case JobQueue_Pop_body loc jobs q now events of
        Done r \<Rightarrow> r
      | Skip jobs2 q2 now1 es \<Rightarrow> JobQueue_Pop loc jobs2 q2 now1 es)"
  by pat_completeness auto
termination
proof (relation "measures [\<lambda>(loc, jobs, q, now, events). length events,
    \<lambda>(loc, jobs, q, now, events). due jobs now q]", goal_cases)
  case 1
  show ?case by simp
next
  case (2 loc jobs q now events jobs2 q2 now1 es)
  then obtain nxt where "sleep_till nxt now events = Some (Inr (now1, es))"
    by (rule JobQueue_Pop_body_Skip)
  then have "now1 = now \<and> es = events \<or> length es < length events"
    using sleep_till_Inr by blast
  then show ?case using due_decreases [of loc jobs q now events jobs2 q2 es] 2 by auto
qed

declare JobQueue_Pop.simps [simp del]

section \<open>The order of jobs and the invariant of the queue\<close>

interpretation jq: heap_order "job_less jobs" for jobs
  by unfold_locales (auto simp: job_less_def Before_def split: option.splits)

text \<open>
  Every queued job is in the store, has a nxt run time that its schedule admits, and has its
  random values picked; the queue is a heap.
\<close>

definition job_ok :: "location \<Rightarrow> Job \<Rightarrow> bool" where
  "job_ok loc job \<longleftrightarrow> full_derandomized (JobTimeSpec job) \<and>
     (case NextRunTime job of Some t \<Rightarrow> schedule_admits loc (JobTimeSpec job) t | None \<Rightarrow> True)"

definition queue_inv :: "location \<Rightarrow> jobs \<Rightarrow> string list \<Rightarrow> bool" where
  "queue_inv loc jobs q \<longleftrightarrow> is_heap (job_less jobs) q \<and> distinct q \<and>
     (\<forall>n \<in> set q. \<exists>job t. jobs n = Some job \<and> NextRunTime job = Some t \<and> job_ok loc job)"

lemma job_less_cong:
  "next_of jobs a = next_of jobs' a \<Longrightarrow> next_of jobs b = next_of jobs' b \<Longrightarrow>
   job_less jobs a b = job_less jobs' a b"
  by (simp add: job_less_def split: option.split)

lemma heap_upd:
  assumes "is_heap (job_less jobs) q" "n \<notin> set q" "\<And>m. m \<noteq> n \<Longrightarrow> next_of jobs' m = next_of jobs m"
  shows "is_heap (job_less jobs') q"
  using assms is_heap_cong [of q "job_less jobs" "job_less jobs'"]
  by (metis job_less_cong)

lemma nextRunTime_ok:
  assumes "full_derandomized (JobTimeSpec job)"
  obtains nxt where "nextRunTime loc job s = Ok nxt" "job_ok loc (job\<lparr>NextRunTime := nxt\<rparr>)"
    "\<And>t. nxt = Some t \<Longrightarrow> s \<le> t"
  using nextRunTime_search [OF assms, of loc s] assms nextRunTime_ge [of loc job s]
  by (auto simp: job_ok_def split: option.splits)

text \<open>Rescheduling a job that is not in the queue.\<close>

lemma reschedule_inv:
  assumes inv: "queue_inv loc jobs q1" and n: "n \<notin> set q1"
    and job: "job_ok loc (job\<lparr>NextRunTime := nxt\<rparr>)"
    and jobs1: "jobs1 = jobs(n \<mapsto> job\<lparr>NextRunTime := nxt\<rparr>)"
  shows "queue_inv loc jobs1 (if nxt \<noteq> None then heap_Push (job_less jobs1) n q1 else q1)"
proof -
  have h: "is_heap (job_less jobs1) q1"
    using inv n by (auto simp: queue_inv_def jobs1 next_of_upd intro: heap_upd)
  show ?thesis
    using inv n job h jq.heap_Push_heap [OF h] by (auto simp: queue_inv_def jobs1)
qed

lemma ShouldRun_queue_inv:
  assumes "queue_inv loc (jobs(n \<mapsto> job)) q"
  shows "queue_inv loc (jobs(n \<mapsto> snd (ShouldRun job))) q"
proof -
  have "next_of (jobs(n \<mapsto> snd (ShouldRun job))) m = next_of (jobs(n \<mapsto> job)) m" for m
    by (simp add: next_of_def ShouldRun_frame)
  then have "is_heap (job_less (jobs(n \<mapsto> snd (ShouldRun job)))) q"
    using assms is_heap_cong [of q "job_less (jobs(n \<mapsto> job))"] by (metis job_less_cong queue_inv_def)
  then show ?thesis
    using assms by (auto simp: queue_inv_def job_ok_def ShouldRun_frame split: if_splits)
qed

section \<open>Properties\<close>

text \<open>
  C3. The next run time: for a schedule whose random values are picked, the search ends and
  returns the first of the instants \<open>now\<close>, one second later, and so on for two years (365 days
  each) that the schedule admits; it returns nothing exactly when none of them is admitted.
\<close>

theorem nextRunTime_first:
  assumes "full_derandomized (JobTimeSpec job)"
  shows "\<exists>r. nextRunTime loc job now = Ok r \<and>
    (case r of
       Some t \<Rightarrow> \<exists>k < horizon. t = now + int k * Second_dur \<and>
         schedule_admits loc (JobTimeSpec job) t \<and>
         (\<forall>i < k. \<not> schedule_admits loc (JobTimeSpec job) (now + int i * Second_dur))
     | None \<Rightarrow> \<forall>k < horizon. \<not> schedule_admits loc (JobTimeSpec job) (now + int k * Second_dur))"
  by (rule nextRunTime_search [OF assms])

text \<open>Every third second, from midnight of 2016-01-04 in UTC plus one second.\<close>

definition third_second_job :: Job where
  "third_second_job = empty_job\<lparr>JobTimeSpec := (JobTimeSpec empty_job)\<lparr>SecSpec := SetTimeSpec ''*/3'' [0, 3, 6]\<rparr>\<rparr>"

theorem nextRunTime_first_witness:
  "full_derandomized (JobTimeSpec third_second_job) \<and>
   (\<exists>r. nextRunTime (\<lambda>_. 0) third_second_job (1451865601 * Second_dur) = Ok r \<and>
     r = Some (1451865603 * Second_dur))"
proof -
  have d: "full_derandomized (JobTimeSpec third_second_job)"
    by (simp add: third_second_job_def empty_job_def full_derandomized_def)
  have adm: "schedule_admits (\<lambda>_. 0) (JobTimeSpec third_second_job) ((1451865601 + int k) * Second_dur)
      \<longleftrightarrow> k = 2" if "k < 3" for k
    using that by (auto simp: schedule_admits_def third_second_job_def empty_job_def
        Second_of_def wall_sec_def Unix_def Second_dur_def numeral_3_eq_3 less_Suc_eq)
  obtain r where r: "nextRunTime (\<lambda>_. 0) third_second_job (1451865601 * Second_dur) = Ok r"
    and spec: "case r of
       Some t \<Rightarrow> \<exists>k < horizon. t = 1451865601 * Second_dur + int k * Second_dur \<and>
         schedule_admits (\<lambda>_. 0) (JobTimeSpec third_second_job) t \<and>
         (\<forall>i < k. \<not> schedule_admits (\<lambda>_. 0) (JobTimeSpec third_second_job)
             (1451865601 * Second_dur + int i * Second_dur))
     | None \<Rightarrow> \<forall>k < horizon. \<not> schedule_admits (\<lambda>_. 0) (JobTimeSpec third_second_job)
         (1451865601 * Second_dur + int k * Second_dur)"
    using nextRunTime_first [OF d, of "\<lambda>_. 0" "1451865601 * Second_dur"] by blast
  have at: "1451865601 * Second_dur + int k * Second_dur = (1451865601 + int k) * Second_dur" for k
    by (simp add: algebra_simps)
  have "r \<noteq> None"
  proof
    assume "r = None"
    then have "\<forall>k < horizon. \<not> schedule_admits (\<lambda>_. 0) (JobTimeSpec third_second_job) ((1451865601 + int k) * Second_dur)"
      using spec [unfolded at] by simp
    from this [rule_format, OF horizon_pos] show False using adm [of 2] by simp
  qed
  then obtain k where k: "r = Some ((1451865601 + int k) * Second_dur)"
      "schedule_admits (\<lambda>_. 0) (JobTimeSpec third_second_job) ((1451865601 + int k) * Second_dur)"
      "\<forall>i < k. \<not> schedule_admits (\<lambda>_. 0) (JobTimeSpec third_second_job) ((1451865601 + int i) * Second_dur)"
    using spec [unfolded at] by (cases r) (simp, simp only: option.case, blast)
  have "k = 2"
    using k(2) k(3) [rule_format, of 2] adm [of 2] adm [of k] by (cases "k < 3") auto
  then show ?thesis using d r k(1) by simp
qed

text \<open>
  C5. \<open>SetJobs\<close>: for jobs whose random values are picked, in whatever order the map of jobs is
  visited, the call succeeds; the queue satisfies its invariant and holds exactly the jobs that
  have a next run time, once each; and every visited job gets the next run time of its schedule
  and is otherwise unchanged.
\<close>

definition scheduled :: "location \<Rightarrow> go_time \<Rightarrow> Job \<Rightarrow> Job" where
  "scheduled loc now job =
     (case nextRunTime loc job now of Ok t \<Rightarrow> job\<lparr>NextRunTime := t\<rparr> | _ \<Rightarrow> job)"

lemma setJobs_loop_spec:
  assumes "queue_inv loc jobs q" "distinct names" "set names \<inter> set q = {}"
    "\<forall>n \<in> set names. \<exists>job. jobs n = Some job \<and> full_derandomized (JobTimeSpec job)"
  shows "\<exists>jobs' q'. setJobs_loop loc now names jobs q = Ok (jobs', q') \<and> queue_inv loc jobs' q' \<and>
    set q' = set q \<union> {n \<in> set names. next_of jobs' n \<noteq> None} \<and>
    (\<forall>n. jobs' n = (if n \<in> set names then map_option (scheduled loc now) (jobs n) else jobs n))"
  using assms
proof (induction loc now names jobs q rule: setJobs_loop.induct)
  case (1 loc now jobs q)
  then show ?case by simp
next
  case (2 loc now n names jobs q)
  obtain job where job: "jobs n = Some job" "full_derandomized (JobTimeSpec job)"
    using "2.prems"(4) by auto
  obtain t where t: "nextRunTime loc job now = Ok t" "job_ok loc (job\<lparr>NextRunTime := t\<rparr>)"
    using nextRunTime_ok [OF job(2)] by metis
  define jobs1 where "jobs1 = jobs(n \<mapsto> job\<lparr>NextRunTime := t\<rparr>)"
  define q1 where "q1 = (if t \<noteq> None then heap_Push (job_less jobs1) n q else q)"
  have inv: "queue_inv loc jobs1 q1"
    unfolding q1_def using "2.prems" t(2) by (intro reschedule_inv) (auto simp: jobs1_def)
  have eq: "setJobs_loop loc now (n # names) jobs q = setJobs_loop loc now names jobs1 q1"
    using job t by (simp add: jobs1_def q1_def Let_def)
  have s: "set q1 = set q \<union> (if t \<noteq> None then {n} else {})" by (simp add: q1_def)
  have "\<exists>jobs' q'. setJobs_loop loc now names jobs1 q1 = Ok (jobs', q') \<and> queue_inv loc jobs' q' \<and>
      set q' = set q1 \<union> {n \<in> set names. next_of jobs' n \<noteq> None} \<and>
      (\<forall>m. jobs' m = (if m \<in> set names then map_option (scheduled loc now) (jobs1 m) else jobs1 m))"
  proof (rule "2.IH"(2) [OF job(1) jobs1_def q1_def inv])
    show "set names \<inter> set q1 = {}" using "2.prems" s by auto
  qed (use "2.prems" in \<open>auto simp: jobs1_def\<close>)
  then obtain jobs' q' where r: "setJobs_loop loc now names jobs1 q1 = Ok (jobs', q')"
      "queue_inv loc jobs' q'" "set q' = set q1 \<union> {n \<in> set names. next_of jobs' n \<noteq> None}"
      "\<And>m. jobs' m = (if m \<in> set names then map_option (scheduled loc now) (jobs1 m) else jobs1 m)"
    by blast
  have fresh: "n \<notin> set names" using "2.prems"(2) by simp
  have "jobs' n = Some (job\<lparr>NextRunTime := t\<rparr>)" using r(4) [of n] fresh by (simp add: jobs1_def)
  then have "next_of jobs' n = t" by (simp add: next_of_def)
  moreover have "jobs' m = (if m \<in> set (n # names) then map_option (scheduled loc now) (jobs m) else jobs m)" for m
    using r(4) [of m] fresh job t by (auto simp: jobs1_def scheduled_def)
  ultimately show ?case using r(1-3) eq s by auto
qed

theorem SetJobs_spec:
  assumes "distinct names" "\<forall>n \<in> set names. \<exists>job. jobs n = Some job \<and> full_derandomized (JobTimeSpec job)"
  shows "\<exists>jobs' q. SetJobs loc now names jobs = Ok (jobs', q) \<and> queue_inv loc jobs' q \<and>
    set q = {n \<in> set names. next_of jobs' n \<noteq> None} \<and>
    (\<forall>n. jobs' n = (if n \<in> set names then map_option (scheduled loc now) (jobs n) else jobs n))"
  using setJobs_loop_spec [of loc jobs "[]" names now] assms
  by (simp add: SetJobs_def queue_inv_def is_heap_def)

theorem SetJobs_spec_witness:
  "\<exists>jobs' q. SetJobs (\<lambda>_. 0) 0 [''job''] [''job'' \<mapsto> empty_job] = Ok (jobs', q) \<and>
     queue_inv (\<lambda>_. 0) jobs' q \<and> set q = {n \<in> {''job''}. next_of jobs' n \<noteq> None}"
proof -
  have "\<forall>n \<in> set [''job'']. \<exists>job. [''job'' \<mapsto> empty_job] n = Some job \<and> full_derandomized (JobTimeSpec job)"
    by (simp add: empty_job_def full_derandomized_def)
  from SetJobs_spec [OF distinct_singleton this, of "\<lambda>_. 0" 0] obtain jobs' q where
      "SetJobs (\<lambda>_. 0) 0 [''job''] [''job'' \<mapsto> empty_job] = Ok (jobs', q)"
      "queue_inv (\<lambda>_. 0) jobs' q" "set q = {n \<in> set [''job'']. next_of jobs' n \<noteq> None}"
    by (elim exE conjE)
  then show ?thesis by (intro exI [of _ jobs'] exI [of _ q] conjI) (simp_all only: list.set)
qed


text \<open>
  The scheduler's promise on a returned call of \<open>Pop\<close>: the queue's invariant holds, no job is
  added, a job that is returned was due and is not failed, and it stands again in the queue
  exactly when it has a next run time, which is later than the time of the call's end.
\<close>

definition pop_promise :: "location \<Rightarrow> jobs \<Rightarrow> string list \<Rightarrow> pop_result \<Rightarrow> bool" where
  "pop_promise loc jobs q r \<longleftrightarrow>
     (case r of
        Blocked \<Rightarrow> True
      | Returned res jobs' q' now' es \<Rightarrow>
          queue_inv loc jobs' q' \<and> set q' \<subseteq> set q \<and>
          (\<forall>n. n \<notin> set q \<longrightarrow> jobs' n = jobs n) \<and>
          (\<forall>n. res = Some n \<longrightarrow> n \<in> set q \<and>
             (\<exists>job. jobs' n = Some job \<and> Status job \<noteq> JobFailed \<and>
                (n \<in> set q' \<longleftrightarrow> NextRunTime job \<noteq> None) \<and>
                (\<forall>t. NextRunTime job = Some t \<longrightarrow> now' < t))))"

lemma heap_Pop_queue_inv:
  assumes "queue_inv loc jobs q" "q \<noteq> []" "heap_Pop (job_less jobs) q = (n, q1)"
  shows "queue_inv loc jobs q1" "n \<notin> set q1" "set q = insert n (set q1)"
proof -
  have m: "mset q = add_mset n (mset q1)" using heap_Pop_contents [OF assms(2,3)] by simp
  then have d: "distinct (n # q1)" using assms(1) mset_eq_imp_distinct_iff [of q "n # q1"]
    by (simp add: queue_inv_def)
  then show "n \<notin> set q1" by simp
  show s: "set q = insert n (set q1)" using m by (metis set_mset_add_mset_insert set_mset_mset)
  show "queue_inv loc jobs q1"
    using assms d s jq.heap_Pop_heap [OF _ assms(2,3)] by (auto simp: queue_inv_def)
qed

text \<open>One activation of \<open>Pop\<close> keeps the promise, or skips a job and keeps the invariant.\<close>

lemma JobQueue_Pop_body_spec:
  assumes inv: "queue_inv loc jobs q"
  shows "case JobQueue_Pop_body loc jobs q now events of
      Done r \<Rightarrow> \<exists>p. r = Ok p \<and> pop_promise loc jobs q p \<and> (Cancelled \<in> set events \<longrightarrow> p \<noteq> Blocked)
    | Skip jobs2 q2 now1 es \<Rightarrow> queue_inv loc jobs2 q2 \<and> set q2 \<subseteq> set q \<and>
        (\<forall>n. n \<notin> set q \<longrightarrow> jobs2 n = jobs n) \<and> (Cancelled \<in> set events \<longrightarrow> Cancelled \<in> set es)"
proof (cases "q = []")
  case True
  have "Cancelled \<in> set events \<Longrightarrow> dropWhile (\<lambda>e. e \<noteq> Cancelled) events \<noteq> []" by auto
  then show ?thesis using True inv
    by (auto simp: JobQueue_Pop_body_def Empty_def pop_promise_def split: list.splits)
next
  case ne: False
  obtain n q1 where pop: "heap_Pop (job_less jobs) q = (n, q1)" by fastforce
  note q1 = heap_Pop_queue_inv [OF inv ne pop]
  obtain job nxt where job: "jobs n = Some job" "NextRunTime job = Some nxt" "job_ok loc job"
    using inv q1(3) by (auto simp: queue_inv_def)
  have body: "JobQueue_Pop_body loc jobs q now events =
     (case sleep_till nxt now events of
        None \<Rightarrow> Done (Ok Blocked)
      | Some (Inl es) \<Rightarrow> Done (Ok (Returned None jobs (heap_Push (job_less jobs) n q1) now es))
      | Some (Inr (now1, es)) \<Rightarrow>
        (case nextRunTime loc job (Add now1 Second_dur) of
           Fail e \<Rightarrow> Done (Fail e)
         | Panic p \<Rightarrow> Done (Panic p)
         | Ok next1 \<Rightarrow>
           let job1 = job\<lparr>NextRunTime := next1\<rparr>;
               jobs1 = jobs(n \<mapsto> job1);
               q2 = (if next1 \<noteq> None then heap_Push (job_less jobs1) n q1 else q1);
               jobs2 = jobs1(n \<mapsto> snd (ShouldRun job1))
           in if fst (ShouldRun job1) then Done (Ok (Returned (Some n) jobs2 q2 now1 es))
              else Skip jobs2 q2 now1 es))"
    using ne pop job by (simp add: JobQueue_Pop_body_def Empty_def)
  consider (block) "sleep_till nxt now events = None" | (cancel) es where "sleep_till nxt now events = Some (Inl es)"
    | (due) now1 es where "sleep_till nxt now events = Some (Inr (now1, es))"
    by (metis option.exhaust sum.exhaust surj_pair)
  then show ?thesis
  proof cases
    case block
    then have "Cancelled \<notin> set events" by (rule sleep_till_None)
    then show ?thesis using block by (simp add: body pop_promise_def)
  next
    case cancel
    have "queue_inv loc jobs (heap_Push (job_less jobs) n q1)"
      using q1 job jq.heap_Push_heap [of jobs q1 n] by (auto simp: queue_inv_def)
    then show ?thesis using cancel q1 by (simp add: body pop_promise_def)
  next
    case due
    obtain next1 where next1: "nextRunTime loc job (Add now1 Second_dur) = Ok next1"
        "job_ok loc (job\<lparr>NextRunTime := next1\<rparr>)" "\<And>t. next1 = Some t \<Longrightarrow> Add now1 Second_dur \<le> t"
      using nextRunTime_ok job(3) by (metis job_ok_def)
    let ?job1 = "job\<lparr>NextRunTime := next1\<rparr>"
    let ?jobs1 = "jobs(n \<mapsto> ?job1)"
    let ?q2 = "if next1 \<noteq> None then heap_Push (job_less ?jobs1) n q1 else q1"
    have inv2: "queue_inv loc (jobs(n \<mapsto> snd (ShouldRun ?job1))) ?q2"
      using reschedule_inv [OF q1(1,2) next1(2) refl] by (rule ShouldRun_queue_inv)
    have sub: "set ?q2 \<subseteq> set q" "n \<in> set ?q2 \<longleftrightarrow> next1 \<noteq> None" using q1 by auto
    have late: "now1 < t" if "next1 = Some t" for t
      using next1(3) [OF that] by (simp add: Add_def Second_dur_def)
    show ?thesis
    proof (cases "fst (ShouldRun ?job1)")
      case True
      then have "Status (snd (ShouldRun ?job1)) \<noteq> JobFailed"
        by (auto simp: ShouldRun_def Let_def split: JobStatus.splits)
      then have "pop_promise loc jobs q (Returned (Some n) (jobs(n \<mapsto> snd (ShouldRun ?job1))) ?q2 now1 es)"
        using inv2 sub late q1 by (auto simp: pop_promise_def ShouldRun_frame simp del: heap_Push_set)
      then show ?thesis using True due next1(1) by (simp add: body Let_def)
    next
      case False
      have "Cancelled \<in> set events \<longrightarrow> Cancelled \<in> set es" using sleep_till_keeps [OF due] by simp
      then show ?thesis using False due next1(1) inv2 sub q1 by (simp add: body Let_def)
    qed
  qed
qed

lemma pop_promise_trans:
  assumes "pop_promise loc jobs2 q2 p" "set q2 \<subseteq> set q" "\<forall>n. n \<notin> set q \<longrightarrow> jobs2 n = jobs n"
  shows "pop_promise loc jobs q p"
  using assms by (cases p) (auto simp: pop_promise_def)

text \<open>
  C2. \<open>Pop\<close>: on a queue that satisfies its invariant, whatever timers fire and whenever, the call
  never panics and returns no error; it is left waiting only if the context was never
  cancelled; when it returns, the invariant holds, no job was added or changed outside the
  queue, and a returned job is not failed and is queued again, for a time after now, exactly if
  it has one.
\<close>

theorem JobQueue_Pop_spec:
  assumes "queue_inv loc jobs q"
  shows "\<exists>p. JobQueue_Pop loc jobs q now events = Ok p \<and> pop_promise loc jobs q p \<and>
    (Cancelled \<in> set events \<longrightarrow> p \<noteq> Blocked)"
  using assms
proof (induction loc jobs q now events rule: JobQueue_Pop.induct)
  case (1 loc jobs q now events)
  show ?case
  proof (cases "JobQueue_Pop_body loc jobs q now events")
    case (Done r)
    then show ?thesis using JobQueue_Pop_body_spec [OF "1.prems", of events now]
      by (simp add: JobQueue_Pop.simps [of loc jobs q now events])
  next
    case (Skip jobs2 q2 now1 es)
    then have s: "queue_inv loc jobs2 q2" "set q2 \<subseteq> set q" "\<forall>n. n \<notin> set q \<longrightarrow> jobs2 n = jobs n"
        "Cancelled \<in> set events \<longrightarrow> Cancelled \<in> set es"
      using JobQueue_Pop_body_spec [OF "1.prems", of events now] by simp_all
    obtain p where p: "JobQueue_Pop loc jobs2 q2 now1 es = Ok p" "pop_promise loc jobs2 q2 p"
        "Cancelled \<in> set es \<longrightarrow> p \<noteq> Blocked"
      using "1.IH" [OF Skip s(1)] by blast
    then show ?thesis using Skip s pop_promise_trans [OF p(2) s(2,3)]
      by (auto simp: JobQueue_Pop.simps [of loc jobs q now events])
  qed
qed

text \<open>A queue with one job, due at the epoch.\<close>

abbreviation one_job :: jobs where
  "one_job \<equiv> [''job'' \<mapsto> empty_job\<lparr>NextRunTime := Some 0\<rparr>]"

lemma one_job_inv: "queue_inv (\<lambda>_. 0) one_job [''job'']"
  by (simp add: queue_inv_def is_heap_def job_ok_def empty_job_def full_derandomized_def
      schedule_admits_def)

theorem JobQueue_Pop_spec_witness:
  "queue_inv (\<lambda>_. 0) one_job [''job''] \<and>
   (\<exists>p. JobQueue_Pop (\<lambda>_. 0) one_job [''job''] (-5) [Fired (-1), Cancelled] = Ok p \<and>
      pop_promise (\<lambda>_. 0) one_job [''job''] p \<and> p \<noteq> Blocked)"
  using JobQueue_Pop_spec [OF one_job_inv, of "-5" "[Fired (-1), Cancelled]"] one_job_inv
  by (simp only: list.set) blast

text \<open>
  C8. Earliest first: when the job that \<open>heap.Pop\<close> takes is due and is to run now, \<open>Pop\<close> returns it
  without waiting, and no queued job has an earlier next run time.
\<close>

theorem JobQueue_Pop_earliest:
  assumes inv: "queue_inv loc jobs q" and "q \<noteq> []"
    and due: "\<forall>n \<in> set q. \<forall>t. next_of jobs n = Some t \<longrightarrow> t \<le> now"
    and good: "\<forall>n \<in> set q. \<forall>job. jobs n = Some job \<longrightarrow> Status job = JobGood"
  shows "\<exists>n jobs' q'. JobQueue_Pop loc jobs q now events = Ok (Returned (Some n) jobs' q' now events) \<and>
    n \<in> set q \<and> (\<forall>m \<in> set q. \<forall>s t. next_of jobs n = Some s \<longrightarrow> next_of jobs m = Some t \<longrightarrow> s \<le> t)"
proof -
  obtain n q1 where pop: "heap_Pop (job_less jobs) q = (n, q1)" by fastforce
  note q1 = heap_Pop_queue_inv [OF inv assms(2) pop]
  obtain job nxt where job: "jobs n = Some job" "NextRunTime job = Some nxt" "job_ok loc job"
    using inv q1(3) by (auto simp: queue_inv_def)
  have "nxt \<le> now" using due q1(3) job by (auto simp: next_of_def)
  then have sleep: "sleep_till nxt now events = Some (Inr (now, events))"
    by (cases "(nxt, now, events)" rule: sleep_till.cases) auto
  obtain next1 where next1: "nextRunTime loc job (Add now Second_dur) = Ok next1"
    using nextRunTime_ok job(3) by (metis job_ok_def)
  have "Status job = JobGood" using good q1(3) job(1) by auto
  then have "fst (ShouldRun (job\<lparr>NextRunTime := next1\<rparr>))" by (simp add: ShouldRun_def)
  then obtain jobs' q' where
    "JobQueue_Pop loc jobs q now events = Ok (Returned (Some n) jobs' q' now events)"
    using assms(2) pop job sleep next1
    by (simp add: JobQueue_Pop.simps [of loc jobs q now events] JobQueue_Pop_body_def Empty_def Let_def)
  moreover have "s \<le> t" if "m \<in> set q" "next_of jobs n = Some s" "next_of jobs m = Some t" for m s t
    using jq.heap_queue.pop_least [OF _ _ pop, of m] inv that assms(2)
    by (simp add: queue_inv_def job_less_def Before_def)
  ultimately show ?thesis using q1(3) by blast
qed

theorem JobQueue_Pop_earliest_witness:
  "\<exists>n jobs' q'. JobQueue_Pop (\<lambda>_. 0) one_job [''job''] 0 [] = Ok (Returned (Some n) jobs' q' 0 []) \<and>
     n \<in> set [''job'']"
proof -
  have "\<forall>n \<in> set [''job'']. \<forall>t. next_of one_job n = Some t \<longrightarrow> t \<le> 0"
    "\<forall>n \<in> set [''job'']. \<forall>job. one_job n = Some job \<longrightarrow> Status job = JobGood"
    by (simp_all add: next_of_def empty_job_def)
  from JobQueue_Pop_earliest [OF one_job_inv _ this, of "[]"] show ?thesis
    by (simp only: list.distinct not_False_eq_True) blast
qed

end
