(* ===== verification/Run_Log.thy ===== *)
theory Run_Log
  imports Job
begin

text \<open>
  The interface of the run log (\<open>jobfile/run_log.go\<close>): the entry type and the contract that its
  two implementations share, with what the rest of the program can conclude from it.

  The contract speaks of \<open>entries log\<close>, the logged runs with the latest first. A log may forget
  its oldest entries when it takes a new one (\<open>take k\<close>), never others. An implementation may
  accept only some entries (\<open>storable\<close>): a file has fixed-length records.
\<close>

record RunLogEntry =
  JobName :: string
  RunLogTime :: go_time
  Fate :: SubprocFate
  RunResult :: JobStatus
  ExecTime :: duration

text \<open>Several calls in a row, until one fails.\<close>

primrec fold_outcome :: "('a \<Rightarrow> 's \<Rightarrow> 's outcome) \<Rightarrow> 'a list \<Rightarrow> 's \<Rightarrow> 's outcome" where
  "fold_outcome f [] s = Ok s"
| "fold_outcome f (x # xs) s = bind_outcome (f x s) (fold_outcome f xs)"

lemma fold_outcome_snoc: "fold_outcome f (xs @ [x]) s = bind_outcome (fold_outcome f xs s) (f x)"
proof (induction xs arbitrary: s)
  case Nil
  show ?case by (cases "f x s") simp_all
next
  case (Cons a xs)
  then show ?case by (cases "f a s") simp_all
qed

definition latest_first :: "RunLogEntry list \<Rightarrow> bool" where
  "latest_first es \<longleftrightarrow> sorted_wrt (\<lambda>a b. RunLogTime b \<le> RunLogTime a) es"

text \<open>Where the entry goes: after all entries that are not later.\<close>

definition place :: "RunLogEntry \<Rightarrow> RunLogEntry list \<Rightarrow> RunLogEntry list" where
  "place e es = filter (\<lambda>x. RunLogTime x \<le> RunLogTime e) es @ [e] @ filter (\<lambda>x. RunLogTime e < RunLogTime x) es"

lemma place_sorted: "sorted (map RunLogTime es) \<Longrightarrow> sorted (map RunLogTime (place e es))"
  by (auto simp: place_def sorted_append sorted_filter)

lemma place_length [simp]: "length (place e es) = Suc (length es)"
  using sum_length_filter_compl [of "\<lambda>x. RunLogTime x \<le> RunLogTime e" es]
  by (simp add: place_def not_le)

lemma place_append:
  "(\<And>x. x \<in> set xs \<Longrightarrow> RunLogTime x \<le> RunLogTime e) \<Longrightarrow> place e (xs @ ys) = xs @ place e ys"
  "(\<And>y. y \<in> set ys \<Longrightarrow> RunLogTime e < RunLogTime y) \<Longrightarrow> place e (xs @ ys) = place e xs @ ys"
  by (auto simp: place_def filter_id_conv filter_empty_conv not_less not_le)

text \<open>Placing one entry after the other is a stable sort.\<close>

lemma place_sort_key: "place e (sort_key RunLogTime es) = sort_key RunLogTime (es @ [e])"
proof (rule properties_for_sort_key [symmetric])
  show "mset (place e (sort_key RunLogTime es)) = mset (es @ [e])"
    by (simp add: place_def not_le [symmetric])
  show "sorted (map RunLogTime (place e (sort_key RunLogTime es)))"
    by (intro place_sorted sorted_sort_key)
  fix k
  have f: "filter (\<lambda>x. RunLogTime k = RunLogTime x) (sort_key RunLogTime es) = filter (\<lambda>x. RunLogTime k = RunLogTime x) es"
    using sort_key_stable [of RunLogTime "RunLogTime k" es] by (simp add: eq_commute)
  show "filter (\<lambda>x. RunLogTime k = RunLogTime x) (place e (sort_key RunLogTime es)) = filter (\<lambda>x. RunLogTime k = RunLogTime x) (es @ [e])"
  proof -
    have parts: "filter (\<lambda>x. RunLogTime k = RunLogTime x) (filter (\<lambda>x. RunLogTime x \<le> RunLogTime e) xs) =
        (if RunLogTime k \<le> RunLogTime e then filter (\<lambda>x. RunLogTime k = RunLogTime x) xs else [])"
      "filter (\<lambda>x. RunLogTime k = RunLogTime x) (filter (\<lambda>x. RunLogTime e < RunLogTime x) xs) =
        (if RunLogTime k \<le> RunLogTime e then [] else filter (\<lambda>x. RunLogTime k = RunLogTime x) xs)" for xs
      by (induction xs) auto
    show ?thesis unfolding place_def filter_append parts f by simp
  qed
qed

locale run_log =
  fixes put :: "RunLogEntry \<Rightarrow> 'log \<Rightarrow> 'log outcome"
    and get_all :: "'log \<Rightarrow> RunLogEntry list outcome"
    and get_from_index :: "int \<Rightarrow> int option \<Rightarrow> 'log \<Rightarrow> RunLogEntry list outcome"
    and len :: "'log \<Rightarrow> int"
    and inv :: "'log \<Rightarrow> bool"
    and storable :: "RunLogEntry \<Rightarrow> bool"
    and entries :: "'log \<Rightarrow> RunLogEntry list"
  assumes get_all: "inv log \<Longrightarrow> get_all log = Ok (entries log)"
    and len: "inv log \<Longrightarrow> len log = int (length (entries log))"
    and ordered: "inv log \<Longrightarrow> latest_first (entries log)"
    and get_from_index: "inv log \<Longrightarrow> i < length (entries log) \<Longrightarrow> i \<le> j \<Longrightarrow> j \<le> length (entries log) \<Longrightarrow>
      get_from_index (int i) (Some (int j)) log = Ok (take (j - i) (drop i (entries log)))"
    and put_latest: "inv log \<Longrightarrow> storable e \<Longrightarrow>
      (\<And>e'. e' \<in> set (entries log) \<Longrightarrow> RunLogTime e' \<le> RunLogTime e) \<Longrightarrow>
      \<exists>log' k. put e log = Ok log' \<and> inv log' \<and> entries log' = e # take k (entries log)"
begin

text \<open>Runs that are logged in the order they start: the log holds the latest of them.\<close>

lemma put_all:
  assumes "inv log" "\<forall>e \<in> set es. storable e" "latest_first (rev es @ entries log)"
  shows "\<exists>log' k. fold_outcome put es log = Ok log' \<and> inv log' \<and>
    entries log' = take k (rev es @ entries log) \<and> (es \<noteq> [] \<longrightarrow> 0 < k)"
  using assms
proof (induction es arbitrary: log)
  case Nil
  then show ?case by (intro exI [of _ log] exI [of _ "length (entries log)"]) simp
next
  case (Cons e es)
  have late: "RunLogTime e' \<le> RunLogTime e" if "e' \<in> set (entries log)" for e'
    using Cons.prems(3) that by (auto simp: latest_first_def sorted_wrt_append)
  obtain log1 k1 where put: "put e log = Ok log1" "inv log1" "entries log1 = e # take k1 (entries log)"
    using put_latest [OF Cons.prems(1) _ late] Cons.prems(2) by auto
  have "latest_first (rev es @ e # take k1 (entries log))"
    using Cons.prems(3) sorted_wrt_take [of _ "entries log" k1]
    by (auto simp: latest_first_def sorted_wrt_append dest: in_set_takeD)
  then obtain log' k where l: "fold_outcome put es log1 = Ok log'" "inv log'"
      "entries log' = take k (rev es @ entries log1)" "es \<noteq> [] \<longrightarrow> 0 < k"
    using Cons.IH [OF put(2)] Cons.prems(2) put(3) by auto
  have cut: "rev es @ entries log1 = take (length es + Suc k1) (rev (e # es) @ entries log)"
    by (simp add: put(3))
  show ?case
  proof (cases "es = []")
    case True
    then have "entries log' = e # take k1 (entries log)" using l(1) put(1,3) by simp
    then show ?thesis using True put(1) l(1,2) by (intro exI [of _ log'] exI [of _ "Suc k1"]) simp
  next
    case False
    have "entries log' = take (min k (length es + Suc k1)) (rev (e # es) @ entries log)"
      unfolding l(3) cut by (simp only: take_take)
    then show ?thesis using False l put(1)
      by (intro exI [of _ log'] exI [of _ "min k (length es + Suc k1)"]) simp
  qed
qed

text \<open>Reading the log page by page gives the same entries as reading it at once.\<close>

lemma pages:
  assumes "inv log" "i < j" "j < k" "k \<le> length (entries log)"
  shows "\<exists>a b. get_from_index (int i) (Some (int j)) log = Ok a \<and>
    get_from_index (int j) (Some (int k)) log = Ok b \<and>
    get_from_index (int i) (Some (int k)) log = Ok (a @ b)"
proof -
  have "take (k - i) (drop i (entries log)) =
      take (j - i) (drop i (entries log)) @ take (k - j) (drop j (entries log))"
    using assms(2,3) take_add [of "j - i" "k - j" "drop i (entries log)"] by simp
  then show ?thesis
    using assms get_from_index [OF assms(1), of i j] get_from_index [OF assms(1), of j k]
      get_from_index [OF assms(1), of i k] by simp
qed

end

end
