(* ===== verification/Mem_Run_Log.thy ===== *)
theory Mem_Run_Log
  imports Run_Log
begin

text \<open>
  The run log in memory (\<open>jobfile/mem_only_run_log.go\<close>): a slice of entries in ascending order of
  time, whose capacity is the greatest number of entries it keeps. The slice is a list with its
  capacity beside it.

  A slice expression outside the bounds panics, as in Go; sorting is by the source's own swaps.
\<close>

section \<open>Definitions\<close>

record memOnlyRunLog =
  mem_entries :: "RunLogEntry list"
  mem_cap :: int

definition memOnlyRunLog_String :: "memOnlyRunLog \<Rightarrow> string" where
  "memOnlyRunLog_String self = ''MemRunLog{maxLen: '' @ Itoa (mem_cap self) @ ''}''"

definition NewMemOnlyRunLog :: "int \<Rightarrow> memOnlyRunLog outcome" where
  "NewMemOnlyRunLog maxLen =
     (if maxLen \<le> 0 then Panic ''maxLen must be > 0''
      else Ok \<lparr>mem_entries = [], mem_cap = maxLen\<rparr>)"

definition mem_MaxLen :: "memOnlyRunLog \<Rightarrow> int" where
  "mem_MaxLen self = mem_cap self"

text \<open>The loop that moves the new entry, at position \<open>i\<close>, down to its place.\<close>

fun mem_sort_loop :: "go_time \<Rightarrow> RunLogEntry list \<Rightarrow> nat \<Rightarrow> RunLogEntry list" where
  "mem_sort_loop t es 0 = es"
| "mem_sort_loop t es (Suc i) =
     (if Before t (RunLogTime (es ! i))
      then mem_sort_loop t (es[i := es ! Suc i, Suc i := es ! i]) i
      else es)"

definition mem_Put :: "RunLogEntry \<Rightarrow> memOnlyRunLog \<Rightarrow> memOnlyRunLog outcome" where
  "mem_Put newEntry self =
     (let es = mem_entries self;
          add = (\<lambda>es1. let es2 = es1 @ [newEntry] in
                   Ok (self\<lparr>mem_entries := mem_sort_loop (RunLogTime newEntry) es2 (length es2 - 1)\<rparr>))
      in if mem_cap self = 0 then Panic ''Capacity is 0''
         else if int (length es) + 1 > mem_cap self then
           (case es of
              [] \<Rightarrow> Panic ''index out of range''
            | e0 # rest \<Rightarrow>
                if Before (RunLogTime newEntry) (RunLogTime e0) then Ok self else add rest)
         else add es)"

fun reverse_loop :: "RunLogEntry list \<Rightarrow> nat \<Rightarrow> RunLogEntry list" where
  "reverse_loop array 0 = []"
| "reverse_loop array (Suc j) = array ! j # reverse_loop array j"

definition reverseEntryArray :: "RunLogEntry list \<Rightarrow> RunLogEntry list" where
  "reverseEntryArray array = reverse_loop array (length array)"

text \<open>The slice expression \<open>es[i:j]\<close>, for a slice whose capacity is at least its length.\<close>

definition slice :: "'a list \<Rightarrow> int \<Rightarrow> int \<Rightarrow> 'a list outcome" where
  "slice es i j =
     (if 0 \<le> i \<and> i \<le> j \<and> j \<le> int (length es) then Ok (take (nat j - nat i) (drop (nat i) es))
      else Panic ''slice bounds out of range'')"

definition mem_GetFromTime :: "go_time \<Rightarrow> go_time list \<Rightarrow> memOnlyRunLog \<Rightarrow> RunLogEntry list outcome" where
  "mem_GetFromTime maxTime timeArr self =
     (let es = mem_entries self in
      if length timeArr > 1 then Panic ''Too many args.''
      else if length es = 0 then Ok []
      else
        let minTime = (case timeArr of t # _ \<Rightarrow> t | [] \<Rightarrow> Add (RunLogTime (es ! 0)) (- Second_dur)) in
        if Before maxTime minTime then Panic ''maxTime is before minTime''
        else
          let startIdx = Search (length es) (\<lambda>i. \<not> Before (RunLogTime (es ! i)) maxTime) in
          if startIdx = length es then Ok []
          else
            let endIdx = Search (length es) (\<lambda>i. After (RunLogTime (es ! i)) minTime) in
            bind_outcome (slice es (int endIdx) (int startIdx + 1)) (\<lambda>part. Ok (reverseEntryArray part)))"

definition mem_GetFromIndex :: "int \<Rightarrow> int list \<Rightarrow> memOnlyRunLog \<Rightarrow> RunLogEntry list outcome" where
  "mem_GetFromIndex minIdx idxArr self =
     (let es = mem_entries self; n = int (length es) in
      if length idxArr > 1 then Panic ''Too many args.''
      else
        let maxIdx = (case idxArr of j # _ \<Rightarrow> j | [] \<Rightarrow> n) in
        if minIdx > maxIdx then Panic ''minIdx > maxIdx''
        else if minIdx \<ge> n then Panic (''Invalid 'minIdx' index: '' @ Itoa minIdx)
        else if maxIdx > n then Panic (''Invalid 'maxIdx' index: '' @ Itoa maxIdx)
        else
          let actualTo = n - minIdx; actualFrom = n - maxIdx in
          bind_outcome (slice es actualFrom actualTo) (\<lambda>part. Ok (reverseEntryArray part)))"

definition mem_GetAll :: "memOnlyRunLog \<Rightarrow> RunLogEntry list outcome" where
  "mem_GetAll self = Ok (reverseEntryArray (mem_entries self))"

definition mem_Len :: "memOnlyRunLog \<Rightarrow> int" where
  "mem_Len self = int (length (mem_entries self))"

section \<open>The invariant and the order of entries\<close>

definition mem_inv :: "memOnlyRunLog \<Rightarrow> bool" where
  "mem_inv log \<longleftrightarrow> 0 < mem_cap log \<and> int (length (mem_entries log)) \<le> mem_cap log \<and>
     sorted (map RunLogTime (mem_entries log))"

lemma reverseEntryArray_rev [simp]: "reverseEntryArray array = rev array"
proof -
  have "j \<le> length array \<Longrightarrow> reverse_loop array j = rev (take j array)" for j
    by (induction j) (simp_all add: take_Suc_conv_app_nth)
  then show ?thesis by (simp add: reverseEntryArray_def)
qed

lemma mem_sort_loop_append:
  "mem_sort_loop t (es @ e # later) (length es) =
     rev (dropWhile (\<lambda>x. t < RunLogTime x) (rev es)) @ e # rev (takeWhile (\<lambda>x. t < RunLogTime x) (rev es)) @ later"
proof (induction es arbitrary: later rule: rev_induct)
  case Nil
  then show ?case by simp
next
  case (snoc x es)
  then show ?case
    using snoc [of "x # later"]
    by (simp add: Before_def nth_append list_update_append)
qed

lemma sorted_rev_parts:
  assumes "sorted (map RunLogTime es)"
  shows "rev (dropWhile (\<lambda>x. t < RunLogTime x) (rev es)) = filter (\<lambda>x. RunLogTime x \<le> t) es"
    "rev (takeWhile (\<lambda>x. t < RunLogTime x) (rev es)) = filter (\<lambda>x. t < RunLogTime x) es"
  using assms by (induction es rule: rev_induct) 
    (auto simp: sorted_append intro!: filter_True [symmetric] filter_False [symmetric])

lemma mem_sort_loop_place:
  assumes "sorted (map RunLogTime es)"
  shows "mem_sort_loop (RunLogTime e) (es @ [e]) (length es) = place e es"
  using mem_sort_loop_append [of "RunLogTime e" es e "[]"] sorted_rev_parts [OF assms]
  by (simp add: place_def)

lemma mem_Put_eq:
  assumes "mem_inv log"
  shows "mem_Put e log = Ok (log\<lparr>mem_entries :=
    (if int (length (mem_entries log)) < mem_cap log then place e (mem_entries log)
     else if RunLogTime e < RunLogTime (hd (mem_entries log)) then mem_entries log
     else place e (tl (mem_entries log)))\<rparr>)"
proof (cases "int (length (mem_entries log)) < mem_cap log")
  case True
  then show ?thesis
    using assms by (simp add: mem_Put_def mem_inv_def Let_def mem_sort_loop_place)
next
  case False
  then obtain e0 rest where es: "mem_entries log = e0 # rest"
    using assms by (cases "mem_entries log") (auto simp: mem_inv_def)
  then show ?thesis
    using assms False by (auto simp: mem_Put_def mem_inv_def Let_def mem_sort_loop_place Before_def)
qed

lemma mem_Put_inv: "mem_inv log \<Longrightarrow> mem_Put e log = Ok log' \<Longrightarrow> mem_inv log' \<and> mem_cap log' = mem_cap log"
  using mem_Put_eq [of log e]
  by (auto simp: mem_inv_def place_sorted sorted_tl map_tl split: if_splits)

section \<open>The contract of the run log\<close>

definition mem_index_args :: "int option \<Rightarrow> int list" where
  "mem_index_args j = (case j of None \<Rightarrow> [] | Some k \<Rightarrow> [k])"

lemma mem_GetFromIndex_slice:
  assumes "i < length (mem_entries log)" "i \<le> j" "j \<le> length (mem_entries log)"
  shows "mem_GetFromIndex (int i) [int j] log = Ok (take (j - i) (drop i (rev (mem_entries log))))"
proof -
  let ?es = "mem_entries log" and ?n = "length (mem_entries log)"
  have "rev (take (?n - i - (?n - j)) (drop (?n - j) ?es)) = take (j - i) (drop i (rev ?es))"
    using assms by (simp add: rev_take rev_drop drop_take)
  moreover have "nat (int ?n - int i) = ?n - i" "nat (int ?n - int j) = ?n - j" by auto
  ultimately show ?thesis
    using assms by (simp add: mem_GetFromIndex_def slice_def Let_def)
qed

lemma place_latest:
  assumes "\<And>x. x \<in> set es \<Longrightarrow> RunLogTime x \<le> RunLogTime e"
  shows "place e es = es @ [e]"
  using assms by (auto simp: place_def filter_id_conv filter_empty_conv not_less)

interpretation mem_log: run_log mem_Put mem_GetAll "\<lambda>i j. mem_GetFromIndex i (mem_index_args j)"
  mem_Len mem_inv "\<lambda>_. True" "\<lambda>log. rev (mem_entries log)"
proof unfold_locales
  fix log :: memOnlyRunLog
  assume inv: "mem_inv log"
  show "mem_GetAll log = Ok (rev (mem_entries log))" by (simp add: mem_GetAll_def)
  show "mem_Len log = int (length (rev (mem_entries log)))" by (simp add: mem_Len_def)
  show "latest_first (rev (mem_entries log))"
    using inv by (simp add: latest_first_def mem_inv_def sorted_wrt_rev sorted_map)
  show "mem_GetFromIndex (int i) (mem_index_args (Some (int j))) log = Ok (take (j - i) (drop i (rev (mem_entries log))))"
    if "i < length (rev (mem_entries log))" "i \<le> j" "j \<le> length (rev (mem_entries log))" for i j
    using mem_GetFromIndex_slice [of i log j] that by (simp add: mem_index_args_def)
  fix e :: RunLogEntry
  assume late: "\<And>e'. e' \<in> set (rev (mem_entries log)) \<Longrightarrow> RunLogTime e' \<le> RunLogTime e"
  let ?es = "mem_entries log"
  let ?kept = "if int (length ?es) < mem_cap log then ?es else tl ?es"
  have p: "place e ?es = ?es @ [e]" "place e (tl ?es) = tl ?es @ [e]"
    using late by (auto intro!: place_latest dest: in_set_tlD)
  have hd: "\<not> RunLogTime e < RunLogTime (hd ?es)" if "\<not> int (length ?es) < mem_cap log"
    using that inv late [of "hd ?es"] by (cases ?es) (auto simp: mem_inv_def)
  have put: "mem_Put e log = Ok (log\<lparr>mem_entries := ?kept @ [e]\<rparr>)"
    using mem_Put_eq [OF inv, of e] p hd by simp
  have "rev (?kept @ [e]) = e # take (length ?kept) (rev ?es)"
    by (cases ?es) auto
  then show "\<exists>log' k. mem_Put e log = Ok log' \<and> mem_inv log' \<and> rev (mem_entries log') = e # take k (rev (mem_entries log))"
    using put mem_Put_inv [OF inv put]
    by (intro exI [of _ "log\<lparr>mem_entries := ?kept @ [e]\<rparr>"] exI [of _ "length ?kept"]) simp
qed

section \<open>Properties\<close>

text \<open>
  \<open>Put\<close>: on a log that satisfies its invariant the call succeeds and keeps the invariant and
  the capacity; the entry goes after every entry that is not later than it; when the log is
  full its oldest entry is dropped first, and an entry older than all of a full log is ignored.
\<close>

theorem mem_Put_spec:
  assumes "mem_inv log"
  shows "\<exists>log'. mem_Put e log = Ok log' \<and> mem_inv log' \<and> mem_cap log' = mem_cap log \<and>
    (int (length (mem_entries log)) < mem_cap log \<longrightarrow> mem_entries log' = place e (mem_entries log)) \<and>
    (int (length (mem_entries log)) = mem_cap log \<longrightarrow>
       mem_entries log' = (if RunLogTime e < RunLogTime (hd (mem_entries log)) then mem_entries log
                           else place e (tl (mem_entries log))))"
  using mem_Put_eq [OF assms, of e] mem_Put_inv [OF assms, of e] by auto

text \<open>An entry for the examples, and a full log of two entries.\<close>

definition entry_at :: "go_time \<Rightarrow> RunLogEntry" where
  "entry_at t = \<lparr>JobName = ''job'', RunLogTime = t, Fate = SubprocFateSucceeded, RunResult = JobGood, ExecTime = 0\<rparr>"

definition log13 :: memOnlyRunLog where
  "log13 = \<lparr>mem_entries = [entry_at 1, entry_at 3], mem_cap = 2\<rparr>"

lemma log13_inv: "mem_inv log13"
  by (simp add: mem_inv_def log13_def entry_at_def)

theorem mem_Put_spec_witness:
  "mem_inv log13 \<and>
   (\<exists>log'. mem_Put (entry_at 2) log13 = Ok log' \<and> mem_inv log' \<and> mem_entries log' = [entry_at 2, entry_at 3])"
  using mem_Put_spec [OF log13_inv, of "entry_at 2"] log13_inv
  by (auto simp: log13_def entry_at_def place_def)

text \<open>The two binary searches of \<open>GetFromTime\<close>, on entries in ascending order.\<close>

lemma search_times:
  fixes es :: "RunLogEntry list" and t :: go_time
  assumes "sorted (map RunLogTime es)"
  defines "s \<equiv> Search (length es) (\<lambda>i. \<not> Before (RunLogTime (es ! i)) t)"
    and "e \<equiv> Search (length es) (\<lambda>i. After (RunLogTime (es ! i)) t)"
  shows "s \<le> length es" "\<And>i. i < length es \<Longrightarrow> t \<le> RunLogTime (es ! i) \<longleftrightarrow> s \<le> i"
    "e \<le> length es" "\<And>i. i < length es \<Longrightarrow> t < RunLogTime (es ! i) \<longleftrightarrow> e \<le> i"
proof -
  have up: "RunLogTime (es ! i) \<le> RunLogTime (es ! j)" if "i \<le> j" "j < length es" for i j
    using sorted_nth_mono [OF assms(1) that(1)] that by simp
  have m: "mono_on {..<length es} (\<lambda>i. \<not> Before (RunLogTime (es ! i)) t)"
    by (intro mono_onI) (auto simp: Before_def not_less dest: up)
  show "s \<le> length es" unfolding s_def by (rule Search_le [OF m])
  show "t \<le> RunLogTime (es ! i) \<longleftrightarrow> s \<le> i" if "i < length es" for i
    using Search_iff [OF m that] by (simp add: s_def Before_def not_less)
  have m: "mono_on {..<length es} (\<lambda>i. After (RunLogTime (es ! i)) t)"
    by (intro mono_onI) (auto simp: After_def dest: up)
  show "e \<le> length es" unfolding e_def by (rule Search_le [OF m])
  show "t < RunLogTime (es ! i) \<longleftrightarrow> e \<le> i" if "i < length es" for i
    using Search_iff [OF m that] by (simp add: e_def After_def)
qed

text \<open>The slice of \<open>GetFromTime\<close> when the first search finds an entry, at position \<open>s\<close>.\<close>

lemma time_slice:
  fixes es :: "RunLogEntry list"
  assumes "sorted_wrt (<) (map RunLogTime es)" "minTime \<le> maxTime" "s < length es" "e \<le> length es"
    and s: "\<And>i. i < length es \<Longrightarrow> maxTime \<le> RunLogTime (es ! i) \<longleftrightarrow> s \<le> i"
    and e: "\<And>i. i < length es \<Longrightarrow> minTime < RunLogTime (es ! i) \<longleftrightarrow> e \<le> i"
  shows "slice es (int e) (int s + 1) = Ok (filter (\<lambda>x. minTime < RunLogTime x) (take (Suc s) es))"
proof -
  have up: "RunLogTime (es ! i) < RunLogTime (es ! j)" if "i < j" "j < length es" for i j
    using assms(1) that by (simp add: sorted_wrt_iff_nth_less)
  have le: "e \<le> Suc s"
  proof (rule ccontr)
    assume "\<not> e \<le> Suc s"
    then have "RunLogTime (es ! Suc s) \<le> minTime" "Suc s < length es"
      using e [of "Suc s"] assms(4) by auto
    then show False using up [of s "Suc s"] s [of s] assms(2,3) by simp
  qed
  have "filter (\<lambda>x. minTime < RunLogTime x) (take (Suc s) es) = drop e (take (Suc s) es)"
    using le e assms(3) by (intro filter_from(1)) auto
  moreover have "nat (int s + 1) = Suc s" by simp
  ultimately show ?thesis using le assms(3) by (simp add: slice_def drop_take)
qed

text \<open>
  \<open>GetFromTime\<close> with a lower bound, on entries with different times: the call panics when the
  bounds are crossed; it returns nothing when every entry is earlier than \<open>maxTime\<close>; otherwise it
  returns, latest first, the entries later than \<open>minTime\<close> up to and including the first one that
  is not earlier than \<open>maxTime\<close>. If an entry has the time \<open>maxTime\<close>, those are the entries later
  than \<open>minTime\<close> and no later than \<open>maxTime\<close>, which is what the interface promises.
\<close>

theorem mem_GetFromTime_spec:
  assumes "sorted_wrt (<) (map RunLogTime (mem_entries log))" "mem_entries log \<noteq> []"
  defines "es \<equiv> mem_entries log"
  shows "mem_GetFromTime maxTime [minTime] log =
      (if maxTime < minTime then Panic ''maxTime is before minTime''
       else if \<forall>e \<in> set es. RunLogTime e < maxTime then Ok []
       else Ok (rev (filter (\<lambda>e. minTime < RunLogTime e)
              (takeWhile (\<lambda>e. RunLogTime e < maxTime) es @ [hd (dropWhile (\<lambda>e. RunLogTime e < maxTime) es)])))) \<and>
    (maxTime \<in> RunLogTime ` set es \<and> minTime \<le> maxTime \<longrightarrow>
     mem_GetFromTime maxTime [minTime] log =
       Ok (rev (filter (\<lambda>e. minTime < RunLogTime e \<and> RunLogTime e \<le> maxTime) es)))"
proof (intro conjI impI)
  let ?n = "length es"
  define s where "s = Search ?n (\<lambda>i. \<not> Before (RunLogTime (es ! i)) maxTime)"
  define e where "e = Search ?n (\<lambda>i. After (RunLogTime (es ! i)) minTime)"
  have sorted: "sorted (map RunLogTime es)"
    using assms(1) sorted_wrt_mono_rel [of "map RunLogTime es" "(<)" "(\<le>)"] by (simp add: es_def)
  note s = search_times(1,2) [OF sorted, where t = maxTime, folded s_def]
  note e = search_times(3,4) [OF sorted, where t = minTime, folded e_def]
  have get: "mem_GetFromTime maxTime [minTime] log =
      (if maxTime < minTime then Panic ''maxTime is before minTime'' else if s = ?n then Ok []
       else bind_outcome (slice es (int e) (int s + 1)) (\<lambda>part. Ok (rev part)))"
    using assms(2) by (simp add: mem_GetFromTime_def Let_def s_def e_def es_def Before_def [of maxTime minTime])
  have all: "(\<forall>x \<in> set es. RunLogTime x < maxTime) \<longleftrightarrow> s = ?n"
  proof -
    have "(\<forall>x \<in> set es. RunLogTime x < maxTime) \<longleftrightarrow> (\<forall>i < ?n. \<not> s \<le> i)"
      using s(2) by (simp add: all_set_conv_all_nth not_le [symmetric])
    also have "\<dots> \<longleftrightarrow> s = ?n" using s(1) by (cases "s < ?n") auto
    finally show ?thesis .
  qed
  have parts: "takeWhile (\<lambda>x. RunLogTime x < maxTime) es = take s es"
      "dropWhile (\<lambda>x. RunLogTime x < maxTime) es = drop s es"
    using filter_from(3,4) [of s es "\<lambda>x. maxTime \<le> RunLogTime x"] s by (simp_all add: not_le)
  have first: "take s es @ [hd (drop s es)] = take (Suc s) es" if "s \<noteq> ?n"
    using that s(1) by (simp add: hd_drop_conv_nth take_Suc_conv_app_nth)
  show main: "mem_GetFromTime maxTime [minTime] log =
      (if maxTime < minTime then Panic ''maxTime is before minTime''
       else if \<forall>e \<in> set es. RunLogTime e < maxTime then Ok []
       else Ok (rev (filter (\<lambda>e. minTime < RunLogTime e)
              (takeWhile (\<lambda>e. RunLogTime e < maxTime) es @ [hd (dropWhile (\<lambda>e. RunLogTime e < maxTime) es)]))))"
    using time_slice [OF assms(1) [folded es_def] _ _ e(1) s(2) e(2)] s(1)
    unfolding get all parts by (cases "s = ?n") (simp_all add: first not_less)
  assume hit: "maxTime \<in> RunLogTime ` set es \<and> minTime \<le> maxTime"
  then obtain k where k: "k < ?n" "RunLogTime (es ! k) = maxTime" by (auto simp: in_set_conv_nth)
  have up: "RunLogTime (es ! i) < RunLogTime (es ! j)" if "i < j" "j < ?n" for i j
    using assms(1) that unfolding es_def by (simp add: sorted_wrt_iff_nth_less)
  have "s = k" using s(2) [of k] s(2) [of s] up [of s k] k by (cases "s < k") auto
  then have ne: "s \<noteq> ?n" using k by simp
  have "filter (\<lambda>x. \<not> maxTime < RunLogTime x) es = take (Suc s) es"
  proof (rule filter_from(2))
    show "maxTime < RunLogTime (es ! i) \<longleftrightarrow> Suc s \<le> i" if "i < ?n" for i
      using up [of i k] up [of k i] k that \<open>s = k\<close> by (cases i k rule: linorder_cases) auto
  qed (use k \<open>s = k\<close> in simp)
  then have "filter (\<lambda>x. minTime < RunLogTime x) (take (Suc s) es) =
      filter (\<lambda>x. minTime < RunLogTime x) (filter (\<lambda>x. \<not> maxTime < RunLogTime x) es)"
    by simp
  also have "\<dots> = filter (\<lambda>x. minTime < RunLogTime x \<and> RunLogTime x \<le> maxTime) es"
    by (simp only: filter_filter not_less conj_commute)
  finally have "filter (\<lambda>x. minTime < RunLogTime x \<and> RunLogTime x \<le> maxTime) es =
      filter (\<lambda>x. minTime < RunLogTime x) (take (Suc s) es)" ..
  then show "mem_GetFromTime maxTime [minTime] log =
      Ok (rev (filter (\<lambda>e. minTime < RunLogTime e \<and> RunLogTime e \<le> maxTime) es))"
    using main hit ne unfolding all parts first [OF ne] by simp
qed

theorem mem_GetFromTime_spec_witness:
  "mem_GetFromTime 3 [1] log13 = Ok [entry_at 3] \<and> mem_GetFromTime 4 [1] log13 = Ok [] \<and>
   mem_GetFromTime 2 [0] log13 = Ok [entry_at 3, entry_at 1]"
  using mem_GetFromTime_spec [of log13 3 1] mem_GetFromTime_spec [of log13 4 1]
    mem_GetFromTime_spec [of log13 2 0]
  by (simp add: log13_def entry_at_def)

text \<open>
  \<open>Put\<close> in one equation: the entry is placed among the entries, and the capacity is cut off, the
  oldest entries going first.
\<close>

lemma take_rev_place:
  assumes "length es = n"
  shows "take n (rev (place e es)) = (if \<forall>x \<in> set es. RunLogTime e < RunLogTime x then rev es else rev (drop 1 (place e es)))"
proof (cases "\<forall>x \<in> set es. RunLogTime e < RunLogTime x")
  case True
  then have "place e es = [e] @ es" by (auto simp: place_def filter_id_conv filter_empty_conv)
  then show ?thesis using True assms by simp
next
  case False
  then show ?thesis using assms by (auto simp: rev_drop)
qed

lemma mem_Put_take:
  assumes "mem_inv log"
  shows "mem_Put e log = Ok (log\<lparr>mem_entries := rev (take (nat (mem_cap log)) (rev (place e (mem_entries log))))\<rparr>)"
proof (cases "int (length (mem_entries log)) < mem_cap log")
  case True
  then have "take (nat (mem_cap log)) (rev (place e (mem_entries log))) = rev (place e (mem_entries log))" by simp
  then show ?thesis using mem_Put_eq [OF assms, of e] True by simp
next
  case False
  then have n: "length (mem_entries log) = nat (mem_cap log)" using assms by (auto simp: mem_inv_def)
  obtain e0 rest where es: "mem_entries log = e0 # rest"
    using assms False by (cases "mem_entries log") (auto simp: mem_inv_def)
  have sorted: "\<forall>x \<in> set rest. RunLogTime e0 \<le> RunLogTime x" using assms es by (simp add: mem_inv_def)
  show ?thesis
  proof (cases "RunLogTime e < RunLogTime e0")
    case True
    then show ?thesis
      using mem_Put_eq [OF assms, of e] False take_rev_place [OF n, of e] sorted es by auto
  next
    case older: False
    then have "place e (e0 # rest) = e0 # place e rest" using place_append(1) [of "[e0]" e rest] by simp
    then show ?thesis
      using mem_Put_eq [OF assms, of e] False older take_rev_place [OF n, of e] es by simp
  qed
qed

lemma take_place_take:
  assumes "sorted (map RunLogTime es)"
  shows "take n (rev (place e (rev (take n (rev es))))) = take n (rev (place e es))"
proof -
  define old latest where "old = take (length es - n) es" and "latest = drop (length es - n) es"
  have es: "es = old @ latest" and l: "rev (take n (rev es)) = latest"
    by (simp_all add: old_def latest_def rev_take)
  have n: "old \<noteq> [] \<Longrightarrow> length latest = n" by (auto simp: old_def latest_def)
  have le: "RunLogTime x \<le> RunLogTime y" if "x \<in> set old" "y \<in> set latest" for x y
    using assms that unfolding es by (auto simp: sorted_append)
  show ?thesis
  proof (cases "\<forall>x \<in> set old. RunLogTime x \<le> RunLogTime e")
    case True
    then have "place e es = old @ place e latest" unfolding es by (intro place_append(1)) simp
    then show ?thesis using n unfolding l by (cases "old = []") simp_all
  next
    case False
    then have later: "RunLogTime e < RunLogTime y" if "y \<in> set latest" for y using le that by fastforce
    then have "place e es = place e old @ latest" "place e latest = [e] @ latest"
      using place_append(2) [of latest e old] place_append(2) [of latest e "[]"] unfolding es by (simp_all add: place_def)
    moreover have "old \<noteq> []" using False by auto
    ultimately show ?thesis using n unfolding l by simp
  qed
qed

lemma mem_puts:
  assumes "mem_inv log" "mem_entries log = []"
  shows "\<exists>log'. fold_outcome mem_Put es log = Ok log' \<and> mem_inv log' \<and> mem_cap log' = mem_cap log \<and>
    rev (mem_entries log') = take (nat (mem_cap log)) (rev (sort_key RunLogTime es))"
proof (induction es rule: rev_induct)
  case Nil
  then show ?case using assms by simp
next
  case (snoc e es)
  then obtain log1 where l: "fold_outcome mem_Put es log = Ok log1" "mem_inv log1" "mem_cap log1 = mem_cap log"
      "rev (mem_entries log1) = take (nat (mem_cap log)) (rev (sort_key RunLogTime es))" by blast
  then have m: "mem_entries log1 = rev (take (nat (mem_cap log)) (rev (sort_key RunLogTime es)))"
    by (metis rev_rev_ident)
  obtain log' where put: "mem_Put e log1 = Ok log'" "mem_entries log' = rev (take (nat (mem_cap log)) (rev (place e (mem_entries log1))))"
    using mem_Put_take [OF l(2), of e] l(3) by simp
  have "rev (mem_entries log') = take (nat (mem_cap log)) (rev (place e (sort_key RunLogTime es)))"
    unfolding put(2) m by (simp only: rev_rev_ident take_place_take [OF sorted_sort_key])
  then show ?case
    using mem_Put_inv [OF l(2) put(1)] put(1) l(1,3) by (simp add: fold_outcome_snoc place_sort_key)
qed

text \<open>
  C15. The log in memory is the latest runs: entries put in any order into a fresh log of capacity
  n are all accepted, and reading the log gives the n latest of them, latest first, where of two with
  the same time the one put last counts as later; so if they were put in the order of their times,
  the last n that were put, in reverse order. Reading the log in two consecutive index ranges gives the two
  parts of one range.
\<close>

theorem mem_log_recent:
  assumes "NewMemOnlyRunLog n = Ok log"
  shows "\<exists>log'. fold_outcome mem_Put es log = Ok log' \<and> mem_inv log' \<and> mem_MaxLen log' = n \<and>
    mem_GetAll log' = Ok (take (nat n) (rev (sort_key RunLogTime es))) \<and>
    (sorted (map RunLogTime es) \<longrightarrow> mem_GetAll log' = Ok (take (nat n) (rev es))) \<and>
    mem_Len log' = min n (int (length es)) \<and>
    (\<forall>i j l. i < j \<and> j < l \<and> int l \<le> mem_Len log' \<longrightarrow>
      (\<exists>a b. mem_GetFromIndex (int i) [int j] log' = Ok a \<and> mem_GetFromIndex (int j) [int l] log' = Ok b \<and>
         mem_GetFromIndex (int i) [int l] log' = Ok (a @ b)))"
proof -
  have log: "mem_inv log" "mem_entries log = []" "mem_cap log = n" "0 < n"
    using assms(1) by (auto simp: NewMemOnlyRunLog_def mem_inv_def split: if_splits)
  obtain log' where l: "fold_outcome mem_Put es log = Ok log'" "mem_inv log'" "mem_cap log' = n"
      "rev (mem_entries log') = take (nat n) (rev (sort_key RunLogTime es))"
    using mem_puts [OF log(1,2), of es] log(3) by auto
  have "\<exists>a b. mem_GetFromIndex (int i) [int j] log' = Ok a \<and> mem_GetFromIndex (int j) [int l] log' = Ok b \<and>
         mem_GetFromIndex (int i) [int l] log' = Ok (a @ b)"
    if "i < j \<and> j < l \<and> int l \<le> mem_Len log'" for i j l
    using mem_log.pages [OF l(2), of i j l] that by (simp add: mem_index_args_def mem_Len_def)
  moreover have "sort_key RunLogTime es = es" if "sorted (map RunLogTime es)"
    using properties_for_sort_key [of es es RunLogTime] that by simp
  moreover have "length (mem_entries log') = min (nat n) (length es)"
    using arg_cong [OF l(4), of length] by (simp add: min.commute)
  then have "mem_Len log' = min n (int (length es))" using log(4) by (simp add: mem_Len_def)
  ultimately show ?thesis
    using l by (intro exI [of _ log']) (simp add: mem_GetAll_def mem_MaxLen_def)
qed

theorem mem_log_recent_witness:
  "\<exists>log'. fold_outcome mem_Put [entry_at 3, entry_at 1, entry_at 2] \<lparr>mem_entries = [], mem_cap = 2\<rparr> = Ok log' \<and>
     mem_GetAll log' = Ok [entry_at 3, entry_at 2]"
proof -
  have n: "NewMemOnlyRunLog 2 = Ok \<lparr>mem_entries = [], mem_cap = 2\<rparr>" by (simp add: NewMemOnlyRunLog_def)
  have "sort_key RunLogTime [entry_at 3, entry_at 1, entry_at 2] = [entry_at 1, entry_at 2, entry_at 3]"
    by (simp add: entry_at_def)
  then show ?thesis using mem_log_recent [OF n, of "[entry_at 3, entry_at 1, entry_at 2]"] by auto
qed

end
