(* ===== verification/Go_Duration.thy ===== *)
theory Go_Duration
  imports Go_Time
begin

text \<open>
  The text form of a \<open>time.Duration\<close>: \<open>Duration.String\<close> and \<open>time.ParseDuration\<close>, which the file
  run log stores and reads.

  A fraction's value is the exact quotient rounded down. Go computes it in floating point, which
  is exact whenever the power of ten of the fraction's digits divides the unit, and so on every
  text that \<open>Duration.String\<close> makes.
\<close>

section \<open>Printing\<close>

text \<open>\<open>fmtFrac\<close>: the digits of the last \<open>prec\<close> places of \<open>v\<close> without trailing zeros, and the rest.\<close>

fun fmtFrac_loop :: "nat \<Rightarrow> nat \<Rightarrow> bool \<Rightarrow> string \<Rightarrow> nat \<times> string" where
  "fmtFrac_loop 0 v print buf = (v, if print then ''.'' @ buf else buf)"
| "fmtFrac_loop (Suc i) v print buf =
     (let digit = v mod 10; print1 = (print \<or> digit \<noteq> 0) in
      fmtFrac_loop i (v div 10) print1 (if print1 then digit_char digit # buf else buf))"

lemma fmtFrac_loop_numeral [simp]:
  "fmtFrac_loop (numeral k) v print buf =
     (let digit = v mod 10; print1 = (print \<or> digit \<noteq> 0) in
      fmtFrac_loop (pred_numeral k) (v div 10) print1 (if print1 then digit_char digit # buf else buf))"
  by (simp only: numeral_eq_Suc [of k] fmtFrac_loop.simps)

definition fmtFrac :: "nat \<Rightarrow> nat \<Rightarrow> nat \<times> string" where
  "fmtFrac v prec = fmtFrac_loop prec v False []"

definition micro_unit :: string where
  "micro_unit = [CHR 0xC2, CHR 0xB5, CHR ''s'']"

definition duration_units :: "nat \<Rightarrow> string" where
  "duration_units u =
     (if u < 10 ^ 9 then
        (if u = 0 then ''0s''
         else if u < 10 ^ 3 then nat_str u @ ''ns''
         else if u < 10 ^ 6 then (case fmtFrac u 3 of (v, frac) \<Rightarrow> nat_str v @ frac @ micro_unit)
         else (case fmtFrac u 6 of (v, frac) \<Rightarrow> nat_str v @ frac @ ''ms''))
      else
        case fmtFrac u 9 of (secs, frac) \<Rightarrow>
          let mins = secs div 60; hours = mins div 60;
              s = nat_str (secs mod 60) @ frac @ ''s''
          in if mins = 0 then s
             else if hours = 0 then nat_str (mins mod 60) @ ''m'' @ s
             else nat_str hours @ ''h'' @ nat_str (mins mod 60) @ ''m'' @ s)"

definition Duration_String :: "duration \<Rightarrow> string" where
  "Duration_String d = (if d < 0 then ''-'' @ duration_units (nat (- d)) else duration_units (nat d))"

section \<open>Reading\<close>

definition unitMap :: "string \<Rightarrow> nat option" where
  "unitMap u =
     (if u = ''ns'' then Some 1
      else if u = ''us'' \<or> u = micro_unit \<or> u = [CHR 0xCE, CHR 0xBC, CHR ''s''] then Some (10 ^ 3)
      else if u = ''ms'' then Some (10 ^ 6)
      else if u = ''s'' then Some (10 ^ 9)
      else if u = ''m'' then Some (60 * 10 ^ 9)
      else if u = ''h'' then Some (3600 * 10 ^ 9)
      else None)"

definition maxInt64 :: nat where
  "maxInt64 = 2 ^ 63 - 1"

text \<open>\<open>leadingFraction\<close>: digits that no longer fit are skipped.\<close>

fun fraction_loop :: "string \<Rightarrow> nat \<Rightarrow> nat \<Rightarrow> nat \<times> nat" where
  "fraction_loop [] f scale = (f, scale)"
| "fraction_loop (c # cs) f scale =
     (if f > maxInt64 div 10 \<or> f * 10 + digit_val c > maxInt64 then (f, scale)
      else fraction_loop cs (f * 10 + digit_val c) (scale * 10))"

definition not_unit :: "char \<Rightarrow> bool" where
  "not_unit c \<longleftrightarrow> c = CHR ''.'' \<or> is_digit c"

definition duration_error :: "string \<Rightarrow> error" where
  "duration_error orig = Errno (''time: invalid duration '' @ orig)"

text \<open>One round of the loop: a number, a fraction and a unit; the rest of the text.\<close>

definition duration_part :: "string \<Rightarrow> nat \<Rightarrow> (nat \<times> string) option" where
  "duration_part s d =
     (if s = [] \<or> \<not> not_unit (hd s) then None
      else
        let ints = takeWhile is_digit s; s1 = dropWhile is_digit s;
            dot = (s1 \<noteq> [] \<and> hd s1 = CHR ''.'');
            fracs = (if dot then takeWhile is_digit (tl s1) else []);
            s2 = (if dot then dropWhile is_digit (tl s1) else s1);
            u = takeWhile (\<lambda>c. \<not> not_unit c) s2; s3 = dropWhile (\<lambda>c. \<not> not_unit c) s2
        in if digits_val ints > maxInt64 then None
           else if ints = [] \<and> fracs = [] then None
           else
             case unitMap u of
               None \<Rightarrow> None
             | Some unit \<Rightarrow>
                 if digits_val ints > maxInt64 div unit then None
                 else
                   let (f, scale) = fraction_loop fracs 0 1;
                       d1 = d + digits_val ints * unit + f * unit div scale
                   in if d1 > maxInt64 then None else Some (d1, s3))"

lemma duration_part_shorter: "duration_part s d = Some (d1, s1) \<Longrightarrow> length s1 < length s"
proof -
  assume part: "duration_part s d = Some (d1, s1)"
  define a where "a = dropWhile is_digit s"
  define b where "b = (if a \<noteq> [] \<and> hd a = CHR ''.'' then dropWhile is_digit (tl a) else a)"
  have "length a \<le> length s" by (simp add: a_def length_dropWhile_le)
  moreover have "length b \<le> length a"
    using length_dropWhile_le [of is_digit "tl a"] by (auto simp: b_def)
  moreover have "s1 = dropWhile (\<lambda>c. \<not> not_unit c) b" "unitMap (takeWhile (\<lambda>c. \<not> not_unit c) b) \<noteq> None"
    using part
    by (auto simp: duration_part_def Let_def a_def b_def split: if_splits option.splits prod.splits)
  moreover from this(2) have "takeWhile (\<lambda>c. \<not> not_unit c) b \<noteq> []"
    by (auto simp: unitMap_def micro_unit_def)
  ultimately show ?thesis
    using arg_cong [OF takeWhile_dropWhile_id [of "\<lambda>c. \<not> not_unit c" b], of length]
    by (cases "takeWhile (\<lambda>c. \<not> not_unit c) b") auto
qed

function duration_loop :: "string \<Rightarrow> nat \<Rightarrow> nat option" where
  "duration_loop s d =
     (if s = [] then Some d
      else case duration_part s d of None \<Rightarrow> None | Some (d1, s1) \<Rightarrow> duration_loop s1 d1)"
  by pat_completeness auto
termination
  by (relation "measure (\<lambda>(s, d). length s)") (auto dest: duration_part_shorter)

declare duration_loop.simps [simp del]

definition ParseDuration :: "string \<Rightarrow> duration outcome" where
  "ParseDuration orig =
     (let signed = (orig \<noteq> [] \<and> (hd orig = CHR ''-'' \<or> hd orig = CHR ''+''));
          neg = (orig \<noteq> [] \<and> hd orig = CHR ''-'');
          s = (if signed then tl orig else orig)
      in if s = ''0'' then Ok 0
         else if s = [] then Fail (duration_error orig)
         else case duration_loop s 0 of
             None \<Rightarrow> Fail (duration_error orig)
           | Some d \<Rightarrow> Ok (if neg then - int d else int d))"

section \<open>Round trip\<close>

text \<open>The last \<open>n\<close> decimal digits of a number.\<close>

primrec pad :: "nat \<Rightarrow> nat \<Rightarrow> string" where
  "pad 0 v = []"
| "pad (Suc n) v = pad n (v div 10) @ [digit_char (v mod 10)]"

lemma mod_power_Suc: "(v::nat) mod 10 ^ Suc n = 10 * ((v div 10) mod 10 ^ n) + v mod 10"
  by (simp add: mod_mult2_eq)

lemma pad_spec: "length (pad n v) = n \<and> list_all is_digit (pad n v) \<and> digits_val (pad n v) = v mod 10 ^ n"
  by (induction n arbitrary: v) (simp_all add: digits_val_def mod_power_Suc del: power_Suc)

lemma fmtFrac_loop_print: "fmtFrac_loop n v True buf = (v div 10 ^ n, ''.'' @ pad n v @ buf)"
  by (induction n arbitrary: v buf) (simp_all add: Let_def div_mult2_eq)

lemma fmtFrac_loop_spec:
  "\<exists>ds. fmtFrac_loop n v False [] = (v div 10 ^ n, if ds = [] then [] else CHR ''.'' # ds) \<and>
     list_all is_digit ds \<and> length ds \<le> n \<and> digits_val ds * 10 ^ (n - length ds) = v mod 10 ^ n"
proof (induction n arbitrary: v)
  case 0
  then show ?case by (intro exI [of _ "[]"]) (simp add: digits_val_def)
next
  case (Suc n)
  show ?case
  proof (cases "v mod 10 = 0")
    case True
    obtain ds where ds: "fmtFrac_loop n (v div 10) False [] = (v div 10 div 10 ^ n, if ds = [] then [] else CHR ''.'' # ds)"
        "list_all is_digit ds" "length ds \<le> n" "digits_val ds * 10 ^ (n - length ds) = v div 10 mod 10 ^ n"
      using Suc.IH [of "v div 10"] by blast
    have "digits_val ds * 10 ^ (Suc n - length ds) = v mod 10 ^ Suc n"
      using ds(3,4) True by (simp add: mod_power_Suc Suc_diff_le del: power_Suc) simp
    then show ?thesis using ds True by (intro exI [of _ ds]) (simp add: Let_def div_mult2_eq)
  next
    case False
    then have "fmtFrac_loop (Suc n) v False [] = (v div 10 ^ Suc n, CHR ''.'' # pad (Suc n) v)"
      by (simp add: Let_def fmtFrac_loop_print div_mult2_eq)
    then show ?thesis using pad_spec [of "Suc n" v]
      by (intro exI [of _ "pad (Suc n) v"]) (simp del: pad.simps fmtFrac_loop.simps add: length_0_conv [symmetric] del: length_0_conv)
  qed
qed

lemma digits_val_bound: "list_all is_digit ds \<Longrightarrow> digits_val ds < 10 ^ length ds"
proof (induction ds rule: rev_induct)
  case Nil
  then show ?case by (simp add: digits_val_def)
next
  case (snoc c ds)
  then have "digit_val c < 10" by (auto simp: is_digit_def digit_val_def)
  then show ?case using snoc by (simp add: digits_val_def)
qed

lemma fraction_loop_exact:
  assumes "foldl (\<lambda>n c. n * 10 + digit_val c) f ds \<le> maxInt64"
  shows "fraction_loop ds f scale = (foldl (\<lambda>n c. n * 10 + digit_val c) f ds, scale * 10 ^ length ds)"
  using assms
proof (induction ds f scale rule: fraction_loop.induct)
  case (1 f scale)
  then show ?case by simp
next
  case (2 c cs f scale)
  have grows: "m \<le> foldl (\<lambda>n c. n * 10 + digit_val c) m xs" for m xs
  proof (induction xs arbitrary: m)
    case (Cons x xs)
    show ?case using Cons [of "m * 10 + digit_val x"] by simp
  qed simp
  have "f * 10 + digit_val c \<le> maxInt64" using grows [of "f * 10 + digit_val c" cs] "2.prems" by simp
  then have no: "\<not> (f > maxInt64 div 10 \<or> f * 10 + digit_val c > maxInt64)"
    by (auto simp: not_less less_eq_div_iff_mult_less_eq)
  then show ?case using 2 by (simp add: algebra_simps)
qed

lemma takeWhile_prefix:
  assumes "\<forall>x \<in> set xs. P x" "ys = [] \<or> \<not> P (hd ys)"
  shows "takeWhile P (xs @ ys) = xs" "dropWhile P (xs @ ys) = ys"
  using assms by (cases ys; simp add: takeWhile_append2 dropWhile_append2)+

text \<open>Reading one part of a duration.\<close>

lemma duration_part_eq:
  assumes u: "u \<noteq> []" "\<forall>c \<in> set u. \<not> not_unit c" "unitMap u = Some unit" "0 < unit"
    and ds: "list_all is_digit ds" "length ds \<le> 9"
    and rest: "rest = [] \<or> is_digit (hd rest)"
    and bound: "d + v * unit + digits_val ds * unit div 10 ^ length ds \<le> maxInt64"
  shows "duration_part (nat_str v @ (if ds = [] then [] else CHR ''.'' # ds) @ u @ rest) d =
    Some (d + v * unit + digits_val ds * unit div 10 ^ length ds, rest)"
proof -
  have v: "\<forall>c \<in> set (nat_str v). is_digit c" using nat_str_digits [of v] by (simp add: list_all_iff)
  have hdu: "\<not> is_digit (hd u)" "hd u \<noteq> CHR ''.''" using u(1,2) hd_in_set [of u] by (auto simp: not_unit_def)
  let ?tail = "(if ds = [] then [] else CHR ''.'' # ds) @ u @ rest"
  have tail: "?tail \<noteq> []" "\<not> is_digit (hd ?tail)" using u(1) hdu dot_not_digit by (auto simp: hd_append)
  have ints: "takeWhile is_digit (nat_str v @ ?tail) = nat_str v" "dropWhile is_digit (nat_str v @ ?tail) = ?tail"
    using takeWhile_prefix [of "nat_str v" is_digit ?tail] v tail by auto
  have dot: "?tail \<noteq> [] \<and> hd ?tail = CHR ''.'' \<longleftrightarrow> ds \<noteq> []" using u(1) hdu by (auto simp: hd_append)
  have fracs: "takeWhile is_digit (tl ?tail) = ds" "dropWhile is_digit (tl ?tail) = u @ rest" if "ds \<noteq> []"
    using takeWhile_prefix [of ds is_digit "u @ rest"] ds(1) u(1) hdu that by (auto simp: list_all_iff)
  have unit: "takeWhile (\<lambda>c. \<not> not_unit c) (u @ rest) = u" "dropWhile (\<lambda>c. \<not> not_unit c) (u @ rest) = rest"
    using takeWhile_prefix [of u "\<lambda>c. \<not> not_unit c" rest] u(2) rest by (auto simp: not_unit_def)
  have "(10::nat) ^ length ds \<le> 10 ^ 9" using ds(2) by (intro power_increasing) auto
  then have "digits_val ds \<le> maxInt64" using digits_val_bound [OF ds(1)] by (simp add: maxInt64_def)
  then have frac: "fraction_loop ds 0 1 = (digits_val ds, 10 ^ length ds)"
    using fraction_loop_exact [of 0 ds 1] by (simp add: digits_val_def)
  have small: "v \<le> maxInt64" "\<not> v > maxInt64 div unit"
  proof -
    have le: "v * unit \<le> maxInt64" using bound by simp
    then show "\<not> v > maxInt64 div unit" using u(4) by (simp add: not_less less_eq_div_iff_mult_less_eq)
    have "v \<le> v * unit" using u(4) by (cases unit) auto
    then show "v \<le> maxInt64" using le by (rule order_trans)
  qed
  have head: "nat_str v @ ?tail \<noteq> []" "not_unit (hd (nat_str v @ ?tail))"
    using hd_nat_str_digit [of v] by (auto simp: not_unit_def)
  show ?thesis
    unfolding duration_part_def Let_def ints dot
    using head small bound fracs unit frac u(3) ds by (cases "ds = []") (auto simp: not_less)
qed


text \<open>The part of a duration that \<open>fmtFrac\<close> prints, read back.\<close>

lemma duration_part_frac:
  assumes "u \<noteq> []" "\<forall>c \<in> set u. \<not> not_unit c" "unitMap u = Some (10 ^ n)" "n \<le> 9"
    and rest: "rest = [] \<or> is_digit (hd rest)" and bound: "d + v \<le> maxInt64"
    and frac: "fmtFrac w n = (w1, frac)" "w mod 10 ^ n = v mod 10 ^ n"
  shows "duration_part (nat_str (v div 10 ^ n) @ frac @ u @ rest) d = Some (d + v, rest)"
proof -
  obtain ds where ds: "frac = (if ds = [] then [] else CHR ''.'' # ds)" "list_all is_digit ds" "length ds \<le> n"
      "digits_val ds * 10 ^ (n - length ds) = v mod 10 ^ n"
    using fmtFrac_loop_spec [of n w] frac by (auto simp: fmtFrac_def)
  have "digits_val ds * 10 ^ n div 10 ^ length ds = digits_val ds * 10 ^ (n - length ds)"
  proof -
    have "(10::nat) ^ n = 10 ^ (n - length ds) * 10 ^ length ds"
      using ds(3) by (simp flip: power_add)
    then show ?thesis by (simp flip: mult.assoc)
  qed
  then have val: "digits_val ds * 10 ^ n div 10 ^ length ds = v mod 10 ^ n" using ds(4) by simp
  have "v div 10 ^ n * 10 ^ n + v mod 10 ^ n = v" by (rule div_mult_mod_eq)
  then have sum: "d + v div 10 ^ n * 10 ^ n + digits_val ds * 10 ^ n div 10 ^ length ds = d + v"
    unfolding val by (simp only: add.assoc)
  then show ?thesis
    using duration_part_eq [OF assms(1-3) _ ds(2) _ rest, of d "v div 10 ^ n"] assms(4) ds(1,3) bound
    by simp
qed


lemma not_unit_simps [simp]:
  "\<not> not_unit CHR ''s''" "\<not> not_unit CHR ''m''" "\<not> not_unit CHR ''h''" "\<not> not_unit CHR ''n''"
  "\<not> not_unit CHR 0xC2" "\<not> not_unit CHR 0xB5"
  by (simp_all add: not_unit_def is_digit_def)

lemma unitMap_simps [simp]:
  "unitMap ''ns'' = Some 1" "unitMap micro_unit = Some (10 ^ 3)" "unitMap ''ms'' = Some (10 ^ 6)"
  "unitMap ''s'' = Some (10 ^ 9)" "unitMap ''m'' = Some (60 * 10 ^ 9)" "unitMap ''h'' = Some (3600 * 10 ^ 9)"
  by (simp_all add: unitMap_def micro_unit_def)

lemma fmtFrac_fst: "fmtFrac v n = (w, frac) \<Longrightarrow> w = v div 10 ^ n"
  using fmtFrac_loop_spec [of n v] by (auto simp: fmtFrac_def)

text \<open>A part of whole minutes or hours.\<close>

lemma duration_part_whole:
  assumes "u = ''m'' \<and> unit = 60 * 10 ^ 9 \<or> u = ''h'' \<and> unit = 3600 * 10 ^ 9 \<or> u = ''ns'' \<and> unit = 1"
    "rest = [] \<or> is_digit (hd rest)" "d + v * unit \<le> maxInt64"
  shows "duration_part (nat_str v @ u @ rest) d = Some (d + v * unit, rest)"
  using duration_part_eq [of u unit "[]" rest d v] assms by (auto simp: digits_val_def)

lemma duration_loop_secs:
  assumes "10 ^ 9 \<le> u" "u \<le> maxInt64"
  shows "duration_loop (duration_units u) 0 = Some u"
proof -
  define secs where "secs = u div 10 ^ 9"
  define mins where "mins = secs div 60"
  define rem where "rem = (secs mod 60) * 10 ^ 9 + u mod 10 ^ 9"
  obtain frac where f: "fmtFrac u 9 = (secs, frac)" using fmtFrac_fst by (metis secs_def surj_pair)
  define s where "s = nat_str (secs mod 60) @ frac @ ''s''"
  have u: "u = mins * (60 * 10 ^ 9) + rem"
  proof -
    have "secs = mins * 60 + secs mod 60" unfolding mins_def by (rule div_mult_mod_eq [symmetric])
    moreover have "u = secs * 10 ^ 9 + u mod 10 ^ 9" unfolding secs_def by (rule div_mult_mod_eq [symmetric])
    moreover have "w = m * (60 * 10 ^ 9) + (r * 10 ^ 9 + q)" if "a = m * 60 + r" "w = a * 10 ^ 9 + q"
      for a m r q w :: nat using that by (simp add: algebra_simps)
    ultimately show ?thesis unfolding rem_def by blast
  qed
  have rem: "rem div 10 ^ 9 = secs mod 60" "rem mod 10 ^ 9 = u mod 10 ^ 9"
    unfolding rem_def by simp_all
  have last: "duration_loop s d = Some (d + rem)" if "d + rem \<le> maxInt64" for d
  proof -
    have "duration_part (nat_str (rem div 10 ^ 9) @ frac @ ''s'' @ []) d = Some (d + rem, [])"
      using that f rem by (intro duration_part_frac) auto
    then show ?thesis
      unfolding s_def rem by (simp add: duration_loop.simps [of "nat_str _ @ _"] duration_loop.simps [of "[]"])
  qed
  have s_hd: "is_digit (hd s)" using hd_nat_str_digit by (simp add: s_def)
  have step: "duration_loop (nat_str v @ w @ s1) d = duration_loop s1 (d + v * unit)"
    if "w = ''m'' \<and> unit = 60 * 10 ^ 9 \<or> w = ''h'' \<and> unit = 3600 * 10 ^ 9 \<or> w = ''ns'' \<and> unit = 1"
      "is_digit (hd s1)" "d + v * unit \<le> maxInt64" for v w s1 d unit
    using duration_part_whole [OF that(1) _ that(3), of s1] that(2)
    by (simp add: duration_loop.simps [of "nat_str v @ w @ s1"])
  have form: "duration_units u =
      (if mins = 0 then s else if mins div 60 = 0 then nat_str (mins mod 60) @ ''m'' @ s
       else nat_str (mins div 60) @ ''h'' @ nat_str (mins mod 60) @ ''m'' @ s)"
    using assms(1) f by (simp add: duration_units_def mins_def s_def Let_def)
  consider "mins = 0" | "mins \<noteq> 0" "mins div 60 = 0" | "mins div 60 \<noteq> 0" by auto
  then show ?thesis
  proof cases
    case 1
    then show ?thesis unfolding form using last [of 0] u assms(2) by simp
  next
    case 2
    then have "mins mod 60 = mins" by (metis add_0 div_mult_mod_eq mult_zero_left)
    then show ?thesis
      unfolding form
      using 2 step [of "''m''" "60 * 10 ^ 9" s 0 mins] s_hd last [of "mins * (60 * 10 ^ 9)"] u assms(2)
      by simp
  next
    case 3
    let ?h = "mins div 60" and ?m = "mins mod 60"
    have t: "?h * (3600 * 10 ^ 9) + ?m * (60 * 10 ^ 9) = mins * (60 * 10 ^ 9)"
    proof -
      have "h * (3600 * 10 ^ 9) + r * (60 * 10 ^ 9) = m * (60 * 10 ^ 9)" if "h * 60 + r = m" for h r m :: nat
        using that by (auto simp: algebra_simps)
      then show ?thesis by (simp only: div_mult_mod_eq)
    qed
    have "duration_loop (nat_str ?h @ ''h'' @ nat_str ?m @ ''m'' @ s) 0 =
        duration_loop (nat_str ?m @ ''m'' @ s) (0 + ?h * (3600 * 10 ^ 9))"
      using t u assms(2) hd_nat_str_digit by (intro step) auto
    also have "\<dots> = duration_loop s (0 + ?h * (3600 * 10 ^ 9) + ?m * (60 * 10 ^ 9))"
      using t u assms(2) s_hd by (intro step) auto
    also have "\<dots> = Some u" using last [of "mins * (60 * 10 ^ 9)"] t u assms(2) by simp
    finally show ?thesis unfolding form using 3 by auto
  qed
qed

lemma duration_loop_units:
  assumes "0 < u" "u \<le> maxInt64"
  shows "duration_loop (duration_units u) 0 = Some u"
proof -
  have ends: "duration_loop s d = Some d1" if "duration_part s d = Some (d1, [])" "s \<noteq> []" for s d d1
    using that by (simp add: duration_loop.simps [of s] duration_loop.simps [of "[]"])
  have step: "duration_loop s d = duration_loop s1 d1" if "duration_part s d = Some (d1, s1)" "s \<noteq> []" for s d s1 d1
    using that by (simp add: duration_loop.simps [of s])
  consider "u < 10 ^ 3" | "10 ^ 3 \<le> u" "u < 10 ^ 6" | "10 ^ 6 \<le> u" "u < 10 ^ 9" | "10 ^ 9 \<le> u" by linarith
  then show ?thesis
  proof cases
    case 1
    then show ?thesis using assms duration_part_whole [of "''ns''" 1 "[]" 0 u]
      by (intro ends) (simp_all add: duration_units_def)
  next
    case 2
    obtain frac where f: "fmtFrac u 3 = (u div 10 ^ 3, frac)" using fmtFrac_fst by (metis surj_pair)
    have "duration_part (nat_str (u div 10 ^ 3) @ frac @ micro_unit @ []) 0 = Some (0 + u, [])"
      using assms(2) f by (intro duration_part_frac) (auto simp: micro_unit_def [THEN arg_cong [where f = set]] micro_unit_def [THEN arg_cong [where f = "\<lambda>x. x = []"]])
    then show ?thesis using 2 f by (intro ends) (simp_all add: duration_units_def)
  next
    case 3
    obtain frac where f: "fmtFrac u 6 = (u div 10 ^ 6, frac)" using fmtFrac_fst by (metis surj_pair)
    have "duration_part (nat_str (u div 10 ^ 6) @ frac @ ''ms'' @ []) 0 = Some (0 + u, [])"
      using assms(2) f by (intro duration_part_frac) auto
    then show ?thesis using 3 f by (intro ends) (simp_all add: duration_units_def)
  next
    case 4
    then show ?thesis using duration_loop_secs assms(2) by blast
  qed
qed

lemma ParseDuration_String:
  assumes "- (2 ^ 63) < d" "d < 2 ^ 63"
  shows "ParseDuration (Duration_String d) = Ok d"
proof (cases "d = 0")
  case True
  have "duration_part (nat_str 0 @ ''s'') 0 = Some (0, [])"
    using duration_part_eq [of "''s''" "10 ^ 9" "[]" "[]" 0 0] by (simp add: digits_val_def)
  moreover have "nat_str 0 = ''0''" by code_simp
  ultimately have "duration_loop ''0s'' 0 = Some 0"
    by (simp add: duration_loop.simps [of "''0s''"] duration_loop.simps [of "[]"])
  then show ?thesis by (simp add: True Duration_String_def duration_units_def ParseDuration_def)
next
  case False
  have u: "0 < nat \<bar>d\<bar>" "nat \<bar>d\<bar> \<le> maxInt64" using False assms by (auto simp: maxInt64_def)
  note loop = duration_loop_units [OF u]
  have h: "duration_units (nat \<bar>d\<bar>) \<noteq> []" "is_digit (hd (duration_units (nat \<bar>d\<bar>)))"
    using hd_nat_str_digit False by (auto simp: duration_units_def Let_def split: prod.splits)
  then have sign: "hd (duration_units (nat \<bar>d\<bar>)) \<noteq> CHR ''-''" "hd (duration_units (nat \<bar>d\<bar>)) \<noteq> CHR ''+''"
    using digit_not by auto
  have "duration_part ''0'' 0 = None"
    by (simp add: duration_part_def Let_def unitMap_def micro_unit_def is_digit_def)
  then have "duration_loop ''0'' 0 = None" by (simp add: duration_loop.simps [of "''0''"])
  then have ne: "duration_units (nat \<bar>d\<bar>) \<noteq> ''0''" using loop by auto
  show ?thesis
    using loop h sign ne by (cases "d < 0") (simp_all add: Duration_String_def ParseDuration_def Let_def)
qed


lemma fmtFrac_chars: "\<forall>c \<in> set (snd (fmtFrac v n)). c = CHR ''.'' \<or> is_digit c"
proof -
  obtain ds where "fmtFrac v n = (v div 10 ^ n, if ds = [] then [] else CHR ''.'' # ds)" "list_all is_digit ds"
    using fmtFrac_loop_spec [of n v] by (auto simp: fmtFrac_def)
  then show ?thesis by (simp add: list_all_iff)
qed

lemma duration_units_chars:
  assumes "\<not> is_digit c" "c \<noteq> CHR ''.''" "c \<notin> set ''sshmn''" "c \<notin> set micro_unit"
  shows "c \<notin> set (duration_units u) \<and> duration_units u \<noteq> [] \<and> last (duration_units u) = CHR ''s''"
proof -
  have no: "c \<notin> set (nat_str n)" for n using assms(1) by (rule nat_str_notin)
  have frac: "c \<notin> set (snd (fmtFrac v n))" for v n
    using fmtFrac_chars [of v n] assms(1,2) by blast
  define good where "good s \<longleftrightarrow> c \<notin> set s \<and> s \<noteq> [] \<and> last s = CHR ''s''" for s :: string
  have either: "good (if b then x else y)" if "good x" "good y" for x y b using that by simp
  have front: "good (t @ s)" if "good s" "c \<notin> set t" for s t using that by (simp add: good_def)
  have zero: "c \<noteq> CHR ''0''" using assms(1) by (auto simp: is_digit_def)
  have ends: "good ''s''" "good ''ns''" "good ''ms''" "good ''0s''" "good micro_unit"
    using assms(3,4) zero by (simp_all add: good_def micro_unit_def)
  have "good (duration_units u)"
    unfolding duration_units_def Let_def split_beta
    using assms(3) by (intro either front ends no frac) simp_all
  then show ?thesis by (simp add: good_def)
qed

lemma Duration_String_chars:
  "Duration_String d \<noteq> []" "CHR 0x09 \<notin> set (Duration_String d)" "last (Duration_String d) = CHR ''s''"
  "CHR 0x0A \<notin> set (Duration_String d)"
  using duration_units_chars [of "CHR 0x09"] duration_units_chars [of "CHR 0x0A"]
  by (simp_all add: Duration_String_def is_digit_def micro_unit_def)

end
