(* ===== verification/Run_Log_Entry.thy ===== *)
theory Run_Log_Entry
  imports Run_Log Go_Duration
begin

text \<open>
  The record format of the file run log (\<open>encodeRunLogEntry\<close> and \<open>decodeRunLogEntry\<close> of
  \<open>jobfile/file_run_log.go\<close>): five fields separated by tabs, padded with blanks to 64 bytes.
\<close>

definition gMaxJobNameLen :: int where
  "gMaxJobNameLen = 16"

definition gLogEntryLen :: int where
  "gLogEntryLen = 64"

definition encodeRunLogEntry :: "RunLogEntry \<Rightarrow> string outcome" where
  "encodeRunLogEntry entry =
     (let n = min (nat gMaxJobNameLen) (length (JobName entry));
          jobName = take n (JobName entry);
          encodedJobName = Join (Split jobName [CHR 0x0A]) [CHR 0x5C, CHR ''n''];
          encodedJobName1 = Join (Split encodedJobName [CHR 0x09]) [CHR 0x5C, CHR ''t''];
          encodedTime = RunLogTime entry;
          tmp = encodedJobName1 @ [CHR 0x09] @ Itoa encodedTime @ [CHR 0x09] @
            SubprocFate_String (Fate entry) @ [CHR 0x09] @ JobStatus_String (RunResult entry) @ [CHR 0x09] @
            Duration_String (ExecTime entry)
      in bind_outcome (Repeat CHR '' '' (gLogEntryLen - int (length tmp))) (\<lambda>suffix. Ok (tmp @ suffix)))"

definition gFateDecoder :: "string \<Rightarrow> SubprocFate option" where
  "gFateDecoder s =
     (if s = SubprocFate_String SubprocFateSucceeded then Some SubprocFateSucceeded
      else if s = SubprocFate_String SubprocFateFailed then Some SubprocFateFailed
      else if s = SubprocFate_String SubprocFateCancelled then Some SubprocFateCancelled
      else if s = ''true'' then Some SubprocFateSucceeded
      else if s = ''false'' then Some SubprocFateFailed
      else None)"

definition decodeRunLogEntry :: "string \<Rightarrow> RunLogEntry outcome" where
  "decodeRunLogEntry s0 =
     (let s = TrimRight s0 CHR '' '';
          fields = Split s [CHR 0x09]; nbrFields = 5 in
      if length fields \<noteq> nbrFields
      then Fail (Error (''Wrong number of fields in log entry line: '' @ Itoa (int (length fields)) @
                        '' but expected '' @ Itoa (int nbrFields)) None)
      else
        let jobName = Join (Split (fields ! 0) [CHR 0x5C, CHR ''n'']) [CHR 0x0A];
            jobName1 = Join (Split jobName [CHR 0x5C, CHR ''t'']) [CHR 0x09]
        in bind_outcome (ParseInt (fields ! 1)) (\<lambda>unixTime.
           case gFateDecoder (fields ! 2) of
             None \<Rightarrow> Fail (Error (''Invalid 'Fate' field: '' @ [CHR 0x22] @ fields ! 2 @ [CHR 0x22]) None)
           | Some fate \<Rightarrow>
             (case find (\<lambda>status. fields ! 3 = JobStatus_String status) JobStatuses of
                None \<Rightarrow> Fail (Error ''Invalid 'Result' field.'' None)
              | Some result \<Rightarrow>
                (case ParseDuration (fields ! 4) of
                   Ok execTime \<Rightarrow>
                     Ok \<lparr>JobName = jobName1, RunLogTime = unixTime, Fate = fate, RunResult = result,
                         ExecTime = execTime\<rparr>
                 | _ \<Rightarrow> Fail (Error ''Invalid 'ExecTime' field.'' None)))))"

text \<open>
  The entries that the format can hold: the name is short and has no back-slash, the times are
  64-bit numbers, and the text fits the record.
\<close>

definition entry_text :: "RunLogEntry \<Rightarrow> string" where
  "entry_text e =
     Join (Split (Join (Split (JobName e) [CHR 0x0A]) [CHR 0x5C, CHR ''n'']) [CHR 0x09]) [CHR 0x5C, CHR ''t''] @
     [CHR 0x09] @ Itoa (RunLogTime e) @ [CHR 0x09] @ SubprocFate_String (Fate e) @ [CHR 0x09] @
     JobStatus_String (RunResult e) @ [CHR 0x09] @ Duration_String (ExecTime e)"

definition encodable :: "RunLogEntry \<Rightarrow> bool" where
  "encodable e \<longleftrightarrow> length (JobName e) \<le> 16 \<and> CHR 0x5C \<notin> set (JobName e) \<and>
     - (2 ^ 63) \<le> RunLogTime e \<and> RunLogTime e < 2 ^ 63 \<and>
     - (2 ^ 63) < ExecTime e \<and> ExecTime e < 2 ^ 63 \<and> length (entry_text e) \<le> 64"

lemma encode_eq:
  assumes "encodable e"
  shows "encodeRunLogEntry e = Ok (entry_text e @ replicate (64 - length (entry_text e)) CHR '' '')"
proof -
  have "min (nat gMaxJobNameLen) (length (JobName e)) = length (JobName e)"
    using assms by (simp add: encodable_def gMaxJobNameLen_def)
  then have "encodeRunLogEntry e =
      bind_outcome (Repeat CHR '' '' (64 - int (length (entry_text e)))) (\<lambda>suffix. Ok (entry_text e @ suffix))"
    unfolding encodeRunLogEntry_def Let_def entry_text_def gLogEntryLen_def by simp
  then show ?thesis using assms by (simp add: Repeat_def encodable_def nat_diff_distrib)
qed

section \<open>Escaping\<close>

lemma split_acc_ne [simp]: "split_acc sep acc s \<noteq> []"
  by (induction sep acc s rule: split_acc.induct) auto

lemma Join_Cons: "ps \<noteq> [] \<Longrightarrow> Join (p # ps) sep = p @ sep @ Join ps sep"
  by (cases ps) auto

lemma Join_Split_char: "Join (Split s [c]) sep = concat (map (\<lambda>x. if x = c then sep else [x]) s)"
proof -
  have "Join (split_acc [c] acc s) sep = rev acc @ concat (map (\<lambda>x. if x = c then sep else [x]) s)" for acc
    by (induction s arbitrary: acc) (auto simp: HasPrefix_def Join_Cons)
  then show ?thesis by (simp add: Split_def)
qed

text \<open>Undoing an escape of two characters in a text made of escapes and plain characters.\<close>

lemma Join_Split_escape:
  assumes "b \<noteq> a" "\<forall>x \<in> set s. g x = [b, a] \<or> (\<exists>y. g x = [y] \<and> y \<noteq> b) \<or> (\<exists>y. g x = [b, y] \<and> y \<noteq> a \<and> y \<noteq> b)"
  shows "Join (Split (concat (map g s)) [b, a]) [c] = concat (map (\<lambda>x. if g x = [b, a] then [c] else g x) s)"
proof -
  have "Join (split_acc [b, a] acc (concat (map g s))) [c] =
      rev acc @ concat (map (\<lambda>x. if g x = [b, a] then [c] else g x) s)" for acc
    using assms(2)
  proof (induction s arbitrary: acc)
    case Nil
    then show ?case by simp
  next
    case (Cons x s)
    then consider "g x = [b, a]" | y where "g x = [y]" "y \<noteq> b" | y where "g x = [b, y]" "y \<noteq> a" "y \<noteq> b"
      by auto
    then show ?case
      using Cons assms(1) by cases (auto simp: HasPrefix_def Join_Cons)
  qed
  then show ?thesis by (simp add: Split_def)
qed

lemma unescape_name:
  assumes "CHR 0x5C \<notin> set s"
  shows "Join (Split (Join (Split (Join (Split (Join (Split s [CHR 0x0A]) [CHR 0x5C, CHR ''n''])
      [CHR 0x09]) [CHR 0x5C, CHR ''t'']) [CHR 0x5C, CHR ''n'']) [CHR 0x0A]) [CHR 0x5C, CHR ''t'']) [CHR 0x09] = s"
proof -
  define g where "g x = (if x = CHR 0x0A then [CHR 0x5C, CHR ''n''] else if x = CHR 0x09 then [CHR 0x5C, CHR ''t''] else [x])" for x
  define h where "h x = (if x = CHR 0x09 then [CHR 0x5C, CHR ''t''] else [x])" for x :: char
  have esc: "Join (Split (Join (Split s [CHR 0x0A]) [CHR 0x5C, CHR ''n'']) [CHR 0x09]) [CHR 0x5C, CHR ''t''] = concat (map g s)"
    unfolding Join_Split_char by (induction s) (auto simp: g_def)
  have one: "Join (Split (concat (map g s)) [CHR 0x5C, CHR ''n'']) [CHR 0x0A] = concat (map h s)"
    using assms by (subst Join_Split_escape) (auto simp: g_def h_def intro!: arg_cong [where f = concat] map_cong)
  have "map (\<lambda>x. if h x = [CHR 0x5C, CHR ''t''] then [CHR 0x09] else h x) s = map (\<lambda>x. [x]) s"
    using assms by (auto simp: h_def)
  moreover have "\<forall>x \<in> set s. h x = [CHR 0x5C, CHR ''t''] \<or> (\<exists>y. h x = [y] \<and> y \<noteq> CHR 0x5C)"
    using assms by (auto simp: h_def)
  ultimately have two: "Join (Split (concat (map h s)) [CHR 0x5C, CHR ''t'']) [CHR 0x09] = concat (map (\<lambda>x. [x]) s)"
    using Join_Split_escape [of "CHR 0x5C" "CHR ''t''" s h "CHR 0x09"] by (simp only:) auto
  show ?thesis unfolding esc one two by (induction s) auto
qed

lemma escaped_no_tab:
  "CHR 0x09 \<notin> set (Join (Split s [CHR 0x09]) [CHR 0x5C, CHR ''t''])"
  by (simp add: Join_Split_char)


section \<open>Round trip\<close>

lemma Itoa_no_tab: "CHR 0x09 \<notin> set (Itoa i)"
  using nat_str_notin [of "CHR 0x09"] by (auto simp: Itoa_def is_digit_def)

lemma status_no_tab: "CHR 0x09 \<notin> set (JobStatus_String st)" "CHR 0x09 \<notin> set (SubprocFate_String f)"
  by (cases st; simp) (cases f; simp)

lemma entry_text_fields:
  "Split (entry_text e) [CHR 0x09] =
     [Join (Split (Join (Split (JobName e) [CHR 0x0A]) [CHR 0x5C, CHR ''n'']) [CHR 0x09]) [CHR 0x5C, CHR ''t''],
      Itoa (RunLogTime e), SubprocFate_String (Fate e), JobStatus_String (RunResult e), Duration_String (ExecTime e)]"
  using escaped_no_tab Itoa_no_tab status_no_tab Duration_String_chars(2)
  by (simp add: entry_text_def string_simps)

lemma TrimRight_pad:
  assumes "s \<noteq> []" "last s \<noteq> c"
  shows "TrimRight (s @ replicate n c) c = s"
proof -
  have "dropWhile (\<lambda>x. x = c) (replicate n c @ rev s) = rev s"
    using assms by (subst dropWhile_append2) (auto simp: dropWhile_eq_self_iff hd_rev)
  then show ?thesis by (simp add: TrimRight_def)
qed

lemma decode_encode:
  assumes "encodable e" "encodeRunLogEntry e = Ok s"
  shows "decodeRunLogEntry s = Ok e" "length s = 64"
proof -
  have s: "s = entry_text e @ replicate (64 - length (entry_text e)) CHR '' ''"
    using encode_eq [OF assms(1)] assms(2) by simp
  show "length s = 64" using assms(1) by (simp add: s encodable_def)
  have "last (entry_text e) \<noteq> CHR '' ''" "entry_text e \<noteq> []"
    using Duration_String_chars(1,3) [of "ExecTime e"] by (auto simp: entry_text_def)
  then have trim: "TrimRight s CHR '' '' = entry_text e" unfolding s by (intro TrimRight_pad)
  have fate: "gFateDecoder (SubprocFate_String (Fate e)) = Some (Fate e)"
    by (cases "Fate e") (simp_all add: gFateDecoder_def)
  have status: "find (\<lambda>st. JobStatus_String (RunResult e) = JobStatus_String st) JobStatuses = Some (RunResult e)"
    by (cases "RunResult e") (simp_all add: JobStatuses_def)
  have "CHR 0x5C \<notin> set (JobName e)" using assms(1) by (simp add: encodable_def)
  note name = unescape_name [OF this]
  show "decodeRunLogEntry s = Ok e"
    unfolding decodeRunLogEntry_def Let_def trim entry_text_fields
    using assms(1) fate status name
    by (simp add: encodable_def ParseInt_Itoa ParseDuration_String)
qed


lemma entry_text_no_newline: "CHR 0x0A \<notin> set (entry_text e)"
proof -
  have "CHR 0x0A \<notin> set (Itoa i)" for i
    using nat_str_notin [of "CHR 0x0A"] by (auto simp: Itoa_def is_digit_def)
  moreover have "CHR 0x0A \<notin> set (JobStatus_String st)" "CHR 0x0A \<notin> set (SubprocFate_String f)" for st f
    by (cases st; simp) (cases f; simp)
  moreover have "CHR 0x0A \<notin> set (Join (Split (Join (Split s [CHR 0x0A]) [CHR 0x5C, CHR ''n'']) [CHR 0x09]) [CHR 0x5C, CHR ''t''])" for s
    by (auto simp: Join_Split_char split: if_splits)
  ultimately show ?thesis using Duration_String_chars(4) by (simp add: entry_text_def)
qed

section \<open>Properties\<close>

text \<open>
  C14. Round trip of the record format: an entry whose name has at most 16 bytes and no back-slash,
  whose times are 64-bit numbers and whose text fits is written as exactly 64 bytes with no
  newline among them, and reading those bytes gives the entry back, tabs and newlines of the
  name included.
\<close>

theorem entry_roundtrip:
  assumes "encodable e"
  shows "\<exists>s. encodeRunLogEntry e = Ok s \<and> length s = 64 \<and> CHR 0x0A \<notin> set s \<and> decodeRunLogEntry s = Ok e"
proof -
  obtain s where s: "encodeRunLogEntry e = Ok s" "s = entry_text e @ replicate (64 - length (entry_text e)) CHR '' ''"
    using encode_eq [OF assms] by simp
  have "CHR 0x0A \<notin> set (entry_text e)" by (rule entry_text_no_newline)
  then show ?thesis using s decode_encode [OF assms s(1)] by auto
qed

definition sample_entry :: RunLogEntry where
  "sample_entry = \<lparr>JobName = [CHR ''a'', CHR 0x0A, CHR ''b'', CHR 0x09], RunLogTime = 1451865600000000000,
     Fate = SubprocFateFailed, RunResult = JobBackoff, ExecTime = 1500000000\<rparr>"

lemma sample_entry_encodable: "encodable sample_entry"
proof -
  have "length (Itoa 1451865600000000000) = 19" by (simp add: Itoa_def nat_str.simps)
  moreover have "length (Duration_String 1500000000) = 4"
    by (simp add: Duration_String_def duration_units_def fmtFrac_def Let_def nat_str.simps)
  ultimately show ?thesis
    by (simp add: encodable_def sample_entry_def entry_text_def Join_Split_char)
qed


theorem entry_roundtrip_witness:
  "encodable sample_entry \<and>
   (\<exists>s. encodeRunLogEntry sample_entry = Ok s \<and> length s = 64 \<and> decodeRunLogEntry s = Ok sample_entry)"
  using entry_roundtrip [OF sample_entry_encodable] sample_entry_encodable by blast

text \<open>
  The record length: \<open>encodeRunLogEntry\<close> returns 64 bytes or panics, and it panics exactly when
  the text of the entry, with the name cut to 16 bytes, is longer than that. A job with a name
  of 16 bytes that ran for 12.345678901 s is such an entry.
\<close>

theorem encode_record_length:
  "(\<exists>s. encodeRunLogEntry e = Ok s \<and> length s = 64 \<and> length (entry_text (e\<lparr>JobName := take 16 (JobName e)\<rparr>)) \<le> 64) \<or>
   (encodeRunLogEntry e = Panic ''strings: negative Repeat count'' \<and>
    64 < length (entry_text (e\<lparr>JobName := take 16 (JobName e)\<rparr>)))"
proof -
  let ?e = "e\<lparr>JobName := take 16 (JobName e)\<rparr>"
  have "take (min (nat gMaxJobNameLen) (length (JobName e))) (JobName e) = take 16 (JobName e)"
    by (simp add: gMaxJobNameLen_def min_def)
  then have "encodeRunLogEntry e =
      bind_outcome (Repeat CHR '' '' (64 - int (length (entry_text ?e)))) (\<lambda>suffix. Ok (entry_text ?e @ suffix))"
    unfolding encodeRunLogEntry_def Let_def entry_text_def gLogEntryLen_def by simp
  then show ?thesis by (cases "length (entry_text ?e) \<le> 64") (simp_all add: Repeat_def nat_diff_distrib)
qed

definition long_entry :: RunLogEntry where
  "long_entry = \<lparr>JobName = ''SixteenCharsName'', RunLogTime = 1451865600000000000,
     Fate = SubprocFateSucceeded, RunResult = JobGood, ExecTime = 12345678901\<rparr>"

theorem encode_record_length_witness:
  "encodeRunLogEntry long_entry = Panic ''strings: negative Repeat count''"
proof -
  have "length (Itoa 1451865600000000000) = 19" by (simp add: Itoa_def nat_str.simps)
  moreover have "length (Duration_String 12345678901) = 13"
    by (simp add: Duration_String_def duration_units_def fmtFrac_def Let_def nat_str.simps)
  ultimately have "64 < length (entry_text (long_entry\<lparr>JobName := take 16 (JobName long_entry)\<rparr>))"
    by (simp add: long_entry_def entry_text_def Join_Split_char)
  then show ?thesis using encode_record_length [of long_entry] by linarith
qed

end
