(* ===== verification/Go_OS.thy ===== *)
theory Go_OS
  imports Prelude
begin

text \<open>
  The file operations of packages os and ioutil that the run log uses, on a file system that maps
  paths to contents.

  A call fails for the reasons the model knows (a missing file, a read past the end, a negative
  length) and, beyond those, whenever the list \<open>faults\<close> says so: its head tells whether the next
  call fails, and an empty list means that no further call does. A failed write writes nothing. An
  open file is named by its path; the program never renames a file that it goes on using.
\<close>

record os =
  files :: "string \<Rightarrow> string option"
  faults :: "bool list"

definition io_error :: error where
  "io_error = Errno ''input/output error''"

definition not_exist :: error where
  "not_exist = Errno ''no such file or directory''"

definition IsNotExist :: "error \<Rightarrow> bool" where
  "IsNotExist e \<longleftrightarrow> e = not_exist"

definition eof_error :: error where
  "eof_error = Errno ''EOF''"

definition invalid_argument :: error where
  "invalid_argument = Errno ''invalid argument''"

definition os_call :: "(os \<Rightarrow> 'a outcome \<times> os) \<Rightarrow> os \<Rightarrow> 'a outcome \<times> os" where
  "os_call operation os =
     (case faults os of
        [] \<Rightarrow> operation os
      | fails # later \<Rightarrow>
          if fails then (Fail io_error, os\<lparr>faults := later\<rparr>) else operation (os\<lparr>faults := later\<rparr>))"

text \<open>Running one stateful call after another, up to the first that does not return a value.\<close>

definition bind_io :: "('s \<Rightarrow> 'a outcome \<times> 's) \<Rightarrow> ('a \<Rightarrow> 's \<Rightarrow> 'b outcome \<times> 's) \<Rightarrow> 's \<Rightarrow> 'b outcome \<times> 's" where
  "bind_io call cont s =
     (case call s of
        (Ok x, s1) \<Rightarrow> cont x s1
      | (Fail e, s1) \<Rightarrow> (Fail e, s1)
      | (Panic p, s1) \<Rightarrow> (Panic p, s1))"

definition return_io :: "'a \<Rightarrow> 's \<Rightarrow> 'a outcome \<times> 's" where
  "return_io x s = (Ok x, s)"

definition fail_io :: "error \<Rightarrow> 's \<Rightarrow> 'a outcome \<times> 's" where
  "fail_io e s = (Fail e, s)"

definition panic_io :: "string \<Rightarrow> 's \<Rightarrow> 'a outcome \<times> 's" where
  "panic_io p s = (Panic p, s)"

text \<open>A call whose error is replaced by another one that it causes.\<close>

definition wrap_io :: "(error \<Rightarrow> error) \<Rightarrow> ('s \<Rightarrow> 'a outcome \<times> 's) \<Rightarrow> 's \<Rightarrow> 'a outcome \<times> 's" where
  "wrap_io f call s =
     (case call s of (Fail e, s1) \<Rightarrow> (Fail (f e), s1) | r \<Rightarrow> r)"

section \<open>Operations\<close>

text \<open>\<open>os.Open\<close>, and \<open>os.OpenFile\<close> without \<open>O_CREATE\<close>.\<close>

definition os_Open :: "string \<Rightarrow> os \<Rightarrow> unit outcome \<times> os" where
  "os_Open path = os_call (\<lambda>os. case files os path of None \<Rightarrow> (Fail not_exist, os) | Some c \<Rightarrow> (Ok (), os))"

text \<open>\<open>os.OpenFile\<close> with \<open>O_CREATE|O_TRUNC\<close>, and \<open>ioutil.WriteFile\<close> of no bytes.\<close>

definition os_Create :: "string \<Rightarrow> os \<Rightarrow> unit outcome \<times> os" where
  "os_Create path = os_call (\<lambda>os. (Ok (), os\<lparr>files := (files os)(path \<mapsto> [])\<rparr>))"

definition file_Stat :: "string \<Rightarrow> os \<Rightarrow> int outcome \<times> os" where
  "file_Stat path =
     os_call (\<lambda>os. case files os path of None \<Rightarrow> (Fail not_exist, os) | Some c \<Rightarrow> (Ok (int (length c)), os))"

definition file_ReadAt :: "string \<Rightarrow> int \<Rightarrow> int \<Rightarrow> os \<Rightarrow> string outcome \<times> os" where
  "file_ReadAt path n off =
     os_call (\<lambda>os. case files os path of
         None \<Rightarrow> (Fail not_exist, os)
       | Some c \<Rightarrow>
           if off < 0 then (Fail invalid_argument, os)
           else if off + n > int (length c) then (Fail eof_error, os)
           else (Ok (take (nat n) (drop (nat off) c)), os))"

text \<open>A write to a file opened for appending, or at the end of a file written from its start.\<close>

definition file_WriteString :: "string \<Rightarrow> string \<Rightarrow> os \<Rightarrow> unit outcome \<times> os" where
  "file_WriteString path s =
     os_call (\<lambda>os. case files os path of
         None \<Rightarrow> (Fail not_exist, os)
       | Some c \<Rightarrow> (Ok (), os\<lparr>files := (files os)(path \<mapsto> c @ s)\<rparr>))"

definition file_Truncate :: "string \<Rightarrow> int \<Rightarrow> os \<Rightarrow> unit outcome \<times> os" where
  "file_Truncate path n =
     os_call (\<lambda>os. case files os path of
         None \<Rightarrow> (Fail not_exist, os)
       | Some c \<Rightarrow>
           if n < 0 then (Fail invalid_argument, os)
           else (Ok (), os\<lparr>files := (files os)(path \<mapsto> take (nat n) c @ replicate (nat n - length c) CHR 0x00)\<rparr>))"

definition os_Remove :: "string \<Rightarrow> os \<Rightarrow> unit outcome \<times> os" where
  "os_Remove path =
     os_call (\<lambda>os. case files os path of
         None \<Rightarrow> (Fail not_exist, os)
       | Some c \<Rightarrow> (Ok (), os\<lparr>files := (files os)(path := None)\<rparr>))"

definition os_Rename :: "string \<Rightarrow> string \<Rightarrow> os \<Rightarrow> unit outcome \<times> os" where
  "os_Rename oldpath newpath =
     os_call (\<lambda>os. case files os oldpath of
         None \<Rightarrow> (Fail not_exist, os)
       | Some c \<Rightarrow> (Ok (), os\<lparr>files := ((files os)(oldpath := None))(newpath \<mapsto> c)\<rparr>))"

section \<open>Calls without faults\<close>

lemma os_call_ok [simp]: "faults os = [] \<Longrightarrow> os_call operation os = operation os"
  by (simp add: os_call_def)

lemma bind_io_Ok [simp]: "call s = (Ok x, s1) \<Longrightarrow> bind_io call cont s = cont x s1"
  by (simp add: bind_io_def)

lemma bind_io_Fail [simp]: "call s = (Fail e, s1) \<Longrightarrow> bind_io call cont s = (Fail e, s1)"
  by (simp add: bind_io_def)

lemma wrap_io_Ok [simp]: "call s = (Ok x, s1) \<Longrightarrow> wrap_io f call s = (Ok x, s1)"
  by (simp add: wrap_io_def)

lemmas os_defs = os_Open_def os_Create_def file_Stat_def file_ReadAt_def file_WriteString_def
  file_Truncate_def os_Remove_def os_Rename_def

end
