(* ===== verification/File_Run_Log.thy ===== *)
theory File_Run_Log
  imports Run_Log_Entry Go_OS
begin

text \<open>
  The run log on disk (\<open>jobfile/file_run_log.go\<close>): the descriptor of one backing file, the index
  of the current and the historical files, their rotation, the iterator over all entries, and
  the operations of the interface.

  A method that changes its receiver returns it: the descriptor beside the file system, or the
  log beside the file system, also when it returns an error. Indices are Go \<open>int\<close>s.
\<close>

section \<open>Backing files\<close>

record backingFileDtor =
  path :: string
  nbrEntries :: int
  earliestTime :: go_time
  latestTime :: go_time
  startIdx :: int

definition offsetOfEntry :: "backingFileDtor \<Rightarrow> int \<Rightarrow> int outcome" where
  "offsetOfEntry self idx =
     (if idx \<ge> nbrEntries self then Panic ''Invalid entry index''
      else Ok ((nbrEntries self - idx - 1) * (gLogEntryLen + 1)))"

definition readEntryBytes :: "backingFileDtor \<Rightarrow> int \<Rightarrow> string \<Rightarrow> os \<Rightarrow> string outcome \<times> os" where
  "readEntryBytes self idx f os =
     (case offsetOfEntry self idx of
        Panic p \<Rightarrow> (Panic p, os)
      | Fail e \<Rightarrow> (Fail e, os)
      | Ok offset \<Rightarrow>
          wrap_io (\<lambda>e. Error (''Failed to read backing file '' @ path self) (Some e))
            (file_ReadAt f gLogEntryLen offset) os)"

definition readEntry :: "backingFileDtor \<Rightarrow> int \<Rightarrow> string \<Rightarrow> os \<Rightarrow> RunLogEntry outcome \<times> os" where
  "readEntry self idx f =
     bind_io (wrap_io (\<lambda>e. Error (''Failed to read '' @ path self) (Some e)) (readEntryBytes self idx f))
       (\<lambda>buf. wrap_io (\<lambda>e. Error (''Entry '' @ Itoa idx @ '' in '' @ path self @ '' is bad: '' @ Error_Error e) (Some e))
          (\<lambda>os. (decodeRunLogEntry buf, os)))"

text \<open>\<open>sort.Search\<close> with a predicate that reads the file.\<close>

function search_io :: "(nat \<Rightarrow> os \<Rightarrow> bool outcome \<times> os) \<Rightarrow> nat \<Rightarrow> nat \<Rightarrow> os \<Rightarrow> nat outcome \<times> os" where
  "search_io f i j os =
     (if i < j then
        let h = (i + j) div 2 in
        (case f h os of
           (Ok b, os1) \<Rightarrow> if \<not> b then search_io f (h + 1) j os1 else search_io f i h os1
         | (Fail e, os1) \<Rightarrow> (Fail e, os1)
         | (Panic p, os1) \<Rightarrow> (Panic p, os1))
      else (Ok i, os))"
  by pat_completeness auto
termination
  by (relation "measure (\<lambda>(f, i, j, os). j - i)") (auto simp: Let_def)

declare search_io.simps [simp del]

text \<open>The error of the search is assigned to a variable of the predicate's own and is lost.\<close>

definition notAfter_pred :: "backingFileDtor \<Rightarrow> go_time \<Rightarrow> string \<Rightarrow> nat \<Rightarrow> os \<Rightarrow> bool outcome \<times> os" where
  "notAfter_pred self t f i os =
     (case readEntry self (int i) f os of
        (Ok entry, os1) \<Rightarrow> (Ok (\<not> After (RunLogTime entry) t), os1)
      | (Fail e, os1) \<Rightarrow> (Ok False, os1)
      | (Panic p, os1) \<Rightarrow> (Panic p, os1))"

definition firstEntryNotAfter :: "backingFileDtor \<Rightarrow> go_time \<Rightarrow> string \<Rightarrow> os \<Rightarrow> int outcome \<times> os" where
  "firstEntryNotAfter self t f =
     bind_io (search_io (notAfter_pred self t f) 0 (nat (nbrEntries self))) (\<lambda>idx. return_io (int idx))"

definition pushEntryF ::
    "backingFileDtor \<Rightarrow> RunLogEntry \<Rightarrow> string \<Rightarrow> os \<Rightarrow> unit outcome \<times> backingFileDtor \<times> os" where
  "pushEntryF self entry f os =
     (let self1 = (if nbrEntries self = 0
                   then self\<lparr>earliestTime := RunLogTime entry, latestTime := RunLogTime entry\<rparr>
                   else self\<lparr>latestTime := RunLogTime entry\<rparr>);
          self2 = self1\<lparr>nbrEntries := nbrEntries self1 + 1\<rparr>
      in case encodeRunLogEntry entry of
           Panic p \<Rightarrow> (Panic p, self2, os)
         | Fail e \<Rightarrow> (Fail e, self2, os)
         | Ok entryStr \<Rightarrow>
             let entryStr1 = (if nbrEntries self2 > 1 then CHR 0x0A # entryStr else entryStr) in
             (case file_WriteString f entryStr1 os of (r, os1) \<Rightarrow> (r, self2, os1)))"

definition pushEntry ::
    "backingFileDtor \<Rightarrow> RunLogEntry \<Rightarrow> os \<Rightarrow> unit outcome \<times> backingFileDtor \<times> os" where
  "pushEntry self entry os =
     (case os_Open (path self) os of
        (Ok _, os1) \<Rightarrow> pushEntryF self entry (path self) os1
      | (Fail e, os1) \<Rightarrow> (Fail e, self, os1)
      | (Panic p, os1) \<Rightarrow> (Panic p, self, os1))"

definition popEntryF ::
    "backingFileDtor \<Rightarrow> string \<Rightarrow> os \<Rightarrow> RunLogEntry outcome \<times> backingFileDtor \<times> os" where
  "popEntryF self f os =
     (if nbrEntries self = 0 then (Panic ''This backing file is empty!'', self, os)
      else
        case readEntry self 0 f os of
          (Fail e, os1) \<Rightarrow> (Fail e, self, os1)
        | (Panic p, os1) \<Rightarrow> (Panic p, self, os1)
        | (Ok entry, os1) \<Rightarrow>
            let self1 = self\<lparr>nbrEntries := nbrEntries self - 1\<rparr>;
                newFileLen = (nbrEntries self1 - 1) * (gLogEntryLen + 1) + gLogEntryLen
            in (case file_Truncate f newFileLen os1 of
                  (Ok _, os2) \<Rightarrow> (Ok entry, self1, os2)
                | (Fail e, os2) \<Rightarrow> (Fail e, self1, os2)
                | (Panic p, os2) \<Rightarrow> (Panic p, self1, os2)))"

definition isFull :: "backingFileDtor \<Rightarrow> int \<Rightarrow> bool" where
  "isFull self maxFileLen =
     (let newEntryLen = (if nbrEntries self > 0 then gLogEntryLen + 1 else gLogEntryLen);
          fileLen = (if nbrEntries self = 1 then gLogEntryLen
                     else if nbrEntries self > 1
                     then (nbrEntries self - 1) * (gLogEntryLen + 1) + gLogEntryLen
                     else 0)
      in fileLen + newEntryLen > maxFileLen)"

definition countEntries :: "string \<Rightarrow> int \<Rightarrow> int outcome" where
  "countEntries p sz =
     (if sz = 0 then Ok 0
      else if sz < gLogEntryLen
      then Fail (Error (''Invalid log file: '' @ p @ '': size is less than entry size'') None)
      else
        let remainder = sz - gLogEntryLen in
        if remainder mod (gLogEntryLen + 1) \<noteq> 0
        then Fail (Error (''Invalid log file: '' @ p @ '': size is not multiple of entry size'') None)
        else Ok (remainder div (gLogEntryLen + 1) + 1))"

text \<open>\<^term>\<open>None\<close> stands for the nil descriptor: there is no such file.\<close>

definition makeBackingFileDtor :: "string \<Rightarrow> int \<Rightarrow> os \<Rightarrow> backingFileDtor option outcome \<times> os" where
  "makeBackingFileDtor p start os =
     (case os_Open p os of
        (Fail e, os1) \<Rightarrow> if IsNotExist e then (Ok None, os1) else (Fail e, os1)
      | (Panic q, os1) \<Rightarrow> (Panic q, os1)
      | (Ok _, os1) \<Rightarrow>
          bind_io (file_Stat p) (\<lambda>sz.
          bind_io (\<lambda>os. (countEntries p sz, os)) (\<lambda>n.
          let dtor = \<lparr>path = p, nbrEntries = n, earliestTime = zero_time, latestTime = zero_time, startIdx = start\<rparr> in
          if n > 0 then
            bind_io (readEntry dtor (n - 1) p) (\<lambda>e1.
            bind_io (readEntry dtor 0 p) (\<lambda>e2.
            return_io (Some (dtor\<lparr>earliestTime := RunLogTime e1, latestTime := RunLogTime e2\<rparr>))))
          else return_io (Some dtor))) os1)"

section \<open>The log and its index\<close>

record fileRunLog =
  filePath :: string
  maxFileLen :: int
  maxHistories :: int
  index :: "backingFileDtor list"

definition historyPath :: "string \<Rightarrow> nat \<Rightarrow> string" where
  "historyPath p i = p @ ''.'' @ Itoa (int i)"

text \<open>The loop of \<open>makeIndex\<close> over the historical files \<open>i\<close>, \<open>i + 1\<close>, and so on; \<open>n\<close> of them are left.\<close>

fun makeIndex_loop :: "nat \<Rightarrow> nat \<Rightarrow> fileRunLog \<Rightarrow> os \<Rightarrow> unit outcome \<times> fileRunLog \<times> os" where
  "makeIndex_loop 0 i self os = (Ok (), self, os)"
| "makeIndex_loop (Suc n) i self os =
     (let prev = index self ! (i - 1); newStartIdx = startIdx prev + nbrEntries prev in
      case makeBackingFileDtor (historyPath (filePath self) i) newStartIdx os of
        (Fail e, os1) \<Rightarrow> (Fail e, self, os1)
      | (Panic p, os1) \<Rightarrow> (Panic p, self, os1)
      | (Ok None, os1) \<Rightarrow> (Ok (), self, os1)
      | (Ok (Some dtor), os1) \<Rightarrow> makeIndex_loop n (i + 1) (self\<lparr>index := index self @ [dtor]\<rparr>) os1)"

definition makeIndex :: "fileRunLog \<Rightarrow> os \<Rightarrow> unit outcome \<times> fileRunLog \<times> os" where
  "makeIndex self0 os =
     (let self = self0\<lparr>index := []\<rparr>;
          histories = (\<lambda>dtor. makeIndex_loop (nat (maxHistories self)) 1 (self\<lparr>index := [dtor]\<rparr>))
      in case makeBackingFileDtor (filePath self) 0 os of
           (Fail e, os1) \<Rightarrow> (Fail e, self, os1)
         | (Panic p, os1) \<Rightarrow> (Panic p, self, os1)
         | (Ok (Some dtor), os1) \<Rightarrow> histories dtor os1
         | (Ok None, os1) \<Rightarrow>
             (case os_Create (filePath self) os1 of
                (Fail e, os2) \<Rightarrow> (Fail e, self, os2)
              | (Panic p, os2) \<Rightarrow> (Panic p, self, os2)
              | (Ok _, os2) \<Rightarrow>
                  histories \<lparr>path = filePath self, nbrEntries = 0, earliestTime = zero_time,
                             latestTime = zero_time, startIdx = 0\<rparr> os2))"

section \<open>Renaming and rotation\<close>

text \<open>The copy loop of \<open>renameRobust\<close>; \<open>opened\<close> tells whether the new file could be opened.\<close>

function copy_loop :: "bool \<Rightarrow> string \<Rightarrow> string \<Rightarrow> os \<Rightarrow> unit outcome \<times> os" where
  "copy_loop opened newpath rest os =
     (case os_call (return_io ()) os of
        (Fail e, os1) \<Rightarrow> (Fail e, os1)
      | (Panic p, os1) \<Rightarrow> (Panic p, os1)
      | (Ok _, os1) \<Rightarrow>
          if rest = [] then (Ok (), os1)
          else
            case (if opened then file_WriteString newpath (take 1024 rest) os1 else (Fail invalid_argument, os1)) of
              (Fail e, os2) \<Rightarrow> (Fail e, os2)
            | (Panic p, os2) \<Rightarrow> (Panic p, os2)
            | (Ok _, os2) \<Rightarrow> copy_loop opened newpath (drop 1024 rest) os2)"
  by pat_completeness auto
termination
  by (relation "measure (\<lambda>(opened, newpath, rest, os). length rest)") auto

declare copy_loop.simps [simp del]

definition renameRobust :: "string \<Rightarrow> string \<Rightarrow> os \<Rightarrow> unit outcome \<times> os" where
  "renameRobust oldpath newpath os =
     (case os_Rename oldpath newpath os of
        (Fail e, os1) \<Rightarrow>
          bind_io (os_Open oldpath) (\<lambda>_.
          bind_io (file_Stat oldpath) (\<lambda>_ os2.
            let (r, os3) = os_Create newpath os2;
                contents = (case files os2 oldpath of None \<Rightarrow> [] | Some c \<Rightarrow> c)
            in bind_io (copy_loop (is_Ok r) newpath contents)
                 (\<lambda>_ os4. (Ok (), snd (os_Remove oldpath os4))) os3)) os1
      | r \<Rightarrow> r)"

text \<open>The loop of \<open>rotateFiles\<close> over the descriptors \<open>n - 1\<close> down to 0.\<close>

fun rotate_loop :: "nat \<Rightarrow> fileRunLog \<Rightarrow> os \<Rightarrow> unit outcome \<times> os" where
  "rotate_loop 0 self os = (Ok (), os)"
| "rotate_loop (Suc oldIdx) self os =
     (let newIdx = oldIdx + 1; oldPath = path (index self ! oldIdx) in
      bind_io
        (if int newIdx > maxHistories self then os_Remove oldPath
         else renameRobust oldPath (historyPath (filePath self) newIdx))
        (\<lambda>_. rotate_loop oldIdx self) os)"

definition rotateFiles :: "fileRunLog \<Rightarrow> os \<Rightarrow> unit outcome \<times> fileRunLog \<times> os" where
  "rotateFiles self os =
     (case rotate_loop (length (index self)) self os of
        (Fail e, os1) \<Rightarrow> (Fail e, self, os1)
      | (Panic p, os1) \<Rightarrow> (Panic p, self, os1)
      | (Ok _, os1) \<Rightarrow> makeIndex self os1)"

section \<open>The iterator\<close>

text \<open>\<open>iter_open\<close> tells whether the iterator holds an open file. \<open>Len\<close> is the number of all entries.\<close>

record entryIterator =
  entryRelIdx :: int
  dtorIdx :: int
  iter_open :: bool

definition file_Len :: "fileRunLog \<Rightarrow> int" where
  "file_Len self = foldl (\<lambda>n dtor. n + nbrEntries dtor) 0 (index self)"

definition dtor_at :: "fileRunLog \<Rightarrow> entryIterator \<Rightarrow> backingFileDtor" where
  "dtor_at log self = index log ! nat (dtorIdx self)"

definition iter_done :: "fileRunLog \<Rightarrow> entryIterator \<Rightarrow> bool" where
  "iter_done log self \<longleftrightarrow>
     entryRelIdx self \<ge> nbrEntries (dtor_at log self) \<and> dtorIdx self + 1 \<ge> int (length (index log))"

definition iter_close :: "entryIterator \<Rightarrow> entryIterator" where
  "iter_close self = self\<lparr>iter_open := False\<rparr>"

text \<open>\<open>next\<close>: it calls itself once for each file it leaves.\<close>

function iter_next ::
    "fileRunLog \<Rightarrow> entryIterator \<Rightarrow> os \<Rightarrow> RunLogEntry outcome \<times> entryIterator \<times> os" where
  "iter_next log self os =
     (if iter_done log self then (Panic ''Iterator is done'', self, os)
      else if entryRelIdx self \<ge> nbrEntries (dtor_at log self) then
        iter_next log ((iter_close self)\<lparr>dtorIdx := dtorIdx self + 1, entryRelIdx := 0\<rparr>) os
      else
        case (if iter_open self then (Ok (), os) else os_Open (path (dtor_at log self)) os) of
          (Fail e, os1) \<Rightarrow> (Fail e, self, os1)
        | (Panic p, os1) \<Rightarrow> (Panic p, self, os1)
        | (Ok _, os1) \<Rightarrow>
            (case readEntry (dtor_at log self) (entryRelIdx self) (path (dtor_at log self)) os1 of
               (Ok entry, os2) \<Rightarrow>
                 (Ok entry, self\<lparr>iter_open := True, entryRelIdx := entryRelIdx self + 1\<rparr>, os2)
             | (Fail e, os2) \<Rightarrow> (Fail e, self\<lparr>iter_open := True\<rparr>, os2)
             | (Panic p, os2) \<Rightarrow> (Panic p, self\<lparr>iter_open := True\<rparr>, os2)))"
  by pat_completeness auto
termination
  by (relation "measure (\<lambda>(log, self, os). nat (int (length (index log)) - dtorIdx self))")
     (auto simp: iter_done_def)

declare iter_next.simps [simp del]

fun iterAt_loop :: "backingFileDtor list \<Rightarrow> int \<Rightarrow> int \<Rightarrow> entryIterator option" where
  "iterAt_loop [] i idx = None"
| "iterAt_loop (dtor # dtors) i idx =
     (if startIdx dtor \<le> idx \<and> startIdx dtor + nbrEntries dtor > idx
      then Some \<lparr>entryRelIdx = idx - startIdx dtor, dtorIdx = i, iter_open = False\<rparr>
      else iterAt_loop dtors (i + 1) idx)"

definition iterAt :: "fileRunLog \<Rightarrow> int \<Rightarrow> entryIterator outcome" where
  "iterAt self idx =
     (if idx \<ge> file_Len self then Panic (''Invalid index: '' @ Itoa idx)
      else case iterAt_loop (index self) 0 idx of
          None \<Rightarrow> Panic ''Bug!''
        | Some iter \<Rightarrow> Ok iter)"

section \<open>Reading the log\<close>

text \<open>Each successful \<open>next\<close> moves the iterator to a later entry, so the reading loops end.\<close>

lemma iter_next_moves:
  assumes "iter_next log self os = (Ok entry, self1, os1)"
  shows "dtorIdx self < dtorIdx self1 \<and> dtorIdx self1 < int (length (index log)) \<or>
    dtorIdx self1 = dtorIdx self \<and> entryRelIdx self1 = entryRelIdx self + 1 \<and>
      entryRelIdx self < nbrEntries (dtor_at log self)"
  using assms
proof (induction log self os rule: iter_next.induct)
  case (1 log self os)
  show ?case
  proof (cases "entryRelIdx self \<ge> nbrEntries (dtor_at log self)")
    case True
    let ?self = "(iter_close self)\<lparr>dtorIdx := dtorIdx self + 1, entryRelIdx := 0\<rparr>"
    have nd: "\<not> iter_done log self" using "1.prems" by (auto simp: iter_next.simps [of log self])
    then have "iter_next log ?self os = (Ok entry, self1, os1)"
      using "1.prems" True by (simp add: iter_next.simps [of log self])
    then show ?thesis using "1.IH" [OF nd True] nd True by (auto simp: iter_done_def)
  next
    case False
    then show ?thesis using "1.prems"
      by (auto simp: iter_next.simps [of log self os] split: if_splits prod.splits outcome.splits)
  qed
qed

function getFromTime_loop ::
    "fileRunLog \<Rightarrow> go_time \<Rightarrow> entryIterator \<Rightarrow> RunLogEntry list \<Rightarrow> os \<Rightarrow> RunLogEntry list outcome \<times> os" where
  "getFromTime_loop log minTime iter result os =
     (if iter_done log iter then (Ok result, os)
      else
        case iter_next log iter os of
          (Fail e, iter1, os1) \<Rightarrow> (Fail e, os1)
        | (Panic p, iter1, os1) \<Rightarrow> (Panic p, os1)
        | (Ok entry, iter1, os1) \<Rightarrow>
            if After (RunLogTime entry) minTime
            then getFromTime_loop log minTime iter1 (result @ [entry]) os1
            else (Ok result, os1))"
  by pat_completeness auto
termination
proof (relation "measures [\<lambda>(log, minTime, iter, result, os). nat (int (length (index log)) - dtorIdx iter),
    \<lambda>(log, minTime, iter, result, os). nat (nbrEntries (dtor_at log iter) - entryRelIdx iter)]", goal_cases)
  case 1
  show ?case by simp
next
  case (2 log minTime iter result os x y entry iter1 os1)
  then have "iter_next log iter os = (Ok entry, iter1, os1)" by simp
  from iter_next_moves [OF this] show ?case by (auto simp: dtor_at_def)
qed

declare getFromTime_loop.simps [simp del]

text \<open>The file in which \<open>GetFromTime\<close> looks for the latest entry to return: the first whose span has \<open>maxTime\<close>.\<close>

definition spans :: "go_time \<Rightarrow> backingFileDtor \<Rightarrow> bool" where
  "spans maxTime dtor \<longleftrightarrow> \<not> After (earliestTime dtor) maxTime \<and> \<not> Before (latestTime dtor) maxTime"

definition file_GetFromTime ::
    "fileRunLog \<Rightarrow> go_time \<Rightarrow> go_time list \<Rightarrow> os \<Rightarrow> RunLogEntry list outcome \<times> os" where
  "file_GetFromTime self maxTime timeArr os =
     (if length timeArr > 1 then (Panic ''Too many args.'', os)
      else if file_Len self = 0 then (Ok [], os)
      else
        let minTime = (case timeArr of
                t # _ \<Rightarrow> t
              | [] \<Rightarrow> Add (earliestTime (last (index self))) (- Second_dur)) in
        if Before maxTime minTime then (Panic ''maxTime is before minTime'', os)
        else
          case find (spans maxTime) (index self) of
            None \<Rightarrow> (Ok [], os)
          | Some dtor \<Rightarrow>
              bind_io (os_Open (path dtor)) (\<lambda>_.
              bind_io (firstEntryNotAfter dtor maxTime (path dtor)) (\<lambda>relStartIdx.
              bind_io (\<lambda>os. (iterAt self (relStartIdx + startIdx dtor), os)) (\<lambda>iter.
              getFromTime_loop self minTime iter []))) os)"

fun getFromIndex_loop ::
    "nat \<Rightarrow> fileRunLog \<Rightarrow> entryIterator \<Rightarrow> RunLogEntry list \<Rightarrow> os \<Rightarrow> RunLogEntry list outcome \<times> os" where
  "getFromIndex_loop 0 log iter result os = (Ok result, os)"
| "getFromIndex_loop (Suc n) log iter result os =
     (case iter_next log iter os of
        (Fail e, iter1, os1) \<Rightarrow> (Fail e, os1)
      | (Panic p, iter1, os1) \<Rightarrow> (Panic p, os1)
      | (Ok entry, iter1, os1) \<Rightarrow> getFromIndex_loop n log iter1 (result @ [entry]) os1)"

definition file_GetFromIndex ::
    "fileRunLog \<Rightarrow> int \<Rightarrow> int list \<Rightarrow> os \<Rightarrow> RunLogEntry list outcome \<times> os" where
  "file_GetFromIndex self minIdx idxArr os =
     (if length idxArr > 1 then (Panic ''Too many args.'', os)
      else
        let maxIdx = (case idxArr of j # _ \<Rightarrow> j | [] \<Rightarrow> file_Len self) in
        if minIdx > maxIdx then (Panic ''from > to'', os)
        else if minIdx \<ge> file_Len self then (Panic (''Invalid 'minIdx' index: '' @ Itoa minIdx), os)
        else if maxIdx > file_Len self then (Panic (''Invalid 'maxIdx' index: '' @ Itoa maxIdx), os)
        else bind_io (\<lambda>os. (iterAt self minIdx, os)) (\<lambda>iter.
               getFromIndex_loop (nat (maxIdx - minIdx)) self iter []) os)"

function getAll_loop ::
    "fileRunLog \<Rightarrow> entryIterator \<Rightarrow> RunLogEntry list \<Rightarrow> os \<Rightarrow> RunLogEntry list outcome \<times> os" where
  "getAll_loop log iter result os =
     (if iter_done log iter then (Ok result, os)
      else
        case iter_next log iter os of
          (Fail e, iter1, os1) \<Rightarrow> (Fail e, os1)
        | (Panic p, iter1, os1) \<Rightarrow> (Panic p, os1)
        | (Ok entry, iter1, os1) \<Rightarrow> getAll_loop log iter1 (result @ [entry]) os1)"
  by pat_completeness auto
termination
proof (relation "measures [\<lambda>(log, iter, result, os). nat (int (length (index log)) - dtorIdx iter),
    \<lambda>(log, iter, result, os). nat (nbrEntries (dtor_at log iter) - entryRelIdx iter)]", goal_cases)
  case 1
  show ?case by simp
next
  case (2 log iter result os x y entry iter1 os1)
  then have "iter_next log iter os = (Ok entry, iter1, os1)" by simp
  from iter_next_moves [OF this] show ?case by (auto simp: dtor_at_def)
qed

declare getAll_loop.simps [simp del]

definition file_GetAll :: "fileRunLog \<Rightarrow> os \<Rightarrow> RunLogEntry list outcome \<times> os" where
  "file_GetAll self os =
     (if file_Len self = 0 then (Ok [], os)
      else bind_io (\<lambda>os. (iterAt self 0, os)) (\<lambda>iter. getAll_loop self iter []) os)"

section \<open>Writing the log\<close>

text \<open>
  The loop of \<open>putOutOfOrder\<close> that copies the entries \<open>i\<close> down to \<open>lastIdx\<close> of the current file to
  the temporary one, with the new entry before entry \<open>insertIdx\<close>; \<open>n\<close> rounds are left.
\<close>

definition pushInserted ::
    "int \<Rightarrow> int \<Rightarrow> RunLogEntry \<Rightarrow> RunLogEntry \<Rightarrow> backingFileDtor \<Rightarrow> os \<Rightarrow> unit outcome \<times> backingFileDtor \<times> os" where
  "pushInserted i insertIdx entry currEntry tmpDtor os =
     (case (if i = insertIdx then pushEntryF tmpDtor entry (path tmpDtor) os else (Ok (), tmpDtor, os)) of
        (Ok _, tmpDtor1, os1) \<Rightarrow> pushEntryF tmpDtor1 currEntry (path tmpDtor) os1
      | (Fail e, tmpDtor1, os1) \<Rightarrow> (Fail e, tmpDtor1, os1)
      | (Panic p, tmpDtor1, os1) \<Rightarrow> (Panic p, tmpDtor1, os1))"

fun copyEntries ::
    "nat \<Rightarrow> int \<Rightarrow> int \<Rightarrow> RunLogEntry \<Rightarrow> backingFileDtor \<Rightarrow> backingFileDtor \<Rightarrow> os \<Rightarrow>
     unit outcome \<times> backingFileDtor \<times> os" where
  "copyEntries 0 i insertIdx entry dtor tmpDtor os = (Ok (), tmpDtor, os)"
| "copyEntries (Suc n) i insertIdx entry dtor tmpDtor os =
     (case readEntry dtor i (path dtor) os of
        (Fail e, os1) \<Rightarrow> (Fail e, tmpDtor, os1)
      | (Panic p, os1) \<Rightarrow> (Panic p, tmpDtor, os1)
      | (Ok currEntry, os1) \<Rightarrow>
          (case pushInserted i insertIdx entry currEntry tmpDtor os1 of
             (Ok _, tmpDtor1, os2) \<Rightarrow> copyEntries n (i - 1) insertIdx entry dtor tmpDtor1 os2
           | r \<Rightarrow> r))"

text \<open>An error after the temporary file was made: the file is removed.\<close>

definition removing :: "string \<Rightarrow> ('s \<Rightarrow> 'a outcome \<times> 's) \<Rightarrow> ('s \<Rightarrow> 's) \<Rightarrow> 's \<Rightarrow> 'a outcome \<times> 's" where
  "removing tmp call remove s =
     (case call s of (Fail e, s1) \<Rightarrow> (Fail e, remove s1) | r \<Rightarrow> r)"

text \<open>\<open>tmp\<close> is the path that \<open>ioutil.TempFile\<close> picks.\<close>

definition rewriteFile ::
    "string \<Rightarrow> bool \<Rightarrow> int \<Rightarrow> RunLogEntry \<Rightarrow> backingFileDtor \<Rightarrow> os \<Rightarrow>
     (backingFileDtor \<times> RunLogEntry option) outcome \<times> os" where
  "rewriteFile tmp mustRotate insertIdx entry dtor =
     bind_io (wrap_io (\<lambda>e. Error ''Failed to make temp file'' (Some e)) (os_Create tmp)) (\<lambda>_.
     removing tmp
       (bind_io (makeBackingFileDtor tmp 0) (\<lambda>tmpDtor.
        bind_io (\<lambda>os.
           let lastIdx = (if mustRotate then 1 else 0) in
           case tmpDtor of
             None \<Rightarrow> (Panic ''nil pointer dereference'', os)
           | Some d \<Rightarrow>
               (case copyEntries (nat (nbrEntries dtor - lastIdx)) (nbrEntries dtor - 1) insertIdx entry dtor d os of
                  (Ok _, d1, os1) \<Rightarrow> (Ok d1, os1)
                | (Fail e, d1, os1) \<Rightarrow> (Fail e, os1)
                | (Panic p, d1, os1) \<Rightarrow> (Panic p, os1))) (\<lambda>d1.
        bind_io (if mustRotate
                 then bind_io (readEntry dtor 0 (path dtor)) (\<lambda>entry0. return_io (Some entry0))
                 else return_io None) (\<lambda>entry0.
        bind_io (wrap_io (\<lambda>e. Error ''Failed to replace old backing file with new'' (Some e))
                   (renameRobust tmp (path dtor))) (\<lambda>_.
        return_io (d1\<lparr>path := path dtor\<rparr>, entry0))))))
       (\<lambda>os. snd (os_Remove tmp os)))"

definition putOutOfOrder ::
    "string \<Rightarrow> fileRunLog \<Rightarrow> RunLogEntry \<Rightarrow> os \<Rightarrow> unit outcome \<times> fileRunLog \<times> os" where
  "putOutOfOrder tmp self entry os =
     (let dtor = index self ! 0;
          mustRotate = isFull dtor (maxFileLen self);
          rewrite = bind_io (wrap_io (\<lambda>e. Error ''Failed to open backing file'' (Some e)) (os_Open (path dtor))) (\<lambda>_.
             bind_io (firstEntryNotAfter dtor (RunLogTime entry) (path dtor)) (\<lambda>i.
             rewriteFile tmp mustRotate (i - 1) entry dtor))
      in if After (earliestTime dtor) (RunLogTime entry)
         then (Fail (Error ''Entry is too out-of-order'' None), self, os)
         else
           case rewrite os of
             (Fail e, os1) \<Rightarrow> (Fail e, self, os1)
           | (Panic p, os1) \<Rightarrow> (Panic p, self, os1)
           | (Ok (tmpDtor, entry0), os1) \<Rightarrow>
               let self1 = self\<lparr>index := (index self)[0 := tmpDtor]\<rparr> in
               (case entry0 of
                  None \<Rightarrow> (Ok (), self1, os1)
                | Some e0 \<Rightarrow>
                    (case rotateFiles self1 os1 of
                       (Ok _, self2, os2) \<Rightarrow>
                         (case pushEntry (index self2 ! 0) e0 os2 of
                            (r, dtor1, os3) \<Rightarrow> (r, self2\<lparr>index := (index self2)[0 := dtor1]\<rparr>, os3))
                     | r \<Rightarrow> r)))"

definition file_Put ::
    "string \<Rightarrow> fileRunLog \<Rightarrow> RunLogEntry \<Rightarrow> os \<Rightarrow> unit outcome \<times> fileRunLog \<times> os" where
  "file_Put tmp self entry os =
     (if index self = [] then (Panic ''Index is not made'', self, os)
      else
        let dtor = index self ! 0 in
        if nbrEntries dtor > 0 \<and> After (earliestTime dtor) (RunLogTime entry)
        then (Fail (Error ''Entry's timestamp is too early'' None), self, os)
        else
          let outOfOrder = (nbrEntries dtor > 0 \<and> After (latestTime dtor) (RunLogTime entry)) in
          if \<not> outOfOrder then
            (case (if isFull dtor (maxFileLen self) then rotateFiles self os else (Ok (), self, os)) of
               (Ok _, self1, os1) \<Rightarrow>
                 (case pushEntry (index self1 ! 0) entry os1 of
                    (Ok _, dtor1, os2) \<Rightarrow>
                      (Ok (), self1\<lparr>index := dtor1 # map (\<lambda>d. d\<lparr>startIdx := startIdx d + 1\<rparr>) (tl (index self1))\<rparr>, os2)
                  | (Fail e, dtor1, os2) \<Rightarrow> (Fail e, self1\<lparr>index := (index self1)[0 := dtor1]\<rparr>, os2)
                  | (Panic p, dtor1, os2) \<Rightarrow> (Panic p, self1\<lparr>index := (index self1)[0 := dtor1]\<rparr>, os2))
             | r \<Rightarrow> r)
          else putOutOfOrder tmp self entry os)"

definition NewFileRunLog :: "string \<Rightarrow> int \<Rightarrow> int \<Rightarrow> os \<Rightarrow> fileRunLog outcome \<times> os" where
  "NewFileRunLog fp maxLen maxHist os =
     (case makeIndex \<lparr>filePath = fp, maxFileLen = maxLen, maxHistories = maxHist, index = []\<rparr> os of
        (Ok _, log, os1) \<Rightarrow> (Ok log, os1)
      | (Fail e, log, os1) \<Rightarrow> (Fail e, os1)
      | (Panic p, log, os1) \<Rightarrow> (Panic p, os1))"

definition fileRunLog_String :: "fileRunLog \<Rightarrow> string" where
  "fileRunLog_String self =
     ''FileRunLog{filePath: '' @ filePath self @ '', maxFileLen: '' @ Itoa (maxFileLen self) @
     '', maxHistories: '' @ Itoa (maxHistories self) @ ''}''"

end
