(* ===== verification/File_Run_Log_Spec.thy ===== *)
theory File_Run_Log_Spec
  imports File_Run_Log
begin

text \<open>
  What the run log on disk promises, when no call to the operating system fails: its invariant,
  the contract of the run log for entries that arrive in order, the bounds of its files, and
  that a log opened again holds the same entries.

  The invariant says that the index and the files together hold a list of blocks, one per
  backing file, the current one first, each in ascending order of time.
\<close>

section \<open>Records in a file\<close>

definition enc :: "RunLogEntry \<Rightarrow> string" where
  "enc e = (case encodeRunLogEntry e of Ok s \<Rightarrow> s | _ \<Rightarrow> [])"

definition file_bytes :: "RunLogEntry list \<Rightarrow> string" where
  "file_bytes es = Join (map enc es) [CHR 0x0A]"

lemma enc_spec:
  assumes "encodable e"
  shows "encodeRunLogEntry e = Ok (enc e)" "length (enc e) = 64" "decodeRunLogEntry (enc e) = Ok e"
    "CHR 0x0A \<notin> set (enc e)"
proof -
  have e: "encodeRunLogEntry e = Ok (entry_text e @ replicate (64 - length (entry_text e)) CHR '' '')"
    by (rule encode_eq [OF assms])
  then have enc: "enc e = entry_text e @ replicate (64 - length (entry_text e)) CHR '' ''" by (simp add: enc_def)
  show ok: "encodeRunLogEntry e = Ok (enc e)" using e enc by simp
  show "length (enc e) = 64" "decodeRunLogEntry (enc e) = Ok e" using decode_encode [OF assms ok] by simp_all
  show "CHR 0x0A \<notin> set (enc e)" unfolding enc using entry_text_no_newline [of e] by simp
qed

lemma Join_records:
  assumes "\<And>x. x \<in> set xs \<Longrightarrow> length x = 64" "k < length xs"
  shows "take 64 (drop (65 * k) (Join xs [c])) = xs ! k \<and> 65 * k + 64 \<le> length (Join xs [c])"
  using assms
proof (induction xs "[c]" arbitrary: k rule: Join.induct)
  case 1
  then show ?case by simp
next
  case (2 p)
  then show ?case by simp
next
  case (3 p q ps)
  show ?case
  proof (cases k)
    case 0
    then show ?thesis using 3 by simp
  next
    case (Suc j)
    have split: "Join (p # q # ps) [c] = (p @ [c]) @ Join (q # ps) [c]" by simp
    have len: "length (p @ [c]) = 65" "65 * k = 65 + 65 * j" using "3.prems"(1) [of p] Suc by simp_all
    have "drop (65 * k) (Join (p # q # ps) [c]) = drop (65 * j) (Join (q # ps) [c])"
      unfolding split drop_append len(2) using len(1) by simp
    moreover have "length (Join (p # q # ps) [c]) = 65 + length (Join (q # ps) [c])"
      unfolding split using len(1) by simp
    ultimately show ?thesis using "3.hyps" [of j] "3.prems" len(2) unfolding Suc by simp
  qed
qed

lemma file_bytes_length:
  assumes "\<And>e. e \<in> set es \<Longrightarrow> encodable e"
  shows "length (file_bytes es) = (if es = [] then 0 else 65 * length es - 1)"
  using assms
proof (induction es rule: induct_list012)
  case (3 x y zs)
  then show ?case by (simp add: file_bytes_def enc_spec)
qed (simp_all add: file_bytes_def enc_spec)

lemma file_bytes_snoc:
  "file_bytes (es @ [e]) = (if es = [] then enc e else file_bytes es @ CHR 0x0A # enc e)"
  by (induction es rule: induct_list012) (simp_all add: file_bytes_def Join_Cons)

lemma readEntry_spec:
  assumes "faults os = []" "files os p = Some (file_bytes es)" "\<And>e. e \<in> set es \<Longrightarrow> encodable e"
    "nbrEntries d = int (length es)" "i < length es"
  shows "readEntry d (int i) p os = (Ok (rev es ! i), os)"
proof -
  define k where "k = length es - 1 - i"
  have k: "k < length es" "rev es ! i = es ! k" using assms(5) by (simp_all add: k_def rev_nth)
  have off: "offsetOfEntry d (int i) = Ok (int (65 * k))"
    using assms(4,5) by (simp add: offsetOfEntry_def gLogEntryLen_def k_def of_nat_diff algebra_simps)
  have rec: "take 64 (drop (65 * k) (file_bytes es)) = enc (es ! k)" "65 * k + 64 \<le> length (file_bytes es)"
  proof -
    have "length x = 64" if "x \<in> set (map enc es)" for x using that assms(3) by (auto simp: enc_spec)
    from Join_records [of "map enc es" k, OF this] show "take 64 (drop (65 * k) (file_bytes es)) = enc (es ! k)"
        "65 * k + 64 \<le> length (file_bytes es)"
      using k(1) by (simp_all add: file_bytes_def)
  qed
  have "file_ReadAt p gLogEntryLen (int (65 * k)) os = (Ok (enc (es ! k)), os)"
    using assms(1,2) rec by (simp add: file_ReadAt_def gLogEntryLen_def del: of_nat_mult)
  then have "readEntryBytes d (int i) p os = (Ok (enc (es ! k)), os)"
    using off by (simp add: readEntryBytes_def)
  then show ?thesis using k assms(3) by (simp add: readEntry_def enc_spec)
qed

section \<open>Blocks, index and files\<close>

definition dtor_of :: "string \<Rightarrow> int \<Rightarrow> RunLogEntry list \<Rightarrow> backingFileDtor" where
  "dtor_of p start es =
     \<lparr>path = p, nbrEntries = int (length es),
      earliestTime = (if es = [] then zero_time else RunLogTime (hd es)),
      latestTime = (if es = [] then zero_time else RunLogTime (last es)), startIdx = start\<rparr>"

definition pathN :: "string \<Rightarrow> nat \<Rightarrow> string" where
  "pathN p i = (if i = 0 then p else historyPath p i)"

definition index_of :: "string \<Rightarrow> RunLogEntry list list \<Rightarrow> backingFileDtor list" where
  "index_of p bs = map (\<lambda>k. dtor_of (pathN p k) (int (length (concat (take k bs)))) (bs ! k)) [0..<length bs]"

definition disk :: "string \<Rightarrow> RunLogEntry list list \<Rightarrow> os \<Rightarrow> bool" where
  "disk p bs os \<longleftrightarrow> faults os = [] \<and>
     (\<forall>k. files os (pathN p k) = (if k < length bs then Some (file_bytes (bs ! k)) else None)) \<and>
     (\<forall>b \<in> set bs. \<forall>e \<in> set b. encodable e)"

lemma pathN_inj [simp]: "pathN p i = pathN p j \<longleftrightarrow> i = j"
proof -
  have "Itoa (int i) = Itoa (int j) \<Longrightarrow> i = j"
    by (metis digits_val_nat_str Itoa_def of_nat_less_0_iff nat_int)
  then show ?thesis by (auto simp: pathN_def historyPath_def)
qed

lemma index_of_nth:
  "k < length bs \<Longrightarrow> index_of p bs ! k = dtor_of (pathN p k) (int (length (concat (take k bs)))) (bs ! k)"
  by (simp add: index_of_def)

lemma index_of_length [simp]: "length (index_of p bs) = length bs"
  by (simp add: index_of_def)

lemma index_of_snoc:
  "index_of p (bs @ [b]) = index_of p bs @ [dtor_of (pathN p (length bs)) (int (length (concat bs))) b]"
  by (auto simp: index_of_def nth_append)

lemma dtor_of_simps [simp]:
  "path (dtor_of p s es) = p" "nbrEntries (dtor_of p s es) = int (length es)" "startIdx (dtor_of p s es) = s"
  by (simp_all add: dtor_of_def)

lemma makeBackingFileDtor_spec:
  assumes "faults os = []" "files os p = Some (file_bytes es)" "\<And>e. e \<in> set es \<Longrightarrow> encodable e"
  shows "makeBackingFileDtor p s os = (Ok (Some (dtor_of p s es)), os)"
proof -
  have count: "countEntries p (int (length (file_bytes es))) = Ok (int (length es))"
  proof -
    have "length (file_bytes es) = (if es = [] then 0 else 65 * length es - 1)"
      by (rule file_bytes_length) (rule assms(3))
    then show ?thesis by (cases es) (simp_all add: countEntries_def gLogEntryLen_def)
  qed
  have stat: "file_Stat p os = (Ok (int (length (file_bytes es))), os)"
    using assms(1,2) by (simp add: file_Stat_def)
  have opn: "os_Open p os = (Ok (), os)" using assms(1,2) by (simp add: os_Open_def)
  show ?thesis
  proof (cases "es = []")
    case True
    then show ?thesis using opn stat count
      by (simp add: makeBackingFileDtor_def return_io_def dtor_of_def)
  next
    case False
    let ?d = "\<lparr>path = p, nbrEntries = int (length es), earliestTime = zero_time, latestTime = zero_time, startIdx = s\<rparr>"
    have "readEntry ?d (int (length es) - 1) p os = (Ok (hd es), os)"
      using readEntry_spec [OF assms, of ?d "length es - 1"] False
      by (simp add: of_nat_diff Suc_le_eq rev_nth hd_conv_nth)
    moreover have "readEntry ?d 0 p os = (Ok (last es), os)"
      using readEntry_spec [OF assms, of ?d 0] False by (simp add: rev_nth last_conv_nth)
    ultimately show ?thesis using opn stat count False
      by (simp add: makeBackingFileDtor_def return_io_def dtor_of_def Let_def)
  qed
qed

lemma makeBackingFileDtor_None:
  "faults os = [] \<Longrightarrow> files os p = None \<Longrightarrow> makeBackingFileDtor p s os = (Ok None, os)"
  by (simp add: makeBackingFileDtor_def os_Open_def IsNotExist_def)


text \<open>Making the index from the files.\<close>

lemma index_of_take_Suc:
  assumes "i < length bs"
  shows "index_of p (take (Suc i) bs) =
    index_of p (take i bs) @ [dtor_of (pathN p i) (int (length (concat (take i bs)))) (bs ! i)]"
  using assms index_of_snoc [of p "take i bs" "bs ! i"] by (simp add: take_Suc_conv_app_nth)

lemma makeIndex_loop_spec:
  assumes "disk (filePath log) bs os" "index log = index_of (filePath log) (take i bs)"
    "0 < i" "i \<le> length bs" "length bs \<le> i + n"
  shows "makeIndex_loop n i log os = (Ok (), log\<lparr>index := index_of (filePath log) bs\<rparr>, os)"
  using assms
proof (induction n arbitrary: i log)
  case 0
  then show ?case by simp
next
  case (Suc n)
  let ?p = "filePath log"
  have path: "historyPath ?p i = pathN ?p i" using Suc.prems(3) by (simp add: pathN_def)
  have fs: "faults os = []" "files os (pathN ?p i) = (if i < length bs then Some (file_bytes (bs ! i)) else None)"
    using Suc.prems(1) by (simp_all add: disk_def)
  have prev: "index log ! (i - 1) = dtor_of (pathN ?p (i - 1)) (int (length (concat (take (i - 1) bs)))) (bs ! (i - 1))"
    using Suc.prems by (simp add: index_of_nth min_def)
  have "take i bs = take (i - 1) bs @ [bs ! (i - 1)]"
    using Suc.prems(3,4) take_Suc_conv_app_nth [of "i - 1" bs] by simp
  then have start: "startIdx (index log ! (i - 1)) + nbrEntries (index log ! (i - 1)) = int (length (concat (take i bs)))"
    unfolding prev by simp
  show ?case
  proof (cases "i < length bs")
    case True
    let ?log = "log\<lparr>index := index_of ?p (take (Suc i) bs)\<rparr>"
    have "makeBackingFileDtor (pathN ?p i) (int (length (concat (take i bs)))) os =
        (Ok (Some (dtor_of (pathN ?p i) (int (length (concat (take i bs)))) (bs ! i))), os)"
      using fs True Suc.prems(1) by (intro makeBackingFileDtor_spec) (auto simp: disk_def)
    then have "makeIndex_loop (Suc n) i log os = makeIndex_loop n (Suc i) ?log os"
      unfolding makeIndex_loop.simps Let_def path start
      using True Suc.prems(2) by (simp add: index_of_take_Suc)
    also have "\<dots> = (Ok (), log\<lparr>index := index_of ?p bs\<rparr>, os)"
      using Suc.IH [of ?log "Suc i"] Suc.prems True by simp
    finally show ?thesis .
  next
    case False
    then show ?thesis unfolding makeIndex_loop.simps Let_def path start
      using Suc.prems(2,4) fs makeBackingFileDtor_None by simp
  qed
qed

lemma index_of_single: "index_of p (take (Suc 0) (b # bs)) = [dtor_of p 0 b]"
  by (simp add: index_of_def pathN_def)

lemma makeIndex_spec:
  assumes "disk (filePath log) (b # bs) os" "length bs \<le> nat (maxHistories log)"
  shows "makeIndex log os = (Ok (), log\<lparr>index := index_of (filePath log) (b # bs)\<rparr>, os)"
proof -
  have fs: "faults os = []" "files os (filePath log) = Some (file_bytes b)"
    using assms(1) by (auto simp: disk_def pathN_def dest: spec [of _ 0])
  have "makeBackingFileDtor (filePath log) 0 os = (Ok (Some (dtor_of (filePath log) 0 b)), os)"
    using fs assms(1) by (intro makeBackingFileDtor_spec) (auto simp: disk_def)
  moreover have "makeIndex_loop (nat (maxHistories log)) 1 (log\<lparr>index := [dtor_of (filePath log) 0 b]\<rparr>) os =
      (Ok (), log\<lparr>index := index_of (filePath log) (b # bs)\<rparr>, os)"
    using makeIndex_loop_spec [of "log\<lparr>index := [dtor_of (filePath log) 0 b]\<rparr>" "b # bs" os 1] assms
      index_of_single [of "filePath log" b bs] by simp
  ultimately show ?thesis by (simp add: makeIndex_def Let_def)
qed

text \<open>With no current file, \<open>makeIndex\<close> makes an empty one.\<close>

lemma makeIndex_fresh:
  assumes "faults os = []" "files os (filePath log) = None"
    "disk (filePath log) ([] # bs) (os\<lparr>files := (files os)(filePath log \<mapsto> [])\<rparr>)"
    "length bs \<le> nat (maxHistories log)"
  shows "makeIndex log os = (Ok (), log\<lparr>index := index_of (filePath log) ([] # bs)\<rparr>,
    os\<lparr>files := (files os)(filePath log \<mapsto> [])\<rparr>)"
proof -
  let ?os = "os\<lparr>files := (files os)(filePath log \<mapsto> [])\<rparr>"
  have "makeBackingFileDtor (filePath log) 0 os = (Ok None, os)"
    using assms(1,2) by (rule makeBackingFileDtor_None)
  moreover have "os_Create (filePath log) os = (Ok (), ?os)" using assms(1) by (simp add: os_Create_def)
  moreover have "dtor_of (filePath log) 0 [] = \<lparr>path = filePath log, nbrEntries = 0, earliestTime = zero_time,
      latestTime = zero_time, startIdx = 0\<rparr>" by (simp add: dtor_of_def)
  moreover have "makeIndex_loop (nat (maxHistories log)) 1 (log\<lparr>index := [dtor_of (filePath log) 0 []]\<rparr>) ?os =
      (Ok (), log\<lparr>index := index_of (filePath log) ([] # bs)\<rparr>, ?os)"
    using makeIndex_loop_spec [of "log\<lparr>index := [dtor_of (filePath log) 0 []]\<rparr>" "[] # bs" ?os 1] assms(3,4)
      index_of_single [of "filePath log" "[]" bs] by simp
  ultimately show ?thesis by (simp add: makeIndex_def Let_def)
qed

section \<open>Rotation\<close>

lemma renameRobust_ok:
  assumes "faults os = []" "files os old = Some c"
  shows "renameRobust old new os = (Ok (), os\<lparr>files := ((files os)(old := None))(new \<mapsto> c)\<rparr>)"
  using assms by (simp add: renameRobust_def os_Rename_def)

lemma rotate_loop_spec:
  assumes "faults os = []" "\<And>k. k < n \<Longrightarrow> path (index log ! k) = pathN (filePath log) k"
    "\<And>k. k < n \<Longrightarrow> files os (pathN (filePath log) k) \<noteq> None" "int n \<le> maxHistories log + 1"
  shows "\<exists>os'. rotate_loop n log os = (Ok (), os') \<and> faults os' = [] \<and>
    (\<forall>k. files os' (pathN (filePath log) k) =
       (if k = 0 \<and> 0 < n then None
        else if 0 < k \<and> k \<le> n \<and> int k \<le> maxHistories log then files os (pathN (filePath log) (k - 1))
        else files os (pathN (filePath log) k)))"
  using assms
proof (induction n arbitrary: os)
  case 0
  then show ?case by auto
next
  case (Suc m)
  let ?p = "filePath log"
  obtain c where c: "files os (pathN ?p m) = Some c" using Suc.prems(3) [of m] by auto
  define os1 where "os1 = (if int (Suc m) > maxHistories log then os\<lparr>files := (files os)(pathN ?p m := None)\<rparr>
      else os\<lparr>files := ((files os)(pathN ?p m := None))(pathN ?p (Suc m) \<mapsto> c)\<rparr>)"
  have hist: "historyPath ?p (Suc m) = pathN ?p (Suc m)" by (simp add: pathN_def)
  have step: "rotate_loop (Suc m) log os = rotate_loop m log os1"
    using Suc.prems(1,2) c by (auto simp: Let_def os1_def hist os_Remove_def renameRobust_ok)
  have fs: "faults os1 = []" "files os1 (pathN ?p k) = (if k = m then None
      else if k = Suc m \<and> int (Suc m) \<le> maxHistories log then Some c else files os (pathN ?p k))" for k
    using Suc.prems(1) by (auto simp: os1_def)
  have "\<exists>os'. rotate_loop m log os1 = (Ok (), os') \<and> faults os' = [] \<and>
    (\<forall>k. files os' (pathN ?p k) =
       (if k = 0 \<and> 0 < m then None
        else if 0 < k \<and> k \<le> m \<and> int k \<le> maxHistories log then files os1 (pathN ?p (k - 1))
        else files os1 (pathN ?p k)))"
    using Suc.prems fs by (intro Suc.IH) auto
  then obtain os' where os': "rotate_loop m log os1 = (Ok (), os')" "faults os' = []"
    "\<And>k. files os' (pathN ?p k) =
       (if k = 0 \<and> 0 < m then None
        else if 0 < k \<and> k \<le> m \<and> int k \<le> maxHistories log then files os1 (pathN ?p (k - 1))
        else files os1 (pathN ?p k))" by blast
  have "files os' (pathN ?p k) =
       (if k = 0 \<and> 0 < Suc m then None
        else if 0 < k \<and> k \<le> Suc m \<and> int k \<le> maxHistories log then files os (pathN ?p (k - 1))
        else files os (pathN ?p k))" for k
    using os'(3) [of k] Suc.prems(4) c by (auto simp: fs)
  then show ?case using step os'(1,2) by auto
qed


text \<open>Rotation: an empty current file, and as many of the old ones as are to be kept.\<close>

lemma rotateFiles_spec:
  assumes "disk (filePath log) bs os"
    "length (index log) = length bs" "\<And>k. k < length bs \<Longrightarrow> path (index log ! k) = pathN (filePath log) k" "bs \<noteq> []"
    "int (length bs) \<le> maxHistories log + 1" "0 \<le> maxHistories log"
  defines "bs' \<equiv> [] # take (nat (maxHistories log)) bs"
  shows "\<exists>os'. rotateFiles log os = (Ok (), log\<lparr>index := index_of (filePath log) bs'\<rparr>, os') \<and>
    disk (filePath log) bs' os'"
proof -
  let ?p = "filePath log" and ?n = "length bs"
  have fs: "faults os = []" "files os (pathN ?p k) = (if k < ?n then Some (file_bytes (bs ! k)) else None)" for k
    using assms(1) by (simp_all add: disk_def)
  have "\<exists>os1. rotate_loop ?n log os = (Ok (), os1) \<and> faults os1 = [] \<and>
    (\<forall>k. files os1 (pathN ?p k) =
       (if k = 0 \<and> 0 < ?n then None
        else if 0 < k \<and> k \<le> ?n \<and> int k \<le> maxHistories log then files os (pathN ?p (k - 1))
        else files os (pathN ?p k)))"
    using assms fs by (intro rotate_loop_spec) (auto simp: index_of_nth)
  then obtain os1 where os1: "rotate_loop ?n log os = (Ok (), os1)" "faults os1 = []"
    and moved: "\<And>k. files os1 (pathN ?p k) =
       (if k = 0 \<and> 0 < ?n then None
        else if 0 < k \<and> k \<le> ?n \<and> int k \<le> maxHistories log then files os (pathN ?p (k - 1))
        else files os (pathN ?p k))" by blast
  let ?os = "os1\<lparr>files := (files os1)(?p \<mapsto> [])\<rparr>"
  have p0: "?p = pathN ?p 0" by (simp add: pathN_def)
  have "files ?os (pathN ?p k) = (if k < length bs' then Some (file_bytes (bs' ! k)) else None)" for k
  proof (cases k)
    case 0
    then show ?thesis by (simp add: bs'_def pathN_def file_bytes_def)
  next
    case (Suc j)
    then have ne: "pathN ?p k \<noteq> ?p" using pathN_inj [of ?p k 0] p0 by simp
    have kept: "k < length bs' \<longleftrightarrow> k \<le> ?n \<and> int k \<le> maxHistories log"
      using Suc assms(6) by (auto simp: bs'_def)
    show ?thesis
      using Suc ne kept moved [of k] assms(5) by (auto simp: fs bs'_def)
  qed
  moreover have "encodable e" if "b \<in> set bs'" "e \<in> set b" for b e
    using that assms(1) by (auto simp: bs'_def disk_def dest: in_set_takeD)
  ultimately have d: "disk ?p bs' ?os" using os1(2) by (auto simp: disk_def)
  have "files os1 ?p = None" using moved [of 0] assms(4) p0 by (metis length_greater_0_conv)
  then have "makeIndex log os1 = (Ok (), log\<lparr>index := index_of ?p bs'\<rparr>, ?os)"
    using makeIndex_fresh [OF os1(2) _ d [unfolded bs'_def]] by (simp add: bs'_def)
  then have "rotateFiles log os = (Ok (), log\<lparr>index := index_of ?p bs'\<rparr>, ?os)"
    using os1(1) assms(2) by (simp add: rotateFiles_def)
  then show ?thesis using d by blast
qed

section \<open>The iterator\<close>

text \<open>The entries that an iterator has not given yet.\<close>

definition iter_rest :: "RunLogEntry list list \<Rightarrow> entryIterator \<Rightarrow> RunLogEntry list" where
  "iter_rest bs it = drop (nat (entryRelIdx it)) (rev (bs ! nat (dtorIdx it))) @
     concat (map rev (drop (Suc (nat (dtorIdx it))) bs))"

definition iter_valid :: "RunLogEntry list list \<Rightarrow> entryIterator \<Rightarrow> bool" where
  "iter_valid bs it \<longleftrightarrow> 0 \<le> dtorIdx it \<and> dtorIdx it < int (length bs) \<and> 0 \<le> entryRelIdx it \<and>
     entryRelIdx it \<le> int (length (bs ! nat (dtorIdx it)))"

text \<open>An index and files that match the blocks, of which only the current one may be empty.\<close>

definition blocks_ok :: "fileRunLog \<Rightarrow> RunLogEntry list list \<Rightarrow> os \<Rightarrow> bool" where
  "blocks_ok log bs os \<longleftrightarrow> bs \<noteq> [] \<and> index log = index_of (filePath log) bs \<and>
     disk (filePath log) bs os \<and> (\<forall>b \<in> set (tl bs). b \<noteq> [])"

lemma dtor_at_blocks:
  assumes "index log = index_of p bs" "iter_valid bs it"
  shows "dtor_at log it = dtor_of (pathN p (nat (dtorIdx it)))
    (int (length (concat (take (nat (dtorIdx it)) bs)))) (bs ! nat (dtorIdx it))"
proof -
  have "nat (dtorIdx it) < length bs" using assms(2) by (auto simp: iter_valid_def)
  then show ?thesis using assms(1) by (simp add: dtor_at_def index_of_nth)
qed

lemma later_block_ne:
  assumes "\<forall>b \<in> set (tl bs). b \<noteq> []" "Suc i < length bs"
  shows "bs ! Suc i \<noteq> []"
proof -
  have "tl bs ! i = bs ! Suc i" "i < length (tl bs)" using assms(2) by (simp_all add: nth_tl)
  then show ?thesis using assms(1) nth_mem [of i "tl bs"] by simp
qed

lemma iter_done_iff:
  assumes "blocks_ok log bs os" "iter_valid bs it"
  shows "iter_done log it \<longleftrightarrow> iter_rest bs it = []"
proof -
  let ?i = "nat (dtorIdx it)"
  have v: "?i < length bs" "0 \<le> dtorIdx it" "0 \<le> entryRelIdx it" using assms(2) by (auto simp: iter_valid_def)
  have "concat (map rev (drop (Suc ?i) bs)) = [] \<longleftrightarrow> Suc ?i = length bs"
  proof (cases "Suc ?i = length bs")
    case False
    then have "bs ! Suc ?i \<noteq> []" "Suc ?i < length bs" using later_block_ne [of bs ?i] assms(1) v
      by (auto simp: blocks_ok_def)
    then show ?thesis using False by (auto simp: Cons_nth_drop_Suc [symmetric])
  qed simp
  moreover have "dtor_at log it = dtor_of (pathN (filePath log) ?i) (int (length (concat (take ?i bs)))) (bs ! ?i)"
    using dtor_at_blocks assms by (auto simp: blocks_ok_def)
  moreover have "length (index log) = length bs" using assms(1) by (simp add: blocks_ok_def)
  ultimately show ?thesis
    using v by (auto simp: iter_done_def iter_rest_def)
qed

lemma iter_next_spec:
  assumes "blocks_ok log bs os" "iter_valid bs it" "iter_rest bs it = x # xs"
  shows "\<exists>it'. iter_next log it os = (Ok x, it', os) \<and> iter_valid bs it' \<and> iter_rest bs it' = xs"
  using assms
proof (induction log it os rule: iter_next.induct)
  case (1 log it os)
  let ?i = "nat (dtorIdx it)" and ?r = "nat (entryRelIdx it)" and ?p = "filePath log"
  have v: "?i < length bs" "0 \<le> dtorIdx it" "0 \<le> entryRelIdx it" "?r \<le> length (bs ! ?i)"
    using "1.prems"(2) by (auto simp: iter_valid_def)
  have nd: "\<not> iter_done log it" using iter_done_iff [OF "1.prems"(1,2)] "1.prems"(3) by simp
  have d: "dtor_at log it = dtor_of (pathN ?p ?i) (int (length (concat (take ?i bs)))) (bs ! ?i)"
    using dtor_at_blocks "1.prems"(1,2) by (auto simp: blocks_ok_def)
  show ?case
  proof (cases "entryRelIdx it \<ge> nbrEntries (dtor_at log it)")
    case True
    let ?it = "(iter_close it)\<lparr>dtorIdx := dtorIdx it + 1, entryRelIdx := 0\<rparr>"
    have r: "?r = length (bs ! ?i)" using True v d by simp
    have more: "Suc ?i < length bs"
      using nd True d v "1.prems"(1) by (auto simp: iter_done_def blocks_ok_def)
    have "nat (dtorIdx it + 1) = Suc ?i" using v(2) by simp
    then have "iter_valid bs ?it" "iter_rest bs ?it = x # xs"
      using more v "1.prems"(3) r
      by (simp_all add: iter_valid_def iter_rest_def Cons_nth_drop_Suc [symmetric])
    then show ?thesis
      using "1.IH" [OF nd True "1.prems"(1)] nd True by (simp add: iter_next.simps [of log it])
  next
    case False
    then have r: "?r < length (bs ! ?i)" using v d by simp
    have fs: "faults os = []" "files os (pathN ?p ?i) = Some (file_bytes (bs ! ?i))"
      using "1.prems"(1) v(1) by (simp_all add: blocks_ok_def disk_def)
    have "readEntry (dtor_at log it) (int ?r) (pathN ?p ?i) os = (Ok (rev (bs ! ?i) ! ?r), os)"
      using fs r v(1) "1.prems"(1) by (intro readEntry_spec) (auto simp: d blocks_ok_def disk_def)
    moreover have "rev (bs ! ?i) ! ?r = x" "drop (Suc ?r) (rev (bs ! ?i)) @ concat (map rev (drop (Suc ?i) bs)) = xs"
      using "1.prems"(3) r by (auto simp: iter_rest_def Cons_nth_drop_Suc [symmetric])
    moreover have "os_Open (pathN ?p ?i) os = (Ok (), os)" using fs by (simp add: os_Open_def)
    moreover have "nat (entryRelIdx it + 1) = Suc ?r" "int ?r = entryRelIdx it" using v(3) by auto
    ultimately show ?thesis
      using nd False v r d
      by (intro exI [of _ "it\<lparr>iter_open := True, entryRelIdx := entryRelIdx it + 1\<rparr>"])
         (simp add: iter_next.simps [of log it] iter_valid_def iter_rest_def)
  qed
qed

section \<open>Reading\<close>

definition all_entries :: "RunLogEntry list list \<Rightarrow> RunLogEntry list" where
  "all_entries bs = concat (map rev bs)"

lemma length_all_entries: "length (all_entries bs) = length (concat bs)"
  by (induction bs) (simp_all add: all_entries_def)

lemma file_Len_spec: "index log = index_of p bs \<Longrightarrow> file_Len log = int (length (all_entries bs))"
proof -
  have "foldl (\<lambda>n d. n + nbrEntries d) s ds = s + sum_list (map nbrEntries ds)"
    for s and ds :: "backingFileDtor list"
    by (induction ds arbitrary: s) simp_all
  moreover have "map nbrEntries (index_of p bs) = map (\<lambda>b. int (length b)) bs"
    by (rule nth_equalityI) (simp_all add: index_of_nth)
  moreover have "sum_list (map (\<lambda>b. int (length b)) bs) = int (length (all_entries bs))"
    by (induction bs) (simp_all add: all_entries_def)
  ultimately show "index log = index_of p bs \<Longrightarrow> file_Len log = int (length (all_entries bs))"
    by (simp add: file_Len_def)
qed

lemma getAll_loop_spec:
  assumes "blocks_ok log bs os" "iter_valid bs it"
  shows "getAll_loop log it res os = (Ok (res @ iter_rest bs it), os)"
  using assms(2)
proof (induction "iter_rest bs it" arbitrary: it res)
  case Nil
  then show ?case using iter_done_iff [OF assms(1), of it] by (simp add: getAll_loop.simps [of log it])
next
  case (Cons x xs)
  obtain it' where it': "iter_next log it os = (Ok x, it', os)" "iter_valid bs it'" "iter_rest bs it' = xs"
    using iter_next_spec [OF assms(1) Cons.prems Cons.hyps(2) [symmetric]] by blast
  have "\<not> iter_done log it" using iter_done_iff [OF assms(1) Cons.prems] Cons.hyps(2) by auto
  then have "getAll_loop log it res os = getAll_loop log it' (res @ [x]) os"
    using it'(1) by (simp add: getAll_loop.simps [of log it])
  also have "\<dots> = (Ok ((res @ [x]) @ xs), os)" using Cons.hyps(1) [of it' "res @ [x]"] it'(2,3) by simp
  finally show ?case unfolding Cons.hyps(2) [symmetric] by simp
qed

lemma getFromIndex_loop_spec:
  assumes "blocks_ok log bs os" "iter_valid bs it" "n \<le> length (iter_rest bs it)"
  shows "getFromIndex_loop n log it res os = (Ok (res @ take n (iter_rest bs it)), os)"
  using assms(2,3)
proof (induction n arbitrary: it res)
  case 0
  then show ?case by simp
next
  case (Suc n)
  then obtain x xs where x: "iter_rest bs it = x # xs" by (cases "iter_rest bs it") auto
  obtain it' where "iter_next log it os = (Ok x, it', os)" "iter_valid bs it'" "iter_rest bs it' = xs"
    using iter_next_spec [OF assms(1) Suc.prems(1) x] by blast
  then show ?case using Suc x by simp
qed

text \<open>The block that holds entry number \<open>idx\<close>.\<close>

lemma iterAt_loop_spec:
  assumes "i \<le> length bs" "length (concat (take i bs)) \<le> idx" "idx < length (concat bs)"
  shows "\<exists>it. iterAt_loop (drop i (index_of p bs)) (int i) (int idx) = Some it \<and> iter_valid bs it \<and>
    iter_rest bs it = drop idx (all_entries bs)"
  using assms
proof (induction "length bs - i" arbitrary: i)
  case 0
  then show ?case by simp
next
  case (Suc n)
  then have i: "i < length bs" by simp
  have next_sum: "length (concat (take (Suc i) bs)) = length (concat (take i bs)) + length (bs ! i)"
    using i by (simp add: take_Suc_conv_app_nth)
  have step: "drop i (index_of p bs) = dtor_of (pathN p i) (int (length (concat (take i bs)))) (bs ! i) #
      drop (Suc i) (index_of p bs)"
    using i by (simp add: Cons_nth_drop_Suc [symmetric] index_of_nth)
  show ?case
  proof (cases "idx < length (concat (take (Suc i) bs))")
    case True
    define r where "r = idx - length (concat (take i bs))"
    let ?it = "\<lparr>entryRelIdx = int r, dtorIdx = int i, iter_open = False\<rparr>"
    have r: "r < length (bs ! i)" "int idx = int (length (concat (take i bs))) + int r"
      using True Suc.prems(2) next_sum by (auto simp: r_def)
    have "all_entries bs = all_entries (take i bs) @ rev (bs ! i) @ all_entries (drop (Suc i) bs)"
      using i by (subst append_take_drop_id [of i bs, symmetric])
        (simp only: all_entries_def map_append concat_append Cons_nth_drop_Suc [symmetric] list.map concat.simps)
    then have "drop idx (all_entries bs) = drop r (rev (bs ! i)) @ all_entries (drop (Suc i) bs)"
      using r by (simp add: length_all_entries r_def)
    then have "iter_rest bs ?it = drop idx (all_entries bs)" by (simp add: iter_rest_def all_entries_def)
    moreover have "iter_valid bs ?it" using r(1) i by (simp add: iter_valid_def)
    moreover have "iterAt_loop (drop i (index_of p bs)) (int i) (int idx) = Some ?it"
      using r unfolding step by simp
    ultimately show ?thesis by blast
  next
    case False
    have "\<exists>it. iterAt_loop (drop (Suc i) (index_of p bs)) (int (Suc i)) (int idx) = Some it \<and>
        iter_valid bs it \<and> iter_rest bs it = drop idx (all_entries bs)"
      using Suc False i by (intro Suc.hyps(1)) auto
    moreover have "iterAt_loop (drop i (index_of p bs)) (int i) (int idx) =
        iterAt_loop (drop (Suc i) (index_of p bs)) (int (Suc i)) (int idx)"
      using False next_sum unfolding step by (simp add: add.commute)
    ultimately show ?thesis by simp
  qed
qed

lemma iterAt_spec:
  assumes "index log = index_of p bs" "idx < length (all_entries bs)"
  shows "\<exists>it. iterAt log (int idx) = Ok it \<and> iter_valid bs it \<and> iter_rest bs it = drop idx (all_entries bs)"
  using iterAt_loop_spec [of 0 bs idx p] assms file_Len_spec [OF assms(1)]
  by (auto simp: iterAt_def length_all_entries)

lemma file_GetAll_spec:
  assumes "blocks_ok log bs os"
  shows "file_GetAll log os = (Ok (all_entries bs), os)"
proof (cases "all_entries bs = []")
  case True
  then show ?thesis using file_Len_spec [of log _ bs] assms by (simp add: file_GetAll_def blocks_ok_def)
next
  case False
  have idx: "index log = index_of (filePath log) bs" using assms by (simp add: blocks_ok_def)
  obtain it where "iterAt log 0 = Ok it" "iter_valid bs it" "iter_rest bs it = all_entries bs"
    using iterAt_spec [OF idx, of 0] False by auto
  then show ?thesis
    using file_Len_spec [OF idx] False getAll_loop_spec [OF assms, of it "[]"] by (simp add: file_GetAll_def)
qed

lemma file_GetFromIndex_spec:
  assumes "blocks_ok log bs os" "i < length (all_entries bs)" "i \<le> j" "j \<le> length (all_entries bs)"
  shows "file_GetFromIndex log (int i) [int j] os = (Ok (take (j - i) (drop i (all_entries bs))), os)"
proof -
  have idx: "index log = index_of (filePath log) bs" using assms by (simp add: blocks_ok_def)
  obtain it where it: "iterAt log (int i) = Ok it" "iter_valid bs it" "iter_rest bs it = drop i (all_entries bs)"
    using iterAt_spec [OF idx assms(2)] by blast
  have n: "nat (int j - int i) = j - i" using assms(3) by simp
  show ?thesis
    using file_Len_spec [OF idx] getFromIndex_loop_spec [OF assms(1) it(2), of "j - i" "[]"] it assms(2-4) n
    by (simp add: file_GetFromIndex_def)
qed

section \<open>Writing\<close>

lemma pushEntry_spec:
  assumes "faults os = []" "files os p = Some (file_bytes es)" "encodable e"
  shows "pushEntry (dtor_of p s es) e os =
    (Ok (), dtor_of p s (es @ [e]), os\<lparr>files := (files os)(p \<mapsto> file_bytes (es @ [e]))\<rparr>)"
proof -
  let ?d = "dtor_of p s es"
  let ?text = "if es = [] then enc e else CHR 0x0A # enc e"
  have bytes: "file_bytes es @ ?text = file_bytes (es @ [e])"
    by (simp add: file_bytes_snoc) (simp add: file_bytes_def)
  have "file_WriteString p ?text os = (Ok (), os\<lparr>files := (files os)(p \<mapsto> file_bytes es @ ?text)\<rparr>)"
    using assms(1,2) by (simp add: file_WriteString_def del: append_Cons)
  moreover have "os_Open p os = (Ok (), os)" using assms(1,2) by (simp add: os_Open_def)
  moreover have "pushEntryF ?d e p os = (case file_WriteString p ?text os of (r, os1) \<Rightarrow> (r, dtor_of p s (es @ [e]), os1))"
    unfolding pushEntryF_def Let_def enc_spec(1) [OF assms(3)]
    by (cases "es = []") (simp_all add: dtor_of_def add.commute [of 1])
  ultimately show ?thesis unfolding bytes [symmetric] by (simp add: pushEntry_def del: append_Cons)
qed

lemma isFull_spec:
  assumes "\<And>x. x \<in> set es \<Longrightarrow> encodable x" "encodable e"
  shows "isFull (dtor_of p s es) m \<longleftrightarrow> m < int (length (file_bytes (es @ [e])))"
proof -
  have "length (file_bytes (es @ [e])) = (if es @ [e] = [] then 0 else 65 * length (es @ [e]) - 1)"
    using assms by (intro file_bytes_length) auto
  then show ?thesis by (cases es) (auto simp: isFull_def gLogEntryLen_def Let_def)
qed

lemma index_of_Cons:
  "index_of p (b # bs) = dtor_of p 0 b #
     map (\<lambda>k. dtor_of (pathN p (Suc k)) (int (length b + length (concat (take k bs)))) (bs ! k)) [0..<length bs]"
proof -
  have "[0..<length (b # bs)] = 0 # map Suc [0..<length bs]"
    by (simp add: upt_conv_Cons map_Suc_upt del: upt_Suc)
  then show ?thesis unfolding index_of_def by (simp add: comp_def pathN_def [of _ 0] del: upt_Suc)
qed

text \<open>The invariant of the log, with the blocks that its index and its files hold.\<close>

definition file_inv :: "fileRunLog \<Rightarrow> RunLogEntry list list \<Rightarrow> os \<Rightarrow> bool" where
  "file_inv log bs os \<longleftrightarrow> blocks_ok log bs os \<and> latest_first (all_entries bs) \<and>
     0 \<le> maxHistories log \<and> int (length bs) \<le> maxHistories log + 1 \<and> 64 \<le> maxFileLen log \<and>
     (\<forall>b \<in> set bs. int (length (file_bytes b)) \<le> maxFileLen log)"

lemma disk_current:
  assumes "disk p (b # bs) os" "\<And>x. x \<in> set b' \<Longrightarrow> encodable x"
  shows "disk p (b' # bs) (os\<lparr>files := (files os)(p \<mapsto> file_bytes b')\<rparr>)"
proof -
  have "((files os)(p \<mapsto> file_bytes b')) (pathN p k) =
      (if k < length (b' # bs) then Some (file_bytes ((b' # bs) ! k)) else None)" for k
  proof (cases "k = 0")
    case True
    then show ?thesis by (simp add: pathN_def)
  next
    case False
    then have "pathN p k \<noteq> p" using pathN_inj [of p k 0] by (simp add: pathN_def)
    then show ?thesis using assms(1) False by (simp add: disk_def nth_Cons')
  qed
  then show ?thesis using assms by (auto simp: disk_def)
qed

lemma disk_other: "disk p bs os \<Longrightarrow> (\<And>k. q \<noteq> pathN p k) \<Longrightarrow> disk p bs (os\<lparr>files := (files os)(q := x)\<rparr>)"
  by (auto simp: disk_def)

text \<open>Appending an entry to the current file.\<close>

lemma push_current:
  assumes "blocks_ok log (b # bs) os" "encodable e"
  shows "\<exists>os'. pushEntry (index log ! 0) e os = (Ok (), dtor_of (filePath log) 0 (b @ [e]), os') \<and>
    blocks_ok (log\<lparr>index := dtor_of (filePath log) 0 (b @ [e]) #
        map (\<lambda>d. d\<lparr>startIdx := startIdx d + 1\<rparr>) (tl (index log))\<rparr>) ((b @ [e]) # bs) os'"
proof -
  let ?p = "filePath log" and ?b = "b @ [e]"
  let ?os = "os\<lparr>files := (files os)(?p \<mapsto> file_bytes ?b)\<rparr>"
  have ix: "index log = index_of ?p (b # bs)" and d: "disk ?p (b # bs) os" and ne: "\<forall>x \<in> set bs. x \<noteq> []"
    using assms(1) by (auto simp: blocks_ok_def)
  have fs: "faults os = []" "files os ?p = Some (file_bytes b)"
    using d by (auto simp: disk_def pathN_def dest: spec [of _ 0])
  have "pushEntry (index log ! 0) e os = (Ok (), dtor_of ?p 0 ?b, ?os)"
    using pushEntry_spec [OF fs assms(2), of 0] by (simp add: ix index_of_Cons)
  moreover have "dtor_of ?p 0 ?b # map (\<lambda>d. d\<lparr>startIdx := startIdx d + 1\<rparr>) (tl (index log)) = index_of ?p (?b # bs)"
    by (simp add: ix index_of_Cons dtor_of_def comp_def add.commute)
  moreover have "disk ?p (?b # bs) ?os" using d assms(2) by (intro disk_current) (auto simp: disk_def)
  ultimately show ?thesis using ne by (intro exI [of _ ?os]) (simp add: blocks_ok_def)
qed

text \<open>The blocks after an entry was put that is not earlier than any other.\<close>

definition blocks_after :: "fileRunLog \<Rightarrow> RunLogEntry list list \<Rightarrow> RunLogEntry \<Rightarrow> RunLogEntry list list" where
  "blocks_after log bs e =
     (if maxFileLen log < int (length (file_bytes (hd bs @ [e])))
      then [e] # take (nat (maxHistories log)) bs
      else (hd bs @ [e]) # tl bs)"

lemma all_entries_after:
  assumes "bs \<noteq> []"
  shows "\<exists>k. all_entries (blocks_after log bs e) = e # take k (all_entries bs)"
proof (cases "maxFileLen log < int (length (file_bytes (hd bs @ [e])))")
  case True
  let ?m = "nat (maxHistories log)"
  have "all_entries bs = all_entries (take ?m bs) @ all_entries (drop ?m bs)"
    by (metis all_entries_def append_take_drop_id concat_append map_append)
  then show ?thesis using True
    by (intro exI [of _ "length (all_entries (take ?m bs))"]) (simp add: blocks_after_def all_entries_def)
next
  case False
  then show ?thesis using assms
    by (intro exI [of _ "length (all_entries bs)"]) (cases bs, simp_all add: blocks_after_def all_entries_def)
qed

lemma current_times:
  assumes "\<And>x. x \<in> set (all_entries (b # bs)) \<Longrightarrow> RunLogTime x \<le> RunLogTime e" "b \<noteq> []"
  shows "\<not> After (earliestTime (dtor_of p s b)) (RunLogTime e)" "\<not> After (latestTime (dtor_of p s b)) (RunLogTime e)"
  using assms by (auto simp: dtor_of_def After_def all_entries_def not_less)

text \<open>The rotation and the push of \<open>Put\<close>, for an entry in order.\<close>

lemma file_Put_steps:
  assumes inv: "file_inv log bs os" and e: "encodable e"
    and late: "\<And>x. x \<in> set (all_entries bs) \<Longrightarrow> RunLogTime x \<le> RunLogTime e"
  shows "\<exists>log' os'. file_Put tmp log e os = (Ok (), log', os') \<and> blocks_ok log' (blocks_after log bs e) os' \<and>
    filePath log' = filePath log \<and> maxHistories log' = maxHistories log \<and> maxFileLen log' = maxFileLen log"
proof -
  let ?p = "filePath log"
  obtain b rest where bs: "bs = b # rest" using inv by (cases bs) (auto simp: file_inv_def blocks_ok_def)
  have ok: "blocks_ok log (b # rest) os" using inv bs by (simp add: file_inv_def)
  have ix: "index log = index_of ?p (b # rest)" and d: "disk ?p (b # rest) os" and ne: "\<forall>x \<in> set rest. x \<noteq> []"
    using ok by (auto simp: blocks_ok_def)
  have i0: "index log \<noteq> []" "index log ! 0 = dtor_of ?p 0 b" by (simp_all add: ix index_of_Cons)
  have early: "\<not> (nbrEntries (dtor_of ?p 0 b) > 0 \<and> After (earliestTime (dtor_of ?p 0 b)) (RunLogTime e))"
    "\<not> (nbrEntries (dtor_of ?p 0 b) > 0 \<and> After (latestTime (dtor_of ?p 0 b)) (RunLogTime e))"
    using current_times [of b rest e ?p 0] late bs by auto
  have full: "isFull (dtor_of ?p 0 b) (maxFileLen log) \<longleftrightarrow> maxFileLen log < int (length (file_bytes (b @ [e])))"
    using d e by (intro isFull_spec) (auto simp: disk_def)
  obtain log1 os1 b1 rest1 where rot: "(if isFull (dtor_of ?p 0 b) (maxFileLen log) then rotateFiles log os else (Ok (), log, os)) = (Ok (), log1, os1)"
    and ok1: "blocks_ok log1 (b1 # rest1) os1" and after: "blocks_after log bs e = (b1 @ [e]) # rest1"
    and same: "filePath log1 = ?p" "maxHistories log1 = maxHistories log" "maxFileLen log1 = maxFileLen log"
  proof (cases "isFull (dtor_of ?p 0 b) (maxFileLen log)")
    case True
    let ?kept = "take (nat (maxHistories log)) (b # rest)"
    obtain os1 where r: "rotateFiles log os = (Ok (), log\<lparr>index := index_of ?p ([] # ?kept)\<rparr>, os1)"
        "disk ?p ([] # ?kept) os1"
      using rotateFiles_spec [OF d] inv bs by (auto simp: ix index_of_nth file_inv_def)
    have "64 \<le> maxFileLen log" using inv by (simp add: file_inv_def)
    then have "b \<noteq> []" using True full enc_spec(2) [OF e] by (auto simp: file_bytes_def)
    then have "x \<noteq> []" if "x \<in> set ?kept" for x using in_set_takeD [OF that] ne by auto
    then have "blocks_ok (log\<lparr>index := index_of ?p ([] # ?kept)\<rparr>) ([] # ?kept) os1"
      using r(2) by (simp add: blocks_ok_def)
    moreover have "blocks_after log bs e = ([] @ [e]) # ?kept"
      using True full by (simp add: blocks_after_def bs)
    ultimately show ?thesis using that r(1) True by fastforce
  next
    case False
    moreover have "blocks_after log bs e = (b @ [e]) # rest" using False full by (simp add: blocks_after_def bs)
    ultimately show ?thesis using that ok by fastforce
  qed
  obtain os2 where push: "pushEntry (index log1 ! 0) e os1 = (Ok (), dtor_of (filePath log1) 0 (b1 @ [e]), os2)"
    and ok2: "blocks_ok (log1\<lparr>index := dtor_of (filePath log1) 0 (b1 @ [e]) #
        map (\<lambda>d. d\<lparr>startIdx := startIdx d + 1\<rparr>) (tl (index log1))\<rparr>) ((b1 @ [e]) # rest1) os2"
    using push_current [OF ok1 e] by blast
  have "file_Put tmp log e os = (Ok (), log1\<lparr>index := dtor_of (filePath log1) 0 (b1 @ [e]) #
        map (\<lambda>d. d\<lparr>startIdx := startIdx d + 1\<rparr>) (tl (index log1))\<rparr>, os2)"
    unfolding file_Put_def Let_def i0(2) if_not_P [OF i0(1)] if_not_P [OF early(1)] rot
    using early(2) push by simp
  then show ?thesis using ok2 same after by simp
qed

lemma file_Put_inv:
  assumes inv: "file_inv log bs os" and e: "encodable e"
    and late: "\<And>x. x \<in> set (all_entries bs) \<Longrightarrow> RunLogTime x \<le> RunLogTime e"
  shows "\<exists>log' os'. file_Put tmp log e os = (Ok (), log', os') \<and> file_inv log' (blocks_after log bs e) os' \<and>
    filePath log' = filePath log \<and> maxHistories log' = maxHistories log \<and> maxFileLen log' = maxFileLen log"
proof -
  obtain log' os' where put: "file_Put tmp log e os = (Ok (), log', os')" "blocks_ok log' (blocks_after log bs e) os'"
    "filePath log' = filePath log" "maxHistories log' = maxHistories log" "maxFileLen log' = maxFileLen log"
    using file_Put_steps [OF assms] by blast
  have ne: "bs \<noteq> []" using inv by (simp add: file_inv_def blocks_ok_def)
  obtain k where k: "all_entries (blocks_after log bs e) = e # take k (all_entries bs)"
    using all_entries_after [OF ne] by blast
  have "latest_first (all_entries bs)" using inv by (simp add: file_inv_def)
  then have "latest_first (all_entries (blocks_after log bs e))"
    unfolding k latest_first_def using late sorted_wrt_take by (auto dest: in_set_takeD)
  moreover have "int (length (blocks_after log bs e)) \<le> maxHistories log + 1"
    using inv ne by (auto simp: blocks_after_def file_inv_def min_def)
  moreover have "int (length (file_bytes b)) \<le> maxFileLen log" if "b \<in> set (blocks_after log bs e)" for b
    using that inv ne enc_spec(2) [OF e]
    by (auto simp: blocks_after_def file_inv_def file_bytes_def split: if_splits dest: in_set_takeD in_set_tlD)
  ultimately show ?thesis using put inv by (auto simp: file_inv_def)
qed

section \<open>The contract of the run log\<close>

text \<open>The entries on disk, read without the program: the files that the index names, record by record.\<close>

definition block_on_disk :: "os \<Rightarrow> backingFileDtor \<Rightarrow> RunLogEntry list" where
  "block_on_disk os d =
     (case files os (path d) of
        None \<Rightarrow> []
      | Some c \<Rightarrow> if c = [] then []
                  else concat (map (\<lambda>r. case decodeRunLogEntry r of Ok e \<Rightarrow> [e] | _ \<Rightarrow> []) (Split c [CHR 0x0A])))"

definition disk_entries :: "fileRunLog \<times> os \<Rightarrow> RunLogEntry list" where
  "disk_entries st = concat (map (\<lambda>d. rev (block_on_disk (snd st) d)) (index (fst st)))"

lemma block_on_disk_spec:
  assumes "files os p = Some (file_bytes es)" "\<And>e. e \<in> set es \<Longrightarrow> encodable e"
  shows "block_on_disk os (dtor_of p s es) = es"
proof (cases "es = []")
  case True
  then show ?thesis using assms(1) by (simp add: block_on_disk_def file_bytes_def)
next
  case False
  have "Split (file_bytes es) [CHR 0x0A] = map enc es"
    unfolding file_bytes_def using False assms(2) by (intro Split_Join_char) (auto simp: enc_spec)
  moreover have "file_bytes es \<noteq> []"
    using False assms(2) file_bytes_length [of es] by (cases es) auto
  moreover have "concat (map (\<lambda>r. case decodeRunLogEntry r of Ok e \<Rightarrow> [e] | _ \<Rightarrow> []) (map enc es)) = es"
    using assms(2) by (induction es) (simp_all add: enc_spec)
  ultimately show ?thesis using assms(1) by (simp add: block_on_disk_def)
qed

lemma disk_entries_spec:
  assumes "blocks_ok log bs os"
  shows "disk_entries (log, os) = all_entries bs"
proof -
  have "map (\<lambda>d. rev (block_on_disk os d)) (index log) = map rev bs"
  proof (rule nth_equalityI)
    show len: "length (map (\<lambda>d. rev (block_on_disk os d)) (index log)) = length (map rev bs)"
      using assms by (simp add: blocks_ok_def)
    fix k assume "k < length (map (\<lambda>d. rev (block_on_disk os d)) (index log))"
    then have k: "k < length bs" using len by simp
    have "block_on_disk os (index_of (filePath log) bs ! k) = bs ! k"
      unfolding index_of_nth [OF k] using assms k
      by (intro block_on_disk_spec) (auto simp: blocks_ok_def disk_def)
    then show "map (\<lambda>d. rev (block_on_disk os d)) (index log) ! k = map rev bs ! k"
      using assms k by (simp add: blocks_ok_def)
  qed
  then show ?thesis by (simp add: disk_entries_def all_entries_def)
qed

definition log_put :: "string \<Rightarrow> RunLogEntry \<Rightarrow> fileRunLog \<times> os \<Rightarrow> (fileRunLog \<times> os) outcome" where
  "log_put tmp e st =
     (case file_Put tmp (fst st) e (snd st) of
        (Ok _, log, os) \<Rightarrow> Ok (log, os)
      | (Fail er, _) \<Rightarrow> Fail er
      | (Panic p, _) \<Rightarrow> Panic p)"

definition log_inv :: "fileRunLog \<times> os \<Rightarrow> bool" where
  "log_inv st \<longleftrightarrow> (\<exists>bs. file_inv (fst st) bs (snd st))"

definition index_args :: "int option \<Rightarrow> int list" where
  "index_args j = (case j of None \<Rightarrow> [] | Some k \<Rightarrow> [k])"

interpretation file_log: run_log "log_put tmp" "\<lambda>st. fst (file_GetAll (fst st) (snd st))"
  "\<lambda>i j st. fst (file_GetFromIndex (fst st) i (index_args j) (snd st))" "\<lambda>st. file_Len (fst st)"
  log_inv encodable disk_entries for tmp
proof unfold_locales
  fix st :: "fileRunLog \<times> os"
  assume "log_inv st"
  then obtain log os bs where st: "st = (log, os)" "file_inv log bs os" by (cases st) (auto simp: log_inv_def)
  then have ok: "blocks_ok log bs os" by (simp add: file_inv_def)
  note des = disk_entries_spec [OF ok]
  show "fst (file_GetAll (fst st) (snd st)) = Ok (disk_entries st)"
    using file_GetAll_spec [OF ok] by (simp add: st des)
  show "file_Len (fst st) = int (length (disk_entries st))"
    using ok file_Len_spec by (simp add: st des blocks_ok_def)
  show "latest_first (disk_entries st)" using st by (simp add: des file_inv_def)
  show "fst (file_GetFromIndex (fst st) (int i) (index_args (Some (int j))) (snd st)) =
      Ok (take (j - i) (drop i (disk_entries st)))"
    if "i < length (disk_entries st)" "i \<le> j" "j \<le> length (disk_entries st)" for i j
    using file_GetFromIndex_spec [OF ok, of i j] that by (simp add: st des index_args_def)
  fix e
  assume "encodable e" and "\<And>e'. e' \<in> set (disk_entries st) \<Longrightarrow> RunLogTime e' \<le> RunLogTime e"
  then obtain log' os' where put: "file_Put tmp log e os = (Ok (), log', os')" "file_inv log' (blocks_after log bs e) os'"
    using file_Put_inv [OF st(2), of e tmp] by (auto simp: st des)
  have "bs \<noteq> []" using ok by (simp add: blocks_ok_def)
  then obtain k where "all_entries (blocks_after log bs e) = e # take k (all_entries bs)"
    using all_entries_after by blast
  then have "disk_entries (log', os') = e # take k (disk_entries st)"
    using put(2) disk_entries_spec [of log' "blocks_after log bs e" os'] by (simp add: st des file_inv_def)
  then show "\<exists>st' k. log_put tmp e st = Ok st' \<and> log_inv st' \<and> disk_entries st' = e # take k (disk_entries st)"
    using put by (intro exI [of _ "(log', os')"] exI [of _ k]) (auto simp: log_put_def log_inv_def st)
qed

section \<open>Properties\<close>

text \<open>A log opened on a disk without any of its files.\<close>

lemma fresh_log:
  assumes "faults os = []" "\<And>k. files os (pathN p k) = None" "0 \<le> h" "64 \<le> n"
  shows "\<exists>log os1. NewFileRunLog p n h os = (Ok log, os1) \<and> file_inv log [[]] os1 \<and>
    filePath log = p \<and> maxFileLen log = n \<and> maxHistories log = h"
proof -
  let ?log = "\<lparr>filePath = p, maxFileLen = n, maxHistories = h, index = []\<rparr>"
  let ?os = "os\<lparr>files := (files os)(p \<mapsto> [])\<rparr>"
  have p0: "files os p = None" using assms(2) [of 0] by (simp add: pathN_def)
  have "pathN p k \<noteq> p" if "0 < k" for k using pathN_inj [of p k 0] that by (simp add: pathN_def)
  then have "files ?os (pathN p k) = (if k < length [[]::RunLogEntry list] then Some (file_bytes ([[]] ! k)) else None)" for k
    using assms(2) by (cases "k = 0") (simp_all add: pathN_def [of _ 0] file_bytes_def)
  then have d: "disk p [[]] ?os" using assms(1) by (simp add: disk_def)
  have "makeIndex ?log os = (Ok (), ?log\<lparr>index := index_of p [[]]\<rparr>, ?os)"
    using makeIndex_fresh [of os ?log "[]"] assms(1) p0 d by simp
  then show ?thesis
    using d assms(3,4) by (intro exI [of _ "?log\<lparr>index := index_of p [[]]\<rparr>"] exI [of _ ?os])
      (simp add: NewFileRunLog_def file_inv_def blocks_ok_def all_entries_def latest_first_def file_bytes_def)
qed

text \<open>Entries put in order keep the parameters of the log.\<close>

lemma log_put_params:
  assumes "log_inv (log, os)" "\<forall>e \<in> set es. encodable e" "latest_first (rev es @ disk_entries (log, os))"
    "fold_outcome (log_put tmp) es (log, os) = Ok (log', os')"
  shows "filePath log' = filePath log \<and> maxHistories log' = maxHistories log \<and> maxFileLen log' = maxFileLen log"
  using assms
proof (induction es arbitrary: log os)
  case Nil
  then show ?case by simp
next
  case (Cons e es)
  obtain bs where inv: "file_inv log bs os" using Cons.prems(1) by (auto simp: log_inv_def)
  have des: "disk_entries (log, os) = all_entries bs" using inv disk_entries_spec by (auto simp: file_inv_def)
  have late: "RunLogTime x \<le> RunLogTime e" if "x \<in> set (all_entries bs)" for x
    using Cons.prems(3) that by (auto simp: des latest_first_def sorted_wrt_append)
  obtain log1 os1 where put: "file_Put tmp log e os = (Ok (), log1, os1)" "file_inv log1 (blocks_after log bs e) os1"
      "filePath log1 = filePath log" "maxHistories log1 = maxHistories log" "maxFileLen log1 = maxFileLen log"
    using file_Put_inv [OF inv _ late, of tmp] Cons.prems(2) by auto
  have "bs \<noteq> []" using inv by (simp add: file_inv_def blocks_ok_def)
  then obtain k where "disk_entries (log1, os1) = e # take k (all_entries bs)"
    using all_entries_after [of bs log e] put(2) disk_entries_spec [of log1 "blocks_after log bs e" os1]
    by (auto simp: file_inv_def)
  then have "latest_first (rev es @ disk_entries (log1, os1))"
    using Cons.prems(3) sorted_wrt_take [of _ "all_entries bs" k]
    by (auto simp: des latest_first_def sorted_wrt_append dest: in_set_takeD)
  moreover have "log_put tmp e (log, os) = Ok (log1, os1)" using put(1) by (simp add: log_put_def)
  then have "fold_outcome (log_put tmp) es (log1, os1) = Ok (log', os')" using Cons.prems(4) by simp
  ultimately show ?case using Cons.IH [of log1 os1] put Cons.prems(2) by (auto simp: log_inv_def)
qed

text \<open>A log opened on the files of another one is the same log.\<close>

lemma reopen:
  assumes "file_inv log bs os"
  shows "NewFileRunLog (filePath log) (maxFileLen log) (maxHistories log) os = (Ok log, os)"
proof -
  let ?log = "\<lparr>filePath = filePath log, maxFileLen = maxFileLen log, maxHistories = maxHistories log, index = []\<rparr>"
  obtain b rest where bs: "bs = b # rest" using assms by (cases bs) (auto simp: file_inv_def blocks_ok_def)
  have "makeIndex ?log os = (Ok (), ?log\<lparr>index := index_of (filePath log) (b # rest)\<rparr>, os)"
    using makeIndex_spec [of ?log b rest os] assms bs by (auto simp: file_inv_def blocks_ok_def)
  moreover have "?log\<lparr>index := index_of (filePath log) (b # rest)\<rparr> = log"
    using assms bs by (cases log) (auto simp: file_inv_def blocks_ok_def)
  ultimately show ?thesis by (simp add: NewFileRunLog_def)
qed

text \<open>
  C11. The run log on disk, with files of at least one record and no failing system call: runs
  logged in the order of their times are all accepted, and reading the log gives the latest of
  them, latest first and without a gap, at once or in consecutive index ranges. The runs are on
  disk: opening the log again from the same files gives the same log.
\<close>

theorem file_log_recent:
  assumes "faults os = []" "\<And>k. files os (pathN p k) = None" "0 \<le> h" "64 \<le> n"
    "\<forall>e \<in> set es. encodable e" "latest_first (rev es)"
  shows "\<exists>log0 os0 log os' k. NewFileRunLog p n h os = (Ok log0, os0) \<and>
    fold_outcome (log_put tmp) es (log0, os0) = Ok (log, os') \<and>
    file_GetAll log os' = (Ok (take k (rev es)), os') \<and> (es \<noteq> [] \<longrightarrow> 0 < k) \<and>
    NewFileRunLog p n h os' = (Ok log, os') \<and>
    (\<forall>i j l. i < j \<and> j < l \<and> int l \<le> file_Len log \<longrightarrow>
      (\<exists>a b. fst (file_GetFromIndex log (int i) [int j] os') = Ok a \<and>
        fst (file_GetFromIndex log (int j) [int l] os') = Ok b \<and>
        fst (file_GetFromIndex log (int i) [int l] os') = Ok (a @ b)))"
proof -
  obtain log0 os0 where l0: "NewFileRunLog p n h os = (Ok log0, os0)" "file_inv log0 [[]] os0"
      "filePath log0 = p" "maxFileLen log0 = n" "maxHistories log0 = h"
    using fresh_log [OF assms(1-4)] by blast
  have e0: "disk_entries (log0, os0) = []"
    using l0(2) disk_entries_spec [of log0 "[[]]" os0] by (simp add: file_inv_def all_entries_def)
  have i0: "log_inv (log0, os0)" using l0(2) by (auto simp: log_inv_def)
  obtain st k where st: "fold_outcome (log_put tmp) es (log0, os0) = Ok st" "log_inv st"
      "disk_entries st = take k (rev es)" "es \<noteq> [] \<longrightarrow> 0 < k"
    using file_log.put_all [OF i0 assms(5), of tmp] assms(6) e0 by auto
  obtain log os' where s: "st = (log, os')" by (cases st)
  obtain bs where inv: "file_inv log bs os'" using st(2) by (auto simp: log_inv_def s)
  have par: "filePath log = p \<and> maxHistories log = h \<and> maxFileLen log = n"
    using log_put_params [OF i0 assms(5) _ st(1) [unfolded s]] assms(6) e0 l0(3-5) by simp
  have "\<exists>a b. fst (file_GetFromIndex log (int i) [int j] os') = Ok a \<and>
        fst (file_GetFromIndex log (int j) [int l] os') = Ok b \<and>
        fst (file_GetFromIndex log (int i) [int l] os') = Ok (a @ b)"
    if "i < j \<and> j < l \<and> int l \<le> file_Len log" for i j l
    using file_log.pages [OF st(2), of i j l] file_log.len [OF st(2)] that by (simp add: s index_args_def)
  moreover have "file_GetAll log os' = (Ok (take k (rev es)), os')"
    using file_GetAll_spec [of log bs os'] disk_entries_spec [of log bs os'] inv st(3)
    by (simp add: s file_inv_def)
  ultimately show ?thesis using l0(1) st(1,4) s reopen [OF inv] par by blast
qed

definition empty_os :: os where
  "empty_os = \<lparr>files = (\<lambda>_. None), faults = []\<rparr>"

theorem file_log_recent_witness:
  "\<exists>log0 os0 log os' k. NewFileRunLog ''/log'' 200 1 empty_os = (Ok log0, os0) \<and>
    fold_outcome (log_put ''/tmp'') [sample_entry, sample_entry, sample_entry] (log0, os0) = Ok (log, os') \<and>
    file_GetAll log os' = (Ok (take k [sample_entry, sample_entry, sample_entry]), os') \<and> 0 < k \<and>
    NewFileRunLog ''/log'' 200 1 os' = (Ok log, os')"
proof -
  have "faults empty_os = []" "\<And>k. files empty_os (pathN ''/log'' k) = None" by (simp_all add: empty_os_def)
  moreover have "\<forall>e \<in> set [sample_entry, sample_entry, sample_entry]. encodable e"
    using sample_entry_encodable by simp
  moreover have "latest_first (rev [sample_entry, sample_entry, sample_entry])" by (simp add: latest_first_def)
  ultimately have "\<exists>log0 os0 log os' k. NewFileRunLog ''/log'' 200 1 empty_os = (Ok log0, os0) \<and>
    fold_outcome (log_put ''/tmp'') [sample_entry, sample_entry, sample_entry] (log0, os0) = Ok (log, os') \<and>
    file_GetAll log os' = (Ok (take k (rev [sample_entry, sample_entry, sample_entry])), os') \<and>
    ([sample_entry, sample_entry, sample_entry] \<noteq> [] \<longrightarrow> 0 < k) \<and>
    NewFileRunLog ''/log'' 200 1 os' = (Ok log, os')"
    using file_log_recent [of empty_os "''/log''" 1 200 "[sample_entry, sample_entry, sample_entry]" "''/tmp''"] by fastforce
  then show ?thesis by simp
qed

text \<open>
  C12. Bounds on disk: whatever runs are logged in order, the log never has more than the current
  file and \<open>maxHistories\<close> historical ones, no file is longer than \<open>maxFileLen\<close> bytes, and every
  file is a whole number of 64-byte records separated by single newlines.
\<close>

theorem file_log_bounds:
  assumes "faults os = []" "\<And>k. files os (pathN p k) = None" "0 \<le> h" "64 \<le> n"
    "\<forall>e \<in> set es. encodable e" "latest_first (rev es)"
    "NewFileRunLog p n h os = (Ok log0, os0)" "fold_outcome (log_put tmp) es (log0, os0) = Ok (log, os')"
  shows "(\<forall>k c. files os' (pathN p k) = Some c \<longrightarrow> int k \<le> h \<and> int (length c) \<le> n \<and>
      (\<exists>b. c = Join (map enc b) [CHR 0x0A] \<and> (\<forall>e \<in> set b. length (enc e) = 64 \<and> CHR 0x0A \<notin> set (enc e))))"
proof (intro allI impI)
  fix k c assume c: "files os' (pathN p k) = Some c"
  have l0: "file_inv log0 [[]] os0" "filePath log0 = p" "maxFileLen log0 = n" "maxHistories log0 = h"
    using fresh_log [OF assms(1-4)] assms(7) by auto
  have e0: "disk_entries (log0, os0) = []"
    using l0(1) disk_entries_spec [of log0 "[[]]" os0] by (simp add: file_inv_def all_entries_def)
  have i0: "log_inv (log0, os0)" using l0(1) by (auto simp: log_inv_def)
  obtain bs where inv: "file_inv log bs os'"
    using file_log.put_all [OF i0 assms(5), of tmp] assms(6,8) e0 by (auto simp: log_inv_def)
  have par: "filePath log = p" "maxHistories log = h" "maxFileLen log = n"
    using log_put_params [OF i0 assms(5) _ assms(8)] assms(6) e0 l0(2-4) by simp_all
  have d: "disk p bs os'" "int (length bs) \<le> h + 1" "\<forall>b \<in> set bs. int (length (file_bytes b)) \<le> n"
    using inv par by (auto simp: file_inv_def blocks_ok_def)
  then have k: "k < length bs" "c = file_bytes (bs ! k)" using c by (auto simp: disk_def split: if_splits)
  have "\<forall>e \<in> set (bs ! k). encodable e" using d(1) nth_mem [OF k(1)] by (simp add: disk_def)
  then have "\<forall>e \<in> set (bs ! k). length (enc e) = 64 \<and> CHR 0x0A \<notin> set (enc e)"
    using enc_spec(2,4) by blast
  then show "int k \<le> h \<and> int (length c) \<le> n \<and>
      (\<exists>b. c = Join (map enc b) [CHR 0x0A] \<and> (\<forall>e \<in> set b. length (enc e) = 64 \<and> CHR 0x0A \<notin> set (enc e)))"
    using k d by (auto simp: file_bytes_def)
qed

theorem file_log_bounds_witness:
  "\<exists>log0 os0 log os'. NewFileRunLog ''/log'' 200 1 empty_os = (Ok log0, os0) \<and>
    fold_outcome (log_put ''/tmp'') [sample_entry] (log0, os0) = Ok (log, os') \<and>
    (\<forall>k c. files os' (pathN ''/log'' k) = Some c \<longrightarrow> int k \<le> 1 \<and> int (length c) \<le> 200)"
proof -
  have a: "faults empty_os = []" "\<And>k. files empty_os (pathN ''/log'' k) = None" by (simp_all add: empty_os_def)
  have b: "\<forall>e \<in> set [sample_entry]. encodable e" "latest_first (rev [sample_entry])"
    using sample_entry_encodable by (simp_all add: latest_first_def)
  obtain log0 os0 where l0: "NewFileRunLog ''/log'' 200 1 empty_os = (Ok log0, os0)" "file_inv log0 [[]] os0"
    using fresh_log [OF a, of 1 200] by auto
  then obtain log os' where "fold_outcome (log_put ''/tmp'') [sample_entry] (log0, os0) = Ok (log, os')"
    using file_Put_inv [OF l0(2) sample_entry_encodable, of "''/tmp''"]
    by (auto simp: all_entries_def log_put_def)
  then show ?thesis using file_log_bounds [OF a _ _ b l0(1)] l0(1) by fastforce
qed

section \<open>Entries out of order\<close>

lemma search_io_pure:
  assumes "\<And>k. k < j \<Longrightarrow> f k os = (Ok (g k), os)"
  shows "search_io f i j os = (Ok (search_loop g i j), os)"
  using assms
proof (induction g i j rule: search_loop.induct)
  case (1 g i j)
  show ?case
  proof (cases "i < j")
    case True
    then have h: "(i + j) div 2 < j" by simp
    then show ?thesis
      using 1 True by (subst search_io.simps, subst search_loop.simps) (auto simp: Let_def)
  next
    case False
    then show ?thesis by (subst search_io.simps, subst search_loop.simps) simp
  qed
qed

text \<open>The position, counted from the latest entry, of the first entry that is not later.\<close>

lemma firstEntryNotAfter_spec:
  assumes "faults os = []" "files os p = Some (file_bytes es)" "\<And>e. e \<in> set es \<Longrightarrow> encodable e"
    "nbrEntries d = int (length es)" "sorted (map RunLogTime es)"
  shows "\<exists>m \<le> length es. firstEntryNotAfter d t p os = (Ok (int (length es - m)), os) \<and>
    take m es = filter (\<lambda>x. RunLogTime x \<le> t) es \<and> drop m es = filter (\<lambda>x. t < RunLogTime x) es"
proof -
  let ?n = "length es"
  define g where "g k \<longleftrightarrow> RunLogTime (rev es ! k) \<le> t" for k
  define s where "s = Search ?n g"
  have "notAfter_pred d t p k os = (Ok (g k), os)" if "k < ?n" for k
    using readEntry_spec [OF assms(1-4) that] by (simp add: notAfter_pred_def g_def After_def not_less)
  then have "search_io (notAfter_pred d t p) 0 ?n os = (Ok s, os)"
    using search_io_pure [of ?n "notAfter_pred d t p" os g 0] by (simp add: s_def Search_def)
  then have search: "firstEntryNotAfter d t p os = (Ok (int s), os)"
    using assms(4) by (simp add: firstEntryNotAfter_def return_io_def)
  have "mono_on {..<?n} g"
  proof (intro mono_onI le_boolI)
    fix i j assume ij: "i \<in> {..<?n}" "j \<in> {..<?n}" "i \<le> j" "g i"
    then have "RunLogTime (es ! (?n - Suc j)) \<le> RunLogTime (es ! (?n - Suc i))"
      using sorted_nth_mono [OF assms(5), of "?n - Suc j" "?n - Suc i"] by simp
    then show "g j" using ij by (simp add: g_def rev_nth)
  qed
  then have s: "s \<le> ?n" "\<And>k. k < ?n \<Longrightarrow> g k \<longleftrightarrow> s \<le> k" unfolding s_def by (auto simp: Search_le Search_iff)
  have cut: "t < RunLogTime (es ! i) \<longleftrightarrow> ?n - s \<le> i" if "i < ?n" for i
    using s(2) [of "?n - Suc i"] s(1) that by (auto simp: g_def rev_nth not_le [symmetric])
  show ?thesis
    using search s(1) filter_from(1,2) [of "?n - s" es "\<lambda>x. t < RunLogTime x"] cut
    by (intro exI [of _ "?n - s"]) (simp add: not_less)
qed

lemma pushEntryF_spec:
  assumes "faults os = []" "files os p = Some (file_bytes es)" "encodable e"
  shows "pushEntryF (dtor_of p s es) e p os =
    (Ok (), dtor_of p s (es @ [e]), os\<lparr>files := (files os)(p \<mapsto> file_bytes (es @ [e]))\<rparr>)"
  using pushEntry_spec [OF assms, of s] assms(1,2) by (simp add: pushEntry_def os_Open_def)

text \<open>The entries that the copy loop writes for the positions \<open>q\<close>, \<open>q + 1\<close> and so on of the old file.\<close>

definition copied :: "RunLogEntry list \<Rightarrow> RunLogEntry \<Rightarrow> nat \<Rightarrow> nat list \<Rightarrow> RunLogEntry list" where
  "copied es e m ks = concat (map (\<lambda>j. if j = m then [e, es ! j] else [es ! j]) ks)"

lemma copied_spec:
  assumes "n \<le> length es"
  shows "copied es e m [0..<n] = (if m < n then take m es @ e # drop m (take n es) else take n es)"
  using assms
  by (induction n) (auto simp: copied_def take_Suc_conv_app_nth less_Suc_eq)

lemma pushInserted_spec:
  assumes "faults os = []" "files os tmp = Some (file_bytes acc)" "encodable e" "encodable x"
  defines "new \<equiv> \<lambda>i k. if i = (k::int) then [e, x] else [x]"
  shows "pushInserted i k e x (dtor_of tmp 0 acc) os =
    (Ok (), dtor_of tmp 0 (acc @ new i k), os\<lparr>files := (files os)(tmp \<mapsto> file_bytes (acc @ new i k))\<rparr>)"
proof (cases "i = k")
  case True
  let ?os1 = "os\<lparr>files := (files os)(tmp \<mapsto> file_bytes (acc @ [e]))\<rparr>"
  have "pushEntryF (dtor_of tmp 0 acc) e tmp os = (Ok (), dtor_of tmp 0 (acc @ [e]), ?os1)"
    using assms(1-3) by (rule pushEntryF_spec)
  moreover have "pushEntryF (dtor_of tmp 0 (acc @ [e])) x tmp ?os1 = (Ok (), dtor_of tmp 0 ((acc @ [e]) @ [x]),
      ?os1\<lparr>files := (files ?os1)(tmp \<mapsto> file_bytes ((acc @ [e]) @ [x]))\<rparr>)"
    using assms(1,4) by (intro pushEntryF_spec) auto
  ultimately show ?thesis using True by (simp add: pushInserted_def new_def)
next
  case False
  then show ?thesis using pushEntryF_spec [OF assms(1,2,4)] by (simp add: pushInserted_def new_def)
qed

lemma copyEntries_spec:
  assumes "faults os = []" "files os p = Some (file_bytes es)" "\<And>x. x \<in> set es \<Longrightarrow> encodable x"
    "nbrEntries d = int (length es)" "path d = p" "tmp \<noteq> p" "encodable e" "m \<le> length es"
    "files os tmp = Some (file_bytes acc)" "q + n \<le> length es"
  shows "copyEntries n (int (length es) - 1 - int q) (int (length es - m) - 1) e d (dtor_of tmp 0 acc) os =
    (Ok (), dtor_of tmp 0 (acc @ copied es e m [q..<q + n]),
     os\<lparr>files := (files os)(tmp \<mapsto> file_bytes (acc @ copied es e m [q..<q + n]))\<rparr>)"
  using assms(1,2,9,10)
proof (induction n arbitrary: q acc os)
  case 0
  then show ?case by (simp add: copied_def fun_upd_idem)
next
  case (Suc n)
  let ?i = "int (length es) - 1 - int q"
  have q: "q < length es" using Suc.prems(4) by simp
  have i: "?i = int (length es - 1 - q)" using q by simp
  have "readEntry d (int (length es - 1 - q)) p os = (Ok (rev es ! (length es - 1 - q)), os)"
    using q by (intro readEntry_spec) (use Suc.prems assms in auto)
  then have rd: "readEntry d ?i p os = (Ok (es ! q), os)" using q i by (simp add: rev_nth)
  have ins: "?i = int (length es - m) - 1 \<longleftrightarrow> q = m" using q assms(8) by auto
  let ?new = "if q = m then [e, es ! q] else [es ! q]"
  let ?os = "os\<lparr>files := (files os)(tmp \<mapsto> file_bytes (acc @ ?new))\<rparr>"
  have eq: "encodable (es ! q)" using q assms(3) by simp
  have push: "pushInserted ?i (int (length es - m) - 1) e (es ! q) (dtor_of tmp 0 acc) os = (Ok (), dtor_of tmp 0 (acc @ ?new), ?os)"
    using pushInserted_spec [OF Suc.prems(1,3) assms(7) eq, of ?i "int (length es - m) - 1"] unfolding ins .
  have "copyEntries (Suc n) ?i (int (length es - m) - 1) e d (dtor_of tmp 0 acc) os =
      copyEntries n (?i - 1) (int (length es - m) - 1) e d (dtor_of tmp 0 (acc @ ?new)) ?os"
    using rd push assms(5) by simp
  also have "?i - 1 = int (length es) - 1 - int (Suc q)" by simp
  also have "copyEntries n (int (length es) - 1 - int (Suc q)) (int (length es - m) - 1) e d (dtor_of tmp 0 (acc @ ?new)) ?os =
      (Ok (), dtor_of tmp 0 ((acc @ ?new) @ copied es e m [Suc q..<Suc q + n]),
       ?os\<lparr>files := (files ?os)(tmp \<mapsto> file_bytes ((acc @ ?new) @ copied es e m [Suc q..<Suc q + n]))\<rparr>)"
    using Suc.prems assms(6) by (intro Suc.IH) auto
  finally have "copyEntries (Suc n) ?i (int (length es - m) - 1) e d (dtor_of tmp 0 acc) os =
      (Ok (), dtor_of tmp 0 ((acc @ ?new) @ copied es e m [Suc q..<Suc q + n]),
       ?os\<lparr>files := (files ?os)(tmp \<mapsto> file_bytes ((acc @ ?new) @ copied es e m [Suc q..<Suc q + n]))\<rparr>)" .
  moreover have "(acc @ ?new) @ copied es e m [Suc q..<Suc q + n] = acc @ copied es e m [q..<q + Suc n]"
    by (simp add: copied_def upt_conv_Cons del: upt_Suc)
  moreover have "(os\<lparr>files := (files os)(tmp \<mapsto> a)\<rparr>)\<lparr>files := (files (os\<lparr>files := (files os)(tmp \<mapsto> a)\<rparr>))(tmp \<mapsto> c)\<rparr> =
      os\<lparr>files := (files os)(tmp \<mapsto> c)\<rparr>" for a c by simp
  ultimately show ?case by (simp only:)
qed


lemma rewriteFile_spec:
  assumes d: "disk p (b # bs) os" and tmp: "\<And>k. tmp \<noteq> pathN p k" and e: "encodable e" and m: "m \<le> length b"
    and b: "b \<noteq> []"
  defines "nb \<equiv> \<lambda>rot. copied b e m [0..<length b - (if rot then 1 else 0)]"
  shows "\<exists>os'. rewriteFile tmp rot (int (length b - m) - 1) e (dtor_of p 0 b) os =
      (Ok (dtor_of p 0 (nb rot), if rot then Some (last b) else None), os') \<and> disk p (nb rot # bs) os'"
proof -
  let ?n = "length b - (if rot then 1 else 0)"
  let ?nb = "nb rot"
  define os1 where "os1 = os\<lparr>files := (files os)(tmp \<mapsto> [])\<rparr>"
  define os2 where "os2 = os1\<lparr>files := (files os1)(tmp \<mapsto> file_bytes ?nb)\<rparr>"
  have p: "tmp \<noteq> p" using tmp [of 0] by (simp add: pathN_def)
  have enc_b: "\<And>x. x \<in> set b \<Longrightarrow> encodable x" using d by (simp add: disk_def)
  have fs: "faults os = []" "files os p = Some (file_bytes b)"
    using d by (auto simp: disk_def pathN_def dest: spec [of _ 0])
  have fs1: "faults os1 = []" "files os1 p = Some (file_bytes b)" "files os1 tmp = Some (file_bytes [])"
    using fs p by (simp_all add: os1_def file_bytes_def)
  have create: "os_Create tmp os = (Ok (), os1)" using fs by (simp add: os_Create_def os1_def)
  have make: "makeBackingFileDtor tmp 0 os1 = (Ok (Some (dtor_of tmp 0 [])), os1)"
    using fs1 by (intro makeBackingFileDtor_spec) auto
  have copy: "copyEntries ?n (int (length b) - 1) (int (length b - m) - 1) e (dtor_of p 0 b) (dtor_of tmp 0 []) os1 =
      (Ok (), dtor_of tmp 0 ?nb, os2)"
    using copyEntries_spec [OF fs1(1,2) enc_b _ _ p e m fs1(3), of "dtor_of p 0 b" 0 ?n]
    by (simp add: nb_def os2_def)
  have n: "nat (int (length b) - (if rot then 1 else 0)) = ?n" by auto
  have "readEntry (dtor_of p 0 b) (int 0) p os2 = (Ok (rev b ! 0), os2)"
    using fs1 p b enc_b by (intro readEntry_spec) (auto simp: os2_def)
  then have latest: "readEntry (dtor_of p 0 b) 0 p os2 = (Ok (last b), os2)" using b by (simp add: rev_nth last_conv_nth)
  have ren: "renameRobust tmp p os2 = (Ok (), os2\<lparr>files := ((files os2)(tmp := None))(p \<mapsto> file_bytes ?nb)\<rparr>)"
    using fs1 by (intro renameRobust_ok) (simp_all add: os2_def)
  let ?os = "os2\<lparr>files := ((files os2)(tmp := None))(p \<mapsto> file_bytes ?nb)\<rparr>"
  have path: "(dtor_of tmp 0 ?nb)\<lparr>path := p\<rparr> = dtor_of p 0 ?nb" by (simp add: dtor_of_def)
  have "rewriteFile tmp rot (int (length b - m) - 1) e (dtor_of p 0 b) os =
      (Ok (dtor_of p 0 ?nb, if rot then Some (last b) else None), ?os)"
    unfolding rewriteFile_def
    using create make copy n latest ren path
    by (simp add: removing_def Let_def return_io_def)
  moreover have "disk p (?nb # bs) ?os"
  proof -
    have "encodable x" if "x \<in> set ?nb" for x
      using that enc_b e by (auto simp: nb_def copied_def split: if_splits)
    moreover have "?os = (os\<lparr>files := (files os)(tmp := None)\<rparr>)\<lparr>files := (files (os\<lparr>files := (files os)(tmp := None)\<rparr>))(p \<mapsto> file_bytes ?nb)\<rparr>"
      by (simp add: os2_def os1_def)
    ultimately show ?thesis using disk_current [OF disk_other [OF d tmp]] by metis
  qed
  ultimately show ?thesis by blast
qed

text \<open>What the copy loop makes of a sorted file whose latest entry is later than the new one.\<close>

lemma copied_place:
  assumes "take m b = filter (\<lambda>x. RunLogTime x \<le> RunLogTime e) b" "drop m b = filter (\<lambda>x. RunLogTime e < RunLogTime x) b"
    "m \<le> length b" "b \<noteq> []" "RunLogTime e < RunLogTime (last b)"
  shows "copied b e m [0..<length b] = place e b"
    "copied b e m [0..<length b - 1] =
       (if \<exists>x \<in> set (butlast b). RunLogTime e < RunLogTime x then place e (butlast b) else butlast b)"
proof -
  have split: "b = butlast b @ [last b]" using assms(4) by simp
  have lo: "filter (\<lambda>x. RunLogTime x \<le> RunLogTime e) b = filter (\<lambda>x. RunLogTime x \<le> RunLogTime e) (butlast b)"
    using assms(5) by (subst split) simp
  have hi: "filter (\<lambda>x. RunLogTime e < RunLogTime x) b = filter (\<lambda>x. RunLogTime e < RunLogTime x) (butlast b) @ [last b]"
    using assms(5) by (subst split) simp
  then have m: "m < length b" using assms(2,3) by (metis append_is_Nil_conv drop_eq_Nil list.distinct(1) not_less)
  show "copied b e m [0..<length b] = place e b"
    using m assms(1,2) by (simp add: copied_spec place_def)
  have cut: "take (length b - 1) b = butlast b" by (simp add: butlast_conv_take)
  have "drop m (butlast b) = filter (\<lambda>x. RunLogTime e < RunLogTime x) (butlast b)"
    using assms(2) hi m by (simp add: drop_butlast)
  moreover have "take m b = filter (\<lambda>x. RunLogTime x \<le> RunLogTime e) (butlast b)" using assms(1) lo by simp
  moreover have "(\<exists>x \<in> set (butlast b). RunLogTime e < RunLogTime x) \<longleftrightarrow> m < length b - 1"
  proof -
    have "(\<exists>x \<in> set (butlast b). RunLogTime e < RunLogTime x) \<longleftrightarrow> drop m (butlast b) \<noteq> []"
      unfolding \<open>drop m (butlast b) = _\<close> by (auto simp: filter_empty_conv)
    then show ?thesis by (auto simp: not_le)
  qed
  ultimately show "copied b e m [0..<length b - 1] =
       (if \<exists>x \<in> set (butlast b). RunLogTime e < RunLogTime x then place e (butlast b) else butlast b)"
    using copied_spec [of "length b - 1" b e m] unfolding cut by (simp add: place_def)
qed

lemma current_sorted: "latest_first (all_entries (b # bs)) \<Longrightarrow> sorted (map RunLogTime b)"
  by (simp add: latest_first_def all_entries_def sorted_wrt_append sorted_wrt_rev sorted_map)

text \<open>
  Rewriting the current file with an entry in its place: the file that is written, and the entry
  that is left over when the file is full.
\<close>

lemma rewrite_current:
  assumes inv: "file_inv log (b # bs) os" and e: "encodable e" and tmp: "\<forall>k. tmp \<noteq> pathN (filePath log) k"
    and b: "b \<noteq> []" "RunLogTime e < RunLogTime (last b)"
  shows "\<exists>nb os1. bind_io (wrap_io (\<lambda>e. Error ''Failed to open backing file'' (Some e)) (os_Open (filePath log)))
      (\<lambda>_. bind_io (firstEntryNotAfter (dtor_of (filePath log) 0 b) (RunLogTime e) (filePath log))
        (\<lambda>i. rewriteFile tmp full (i - 1) e (dtor_of (filePath log) 0 b))) os =
      (Ok (dtor_of (filePath log) 0 nb, if full then Some (last b) else None), os1) \<and>
    disk (filePath log) (nb # bs) os1 \<and>
    nb = (if \<not> full then place e b
          else if \<exists>x \<in> set (butlast b). RunLogTime e < RunLogTime x then place e (butlast b) else butlast b)"
proof -
  let ?p = "filePath log"
  have d: "disk ?p (b # bs) os" and so: "sorted (map RunLogTime b)"
    using inv current_sorted by (auto simp: file_inv_def blocks_ok_def)
  have enc_b: "\<And>x. x \<in> set b \<Longrightarrow> encodable x" using d by (simp add: disk_def)
  have fs: "faults os = []" "files os ?p = Some (file_bytes b)"
    using d by (auto simp: disk_def pathN_def dest: spec [of _ 0])
  obtain m where m: "m \<le> length b" "firstEntryNotAfter (dtor_of ?p 0 b) (RunLogTime e) ?p os = (Ok (int (length b - m)), os)"
      "take m b = filter (\<lambda>x. RunLogTime x \<le> RunLogTime e) b" "drop m b = filter (\<lambda>x. RunLogTime e < RunLogTime x) b"
    using firstEntryNotAfter_spec [OF fs enc_b _ so, of "dtor_of ?p 0 b" "RunLogTime e"] by auto
  define nb where "nb = copied b e m [0..<length b - (if full then 1 else 0)]"
  obtain os1 where rw: "rewriteFile tmp full (int (length b - m) - 1) e (dtor_of ?p 0 b) os =
      (Ok (dtor_of ?p 0 nb, if full then Some (last b) else None), os1)" "disk ?p (nb # bs) os1"
    using rewriteFile_spec [OF d _ e m(1) b(1), of tmp full] tmp unfolding nb_def by blast
  have "nb = (if \<not> full then place e b
      else if \<exists>x \<in> set (butlast b). RunLogTime e < RunLogTime x then place e (butlast b) else butlast b)"
    using copied_place [OF m(3,4,1) b] by (simp add: nb_def)
  then show ?thesis
    using fs m(2) rw by (intro exI [of _ nb] exI [of _ os1]) (simp add: os_Open_def)
qed

text \<open>Rotating the rewritten file, and starting the new one with the entry that was left over.\<close>

lemma rotate_and_push:
  assumes ix: "index log = index_of (filePath log) (b # bs)" and h: "0 \<le> maxHistories log" "int (length (b # bs)) \<le> maxHistories log + 1"
    and d: "disk (filePath log) (nb # bs) os1" and e: "encodable e"
  defines "kept \<equiv> take (nat (maxHistories log)) (nb # bs)"
  shows "\<exists>os2. rotateFiles (log\<lparr>index := (index log)[0 := dtor_of (filePath log) 0 nb]\<rparr>) os1 =
      (Ok (), log\<lparr>index := index_of (filePath log) ([] # kept)\<rparr>, os2) \<and>
    pushEntry (dtor_of (filePath log) 0 []) e os2 =
      (Ok (), dtor_of (filePath log) 0 [e], os2\<lparr>files := (files os2)(filePath log \<mapsto> file_bytes [e])\<rparr>) \<and>
    disk (filePath log) ([e] # kept) (os2\<lparr>files := (files os2)(filePath log \<mapsto> file_bytes [e])\<rparr>)"
proof -
  let ?p = "filePath log" and ?log1 = "log\<lparr>index := (index log)[0 := dtor_of (filePath log) 0 nb]\<rparr>"
  have "path (index ?log1 ! k) = pathN ?p k" if "k < length (nb # bs)" for k
    using that by (cases k) (simp_all add: ix index_of_nth pathN_def)
  then have "\<exists>os2. rotateFiles ?log1 os1 = (Ok (), ?log1\<lparr>index := index_of ?p ([] # kept)\<rparr>, os2) \<and> disk ?p ([] # kept) os2"
    using rotateFiles_spec [of ?log1 "nb # bs" os1] d h by (simp add: ix kept_def)
  then obtain os2 where rot: "rotateFiles ?log1 os1 = (Ok (), log\<lparr>index := index_of ?p ([] # kept)\<rparr>, os2)"
      "disk ?p ([] # kept) os2" by auto
  have "faults os2 = []" "files os2 ?p = Some (file_bytes [])"
    using rot(2) by (auto simp: disk_def pathN_def dest: spec [of _ 0])
  then have "pushEntry (dtor_of ?p 0 []) e os2 = (Ok (), dtor_of ?p 0 ([] @ [e]), os2\<lparr>files := (files os2)(?p \<mapsto> file_bytes ([] @ [e]))\<rparr>)"
    using e by (intro pushEntry_spec) auto
  moreover have "disk ?p ([e] # kept) (os2\<lparr>files := (files os2)(?p \<mapsto> file_bytes [e])\<rparr>)"
    using disk_current [OF rot(2), of "[e]"] e by simp
  ultimately show ?thesis using rot(1) by (intro exI [of _ os2]) simp
qed


text \<open>A full file of the entries at times 1 and 3, into which an entry at time 2 is put: it is lost.\<close>

definition entry_of :: "go_time \<Rightarrow> RunLogEntry" where
  "entry_of t = sample_entry\<lparr>RunLogTime := t\<rparr>"

lemma entry_of_encodable:
  assumes "0 \<le> t" "t < 10"
  shows "encodable (entry_of t)"
proof -
  have "length (Itoa t) = 1" using assms by (simp add: Itoa_def nat_str.simps)
  moreover have "length (Duration_String 1500000000) = 4"
    by (simp add: Duration_String_def duration_units_def fmtFrac_def Let_def nat_str.simps)
  ultimately show ?thesis
    using assms by (simp add: encodable_def entry_of_def sample_entry_def entry_text_def Join_Split_char)
qed

definition full_log :: fileRunLog where
  "full_log = \<lparr>filePath = ''/log'', maxFileLen = 150, maxHistories = 1, index = index_of ''/log'' [[entry_of 1, entry_of 3]]\<rparr>"

definition full_os :: os where
  "full_os = \<lparr>files = [''/log'' \<mapsto> file_bytes [entry_of 1, entry_of 3]], faults = []\<rparr>"

lemma full_log_inv: "file_inv full_log [[entry_of 1, entry_of 3]] full_os"
proof -
  have enc: "encodable (entry_of 1)" "encodable (entry_of 3)" by (simp_all add: entry_of_encodable)
  have "pathN ''/log'' k = ''/log'' \<longleftrightarrow> k = 0" for k using pathN_inj [of "''/log''" k 0] by (simp add: pathN_def)
  then have "disk ''/log'' [[entry_of 1, entry_of 3]] full_os"
    using enc by (auto simp: disk_def full_os_def pathN_def [of _ 0])
  moreover have "length (file_bytes [entry_of 1, entry_of 3]) = 129"
    using enc file_bytes_length [of "[entry_of 1, entry_of 3]"] by auto
  moreover have "latest_first (all_entries [[entry_of 1, entry_of 3]])"
    by (simp add: latest_first_def all_entries_def entry_of_def)
  ultimately show ?thesis by (simp add: file_inv_def blocks_ok_def full_log_def)
qed


section \<open>Renaming when the system cannot\<close>

lemma copy_loop_spec:
  assumes "faults os = []" "files os new = Some acc"
  shows "copy_loop True new rest os = (Ok (), os\<lparr>files := (files os)(new \<mapsto> acc @ rest)\<rparr>)"
  using assms
proof (induction "length rest" arbitrary: rest acc os rule: less_induct)
  case less
  show ?case
  proof (cases "rest = []")
    case True
    then show ?thesis using less.prems by (simp add: copy_loop.simps [of _ _ _ os] return_io_def fun_upd_idem)
  next
    case False
    let ?os = "os\<lparr>files := (files os)(new \<mapsto> acc @ take 1024 rest)\<rparr>"
    have step: "copy_loop True new rest os = copy_loop True new (drop 1024 rest) ?os"
      using False less.prems by (subst copy_loop.simps) (simp add: return_io_def file_WriteString_def)
    have "copy_loop True new (drop 1024 rest) ?os =
        (Ok (), ?os\<lparr>files := (files ?os)(new \<mapsto> (acc @ take 1024 rest) @ drop 1024 rest)\<rparr>)"
      using less.prems False by (intro less.hyps) simp_all
    then show ?thesis unfolding step by simp
  qed
qed

text \<open>
  \<open>renameRobust\<close>: if the source file exists, it is moved, contents and all, to the new path,
  both when the system can rename it and when only the rename call fails and the contents are
  copied in pieces of 1024 bytes instead.
\<close>

theorem renameRobust_moves:
  assumes "files os old = Some c" "old \<noteq> new" "faults os = [] \<or> faults os = [True]"
  shows "renameRobust old new os = (Ok (), os\<lparr>files := ((files os)(old := None))(new \<mapsto> c), faults := []\<rparr>)"
proof (cases "faults os = []")
  case True
  then show ?thesis using renameRobust_ok [OF True assms(1)] by simp
next
  case False
  then have f: "faults os = [True]" using assms(3) by simp
  let ?os1 = "os\<lparr>faults := []\<rparr>"
  let ?os3 = "?os1\<lparr>files := (files os)(new \<mapsto> [])\<rparr>"
  have "os_Rename old new os = (Fail io_error, ?os1)" using f by (simp add: os_Rename_def os_call_def)
  moreover have "os_Open old ?os1 = (Ok (), ?os1)" "file_Stat old ?os1 = (Ok (int (length c)), ?os1)"
    "os_Create new ?os1 = (Ok (), ?os3)"
    using assms(1) by (simp_all add: os_Open_def file_Stat_def os_Create_def)
  moreover have "copy_loop True new c ?os3 = (Ok (), ?os3\<lparr>files := (files ?os3)(new \<mapsto> [] @ c)\<rparr>)"
    by (intro copy_loop_spec) simp_all
  ultimately show ?thesis
    using assms(1,2) by (simp add: renameRobust_def os_Remove_def fun_upd_twist)
qed

theorem renameRobust_moves_witness:
  "\<exists>os'. renameRobust ''a'' ''b'' \<lparr>files = [''a'' \<mapsto> ''text''], faults = [True]\<rparr> = (Ok (), os') \<and>
     files os' ''b'' = Some ''text'' \<and> files os' ''a'' = None"
  using renameRobust_moves [of "\<lparr>files = [''a'' \<mapsto> ''text''], faults = [True]\<rparr>" "''a''" "''text''" "''b''"] by simp

end
