(* ===== verification/Run_Rec_Server.thy ===== *)
theory Run_Rec_Server
  imports Go_OS "HOL-Library.Sublist" "HOL-Library.AList"
begin

text \<open>
  The servers that send run records to socket clients (\<open>jobfile/run_rec_server.go\<close>): a registry of
  servers, a server goroutine for each, and a goroutine for each connection, with channels of ten
  records between them.

  A channel is the list of its contents with a flag that says whether it was closed; sending to a
  closed channel, or closing it again, panics. The goroutines are interleaved: \<open>server_step\<close> has one
  rule for each thing that the caller, the server goroutine, a connection goroutine or the network
  does next. Fields that the program does not have, but the statements need, are marked as history.
\<close>

section \<open>Connections\<close>

definition chan_cap :: nat where
  "chan_cap = 10"

text \<open>History: \<open>h_sent\<close>, the records written to the connection, and \<open>h_errs\<close>, the lines it logged.\<close>

record connHandler =
  h_running :: bool
  h_chan :: "string list"
  h_closed :: bool
  h_dropped :: nat
  h_sent :: "string list"
  h_errs :: "string list"

definition launchConnHandler :: connHandler where
  "launchConnHandler = \<lparr>h_running = True, h_chan = [], h_closed = False, h_dropped = 0, h_sent = [], h_errs = []\<rparr>"

definition connHandler_Push :: "string \<Rightarrow> connHandler \<Rightarrow> connHandler outcome" where
  "connHandler_Push runRec self =
     (if \<not> h_running self then Ok self
      else if h_closed self then Panic ''send on closed channel''
      else if length (h_chan self) < chan_cap then Ok (self\<lparr>h_chan := h_chan self @ [runRec]\<rparr>)
      else Ok (self\<lparr>h_dropped := h_dropped self + 1\<rparr>))"

definition connHandler_Stop :: "connHandler \<Rightarrow> connHandler outcome" where
  "connHandler_Stop self =
     (if \<not> h_running self then Ok self
      else if h_closed self then Panic ''close of closed channel''
      else Ok (self\<lparr>h_closed := True\<rparr>))"

text \<open>
  One round of the connection's goroutine, where \<open>written\<close> is the error of the write, if any;
  \<^term>\<open>None\<close> when it has ended or waits.
\<close>

definition connHandler_thread :: "error option \<Rightarrow> connHandler \<Rightarrow> connHandler option" where
  "connHandler_thread written self =
     (if \<not> h_running self then None
      else case h_chan self of
          rec # recs \<Rightarrow>
            (case written of
               None \<Rightarrow> Some (self\<lparr>h_chan := recs, h_sent := h_sent self @ [rec]\<rparr>)
             | Some e \<Rightarrow> Some (self\<lparr>h_chan := recs, h_running := False, h_errs := h_errs self @ [Error_Error e]\<rparr>))
        | [] \<Rightarrow> if h_closed self then Some (self\<lparr>h_running := False\<rparr>) else None)"

section \<open>A server\<close>

type_synonym serverId = "string \<times> string"

text \<open>
  \<open>s_alive\<close>: the server goroutine has not ended; \<open>s_listening\<close>: the listener is open; \<open>s_conn\<close>: the
  goroutine of \<open>acceptConns\<close> holds a connection that it has accepted, until the server goroutine takes it from the
  channel, which is closed when the listener is and none is held. History:
  \<open>s_former\<close>, the connections that were handed over to their goroutines or reaped, \<open>s_pushed\<close>,
  the records given to \<open>Push\<close>, and \<open>s_errs\<close>, the lines it logged.
\<close>

record runRecServer =
  sid :: serverId
  s_running :: bool
  s_chan :: "string list"
  s_closed :: bool
  s_dropped :: nat
  s_handlers :: "connHandler list"
  s_listening :: bool
  s_conn :: bool
  s_alive :: bool
  s_former :: "connHandler list"
  s_pushed :: "string list"
  s_errs :: "string list"

definition launchRunRecServer :: "(serverId \<Rightarrow> error option) \<Rightarrow> serverId \<Rightarrow> runRecServer outcome" where
  "launchRunRecServer listen i =
     (case listen i of
        Some e \<Rightarrow> Fail e
      | None \<Rightarrow> Ok \<lparr>sid = i, s_running = True, s_chan = [], s_closed = False, s_dropped = 0, s_handlers = [],
                    s_listening = True, s_conn = False, s_alive = True, s_former = [], s_pushed = [], s_errs = []\<rparr>)"

definition runRecServer_Push :: "string \<Rightarrow> runRecServer \<Rightarrow> runRecServer outcome" where
  "runRecServer_Push runRec self0 =
     (let self = self0\<lparr>s_pushed := s_pushed self0 @ [runRec]\<rparr> in
      if \<not> s_running self then Ok self
      else if s_closed self then Panic ''send on closed channel''
      else if length (s_chan self) < chan_cap then Ok (self\<lparr>s_chan := s_chan self @ [runRec]\<rparr>)
      else Ok (self\<lparr>s_dropped := s_dropped self + 1\<rparr>))"

text \<open>
  The socket of a server on a path is removed after the listener is closed, and an error of that is logged.
  (Closing the listener has removed it already; the files of listening sockets are not among those of the
  model's file system.)
\<close>

definition runRecServer_Stop :: "runRecServer \<Rightarrow> os \<Rightarrow> runRecServer outcome \<times> os" where
  "runRecServer_Stop self os =
     (if \<not> s_running self then (Ok self, os)
      else if s_closed self then (Panic ''close of closed channel'', os)
      else
        let self1 = self\<lparr>s_listening := False, s_closed := True, s_running := False\<rparr> in
        if fst (sid self) = ''unix'' then
          (case os_Remove (snd (sid self)) os of
             (Fail e, os1) \<Rightarrow> (Ok (self1\<lparr>s_errs := s_errs self @ [Error_Error e]\<rparr>), os1)
           | (_, os1) \<Rightarrow> (Ok self1, os1))
        else (Ok self1, os))"

text \<open>The top of the server goroutine's loop: connections whose goroutine has ended are let go.\<close>

definition reap :: "runRecServer \<Rightarrow> runRecServer" where
  "reap self = self\<lparr>s_handlers := filter h_running (s_handlers self),
     s_former := s_former self @ filter (\<lambda>h. \<not> h_running h) (s_handlers self)\<rparr>"

text \<open>The deferred function of the server goroutine.\<close>

definition server_exit :: "runRecServer \<Rightarrow> runRecServer outcome" where
  "server_exit self =
     bind_outcome (map_outcome connHandler_Stop (s_handlers self)) (\<lambda>stopped.
       Ok (self\<lparr>s_handlers := [], s_former := s_former self @ stopped, s_running := False, s_alive := False\<rparr>))"

definition server_accept :: "runRecServer \<Rightarrow> runRecServer" where
  "server_accept self = reap (self\<lparr>s_conn := False, s_handlers := s_handlers self @ [launchConnHandler]\<rparr>)"

text \<open>
  A connection that was accepted before the listener was closed may still be taken. The server
  goroutine takes a record from its channel; nothing to do while the channel is empty and open.
\<close>

definition server_receive :: "runRecServer \<Rightarrow> runRecServer outcome option" where
  "server_receive self =
     (case s_chan self of
        rec # recs \<Rightarrow>
          Some (bind_outcome (map_outcome (connHandler_Push rec) (s_handlers self)) (\<lambda>hs.
            Ok (reap (self\<lparr>s_chan := recs, s_handlers := hs\<rparr>))))
      | [] \<Rightarrow> if s_closed self then Some (server_exit self) else None)"

inductive server_step :: "runRecServer \<Rightarrow> runRecServer outcome \<Rightarrow> bool" where
  push: "server_step s (runRecServer_Push r s)"
| stop: "server_step s (fst (runRecServer_Stop s os))"
| listener_dies: "server_step s (Ok (s\<lparr>s_listening := False\<rparr>))"
| connect: "s_listening s \<Longrightarrow> \<not> s_conn s \<Longrightarrow> server_step s (Ok (s\<lparr>s_conn := True\<rparr>))"
| accept: "s_alive s \<Longrightarrow> s_conn s \<Longrightarrow> server_step s (Ok (server_accept s))"
| no_listener: "s_alive s \<Longrightarrow> \<not> s_listening s \<Longrightarrow> \<not> s_conn s \<Longrightarrow> server_step s (server_exit s)"
| receive: "s_alive s \<Longrightarrow> server_receive s = Some r \<Longrightarrow> server_step s r"
| handler: "i < length (s_handlers s) \<Longrightarrow> connHandler_thread written (s_handlers s ! i) = Some h \<Longrightarrow>
    server_step s (Ok (s\<lparr>s_handlers := (s_handlers s)[i := h]\<rparr>))"
| former: "i < length (s_former s) \<Longrightarrow> connHandler_thread written (s_former s ! i) = Some h \<Longrightarrow>
    server_step s (Ok (s\<lparr>s_former := (s_former s)[i := h]\<rparr>))"

inductive server_reaches :: "runRecServer \<Rightarrow> runRecServer outcome \<Rightarrow> bool" for s0 where
  start: "server_reaches s0 (Ok s0)"
| step: "server_reaches s0 (Ok s) \<Longrightarrow> server_step s r \<Longrightarrow> server_reaches s0 r"

section \<open>The registry\<close>

type_synonym runRecServerRegistry = "(serverId \<times> runRecServer) list"

text \<open>A Go map is the list of its pairs in the order in which the range statement visits them.\<close>

fun make_servers :: "(serverId \<Rightarrow> error option) \<Rightarrow> serverId list \<Rightarrow> runRecServerRegistry \<Rightarrow> runRecServerRegistry" where
  "make_servers listen [] servers = servers"
| "make_servers listen (i # ids) servers =
     make_servers listen ids
       (case launchRunRecServer listen i of Ok server \<Rightarrow> AList.update i server servers | _ \<Rightarrow> servers)"

fun delete_servers ::
    "serverId list \<Rightarrow> runRecServerRegistry \<Rightarrow> runRecServer list \<Rightarrow> os \<Rightarrow> (runRecServerRegistry \<times> runRecServer list) outcome \<times> os" where
  "delete_servers [] servers stopped os = (Ok (servers, stopped), os)"
| "delete_servers (i # ids) servers stopped os =
     (case map_of servers i of
        None \<Rightarrow> (Panic ''nil pointer dereference'', os)
      | Some server \<Rightarrow>
          bind_io (runRecServer_Stop server) (\<lambda>server1.
            delete_servers ids (AList.delete i servers) (stopped @ [server1])) os)"

text \<open>
  \<open>SetServers\<close> also gives the servers it stopped, which the program drops. The line that it logs
  for an address that cannot be listened on is left out.
\<close>

definition SetServers ::
    "(serverId \<Rightarrow> error option) \<Rightarrow> string list \<Rightarrow> string list \<Rightarrow> runRecServerRegistry \<Rightarrow> os \<Rightarrow>
     (runRecServerRegistry \<times> runRecServer list) outcome \<times> os" where
  "SetServers listen protos addresses servers =
     (if length protos \<noteq> length addresses then panic_io ''len(protos) != len(addresses)''
      else
        let sidMap = remdups (zip protos addresses);
            serversToMake = filter (\<lambda>i. map_of servers i = None) sidMap;
            serversToDelete = filter (\<lambda>i. i \<notin> set sidMap) (map fst servers)
        in delete_servers serversToDelete (make_servers listen serversToMake servers) [])"

definition registry_Push ::
    "string \<Rightarrow> string \<Rightarrow> string \<Rightarrow> runRecServerRegistry \<Rightarrow> runRecServerRegistry outcome" where
  "registry_Push proto address runRec servers =
     (case map_of servers (proto, address) of
        None \<Rightarrow> Ok servers
      | Some server \<Rightarrow>
          if \<not> s_running server then Ok servers
          else bind_outcome (runRecServer_Push runRec server) (\<lambda>server1.
            Ok (AList.update (proto, address) server1 servers)))"

section \<open>The invariant of a server\<close>

text \<open>Of a connection, after the server goroutine has taken the records \<open>recvd\<close> from its channel.\<close>

definition handler_ok :: "string list \<Rightarrow> connHandler \<Rightarrow> bool" where
  "handler_ok recvd h \<longleftrightarrow> length (h_chan h) \<le> chan_cap \<and> subseq (h_sent h @ h_chan h) recvd"

definition server_inv :: "runRecServer \<Rightarrow> bool" where
  "server_inv s \<longleftrightarrow> (s_running s \<longrightarrow> \<not> s_closed s) \<and> length (s_chan s) \<le> chan_cap \<and>
     (\<forall>h \<in> set (s_handlers s). \<not> h_closed h) \<and>
     (\<exists>recvd. subseq (recvd @ s_chan s) (s_pushed s) \<and>
        (\<forall>h \<in> set (s_handlers s @ s_former s). handler_ok recvd h))"

lemma server_invI:
  assumes "s_running s \<longrightarrow> \<not> s_closed s" "length (s_chan s) \<le> chan_cap" "\<forall>h \<in> set (s_handlers s). \<not> h_closed h"
    "subseq (recvd @ s_chan s) (s_pushed s)" "\<forall>h \<in> set (s_handlers s) \<union> set (s_former s). handler_ok recvd h"
  shows "server_inv s"
  using assms by (auto simp: server_inv_def)

lemma server_invE:
  assumes "server_inv s"
  obtains recvd where "s_running s \<longrightarrow> \<not> s_closed s" "length (s_chan s) \<le> chan_cap"
    "\<forall>h \<in> set (s_handlers s). \<not> h_closed h" "subseq (recvd @ s_chan s) (s_pushed s)"
    "\<forall>h \<in> set (s_handlers s) \<union> set (s_former s). handler_ok recvd h"
  using assms by (auto simp: server_inv_def)

lemma subseq_snoc: "subseq xs ys \<Longrightarrow> subseq xs (ys @ [y])"
  by (simp add: subseq_rev_drop_many)

lemma subseq_prefix: "subseq (xs @ ys) zs \<Longrightarrow> subseq xs zs"
  using subseq_rev_drop_many [OF subseq_order.order_refl, of xs ys] subseq_order.order_trans by blast

lemma handler_thread_ok:
  assumes "connHandler_thread written h = Some h'" "handler_ok recvd h"
  shows "handler_ok recvd h' \<and> h_closed h' = h_closed h"
proof -
  have "subseq (xs @ ys) (xs @ y # ys)" for xs ys and y :: string
    by (rule list_emb_append_mono) auto
  then have "subseq (xs @ ys) zs" if "subseq (xs @ y # ys) zs" for xs ys zs and y :: string
    using that subseq_order.order_trans by blast
  then show ?thesis
    using assms by (auto simp: connHandler_thread_def handler_ok_def split: if_splits list.splits option.splits)
qed

lemma handler_Push_ok:
  assumes "handler_ok recvd h" "\<not> h_closed h"
  shows "\<exists>h'. connHandler_Push r h = Ok h' \<and> handler_ok (recvd @ [r]) h' \<and> \<not> h_closed h'"
  using assms by (auto simp: connHandler_Push_def handler_ok_def subseq_snoc simp flip: append_assoc)

lemma handler_Stop_ok:
  assumes "handler_ok recvd h" "\<not> h_closed h"
  shows "\<exists>h'. connHandler_Stop h = Ok h' \<and> handler_ok recvd h'"
  using assms by (auto simp: connHandler_Stop_def handler_ok_def)

lemma map_outcome_ex:
  assumes "\<And>x. x \<in> set xs \<Longrightarrow> \<exists>y. f x = Ok y \<and> P y"
  shows "\<exists>ys. map_outcome f xs = Ok ys \<and> (\<forall>y \<in> set ys. P y)"
  using assms
proof (induction xs)
  case (Cons x xs)
  obtain y where "f x = Ok y" "P y" using Cons.prems by auto
  moreover obtain ys where "map_outcome f xs = Ok ys" "\<forall>y \<in> set ys. P y" using Cons by auto
  ultimately show ?case by simp
qed simp

lemma reap_inv: "server_inv s \<Longrightarrow> server_inv (reap s)"
  by (erule server_invE, rule server_invI) (auto simp: reap_def)

lemma server_exit_inv:
  assumes "server_inv s"
  shows "\<exists>s'. server_exit s = Ok s' \<and> server_inv s'"
  using assms
proof (rule server_invE)
  fix recvd
  assume inv: "length (s_chan s) \<le> chan_cap" "\<forall>h \<in> set (s_handlers s). \<not> h_closed h"
    "subseq (recvd @ s_chan s) (s_pushed s)" "\<forall>h \<in> set (s_handlers s) \<union> set (s_former s). handler_ok recvd h"
  have "\<exists>hs. map_outcome connHandler_Stop (s_handlers s) = Ok hs \<and> (\<forall>h \<in> set hs. handler_ok recvd h)"
    using inv(2,4) handler_Stop_ok by (intro map_outcome_ex) blast
  then obtain hs where "map_outcome connHandler_Stop (s_handlers s) = Ok hs" "\<forall>h \<in> set hs. handler_ok recvd h"
    by blast
  then show ?thesis using inv by (auto simp: server_exit_def intro!: server_invI [where recvd = recvd])
qed

lemma server_receive_inv:
  assumes "server_inv s" "server_receive s = Some r"
  shows "\<exists>s'. r = Ok s' \<and> server_inv s'"
proof (cases "s_chan s")
  case Nil
  then show ?thesis using assms server_exit_inv by (auto simp: server_receive_def split: if_splits)
next
  case (Cons x xs)
  show ?thesis
    using assms(1)
  proof (rule server_invE)
    fix recvd
    assume inv: "s_running s \<longrightarrow> \<not> s_closed s" "length (s_chan s) \<le> chan_cap" "\<forall>h \<in> set (s_handlers s). \<not> h_closed h"
      "subseq (recvd @ s_chan s) (s_pushed s)" "\<forall>h \<in> set (s_handlers s) \<union> set (s_former s). handler_ok recvd h"
    have "\<exists>hs. map_outcome (connHandler_Push x) (s_handlers s) = Ok hs \<and>
        (\<forall>h \<in> set hs. handler_ok (recvd @ [x]) h \<and> \<not> h_closed h)"
      using inv(3,5) handler_Push_ok by (intro map_outcome_ex) blast
    then obtain hs where hs: "map_outcome (connHandler_Push x) (s_handlers s) = Ok hs"
        "\<forall>h \<in> set hs. handler_ok (recvd @ [x]) h \<and> \<not> h_closed h" by blast
    have "handler_ok (recvd @ [x]) h" if "h \<in> set (s_former s)" for h
      using inv(5) that subseq_snoc by (auto simp: handler_ok_def)
    then have "server_inv (s\<lparr>s_chan := xs, s_handlers := hs\<rparr>)"
      using inv hs(2) Cons by (intro server_invI [where recvd = "recvd @ [x]"]) auto
    then show ?thesis using assms(2) Cons hs(1) reap_inv by (auto simp: server_receive_def)
  qed
qed

lemma server_step_inv:
  assumes "server_step s r" "server_inv s"
  shows "\<exists>s'. r = Ok s' \<and> server_inv s'"
  using assms
proof (induction rule: server_step.induct)
  case (push s r)
  show ?case
    using push.prems
  proof (rule server_invE)
    fix recvd
    assume inv: "s_running s \<longrightarrow> \<not> s_closed s" "length (s_chan s) \<le> chan_cap" "\<forall>h \<in> set (s_handlers s). \<not> h_closed h"
      "subseq (recvd @ s_chan s) (s_pushed s)" "\<forall>h \<in> set (s_handlers s) \<union> set (s_former s). handler_ok recvd h"
    have "subseq (recvd @ s_chan s) (s_pushed s @ [r])" using inv(4) by (rule subseq_snoc)
    moreover have "subseq (recvd @ s_chan s @ [r]) (s_pushed s @ [r])"
      using list_emb_append_mono [OF inv(4), of "[r]" "[r]"] by simp
    ultimately show ?thesis
      using inv by (cases "s_running s") (auto simp: runRecServer_Push_def Let_def intro!: server_invI [where recvd = recvd])
  qed
next
  case (stop s os)
  then show ?case
    by (elim server_invE) (auto simp: runRecServer_Stop_def Let_def intro!: server_invI split: prod.splits outcome.splits)
next
  case (listener_dies s)
  then show ?case by (elim server_invE) (auto intro!: server_invI)
next
  case (connect s)
  then show ?case by (elim server_invE) (auto intro!: server_invI)
next
  case (accept s)
  then have "server_inv (s\<lparr>s_conn := False, s_handlers := s_handlers s @ [launchConnHandler]\<rparr>)"
    by (elim server_invE) (auto simp: launchConnHandler_def handler_ok_def intro!: server_invI)
  then show ?case by (auto simp: server_accept_def reap_inv)
next
  case (no_listener s)
  then show ?case using server_exit_inv by blast
next
  case (receive s r)
  then show ?case using server_receive_inv by blast
next
  case (handler i s written h)
  show ?case
    using handler.prems
  proof (rule server_invE)
    fix recvd
    assume inv: "s_running s \<longrightarrow> \<not> s_closed s" "length (s_chan s) \<le> chan_cap" "\<forall>h \<in> set (s_handlers s). \<not> h_closed h"
      "subseq (recvd @ s_chan s) (s_pushed s)" "\<forall>h \<in> set (s_handlers s) \<union> set (s_former s). handler_ok recvd h"
    have "handler_ok recvd h" "\<not> h_closed h"
      using handler_thread_ok [OF handler(2), of recvd] inv(3,5) handler(1) by auto
    then show ?thesis
      using inv set_update_subset_insert [of "s_handlers s" i h]
      by (intro exI [of _ "s\<lparr>s_handlers := (s_handlers s)[i := h]\<rparr>"] conjI server_invI [where recvd = recvd]) auto
  qed
next
  case (former i s written h)
  show ?case
    using former.prems
  proof (rule server_invE)
    fix recvd
    assume inv: "s_running s \<longrightarrow> \<not> s_closed s" "length (s_chan s) \<le> chan_cap" "\<forall>h \<in> set (s_handlers s). \<not> h_closed h"
      "subseq (recvd @ s_chan s) (s_pushed s)" "\<forall>h \<in> set (s_handlers s) \<union> set (s_former s). handler_ok recvd h"
    have "handler_ok recvd h" using handler_thread_ok [OF former(2), of recvd] inv(5) former(1) by auto
    then show ?thesis
      using inv set_update_subset_insert [of "s_former s" i h]
      by (intro exI [of _ "s\<lparr>s_former := (s_former s)[i := h]\<rparr>"] conjI server_invI [where recvd = recvd]) auto
  qed
qed

lemma launch_inv: "launchRunRecServer listen i = Ok s \<Longrightarrow> server_inv s"
  by (auto simp: launchRunRecServer_def server_inv_def split: option.splits)

section \<open>Properties\<close>

text \<open>
  C16. A server in any interleaving of its callers, its goroutine, its connections' goroutines and
  the network: nothing panics (no record is sent to a closed channel, none is closed twice); no
  channel holds more than ten records; and every connection has been sent a selection of the
  pushed records, in their order and none of them twice.
\<close>

theorem server_safe:
  assumes "launchRunRecServer listen i = Ok s0" "server_reaches s0 r"
  shows "\<exists>s. r = Ok s \<and> length (s_chan s) \<le> 10 \<and>
    (\<forall>h \<in> set (s_handlers s @ s_former s). length (h_chan h) \<le> 10 \<and> subseq (h_sent h) (s_pushed s))"
proof -
  have "\<exists>s. r = Ok s \<and> server_inv s"
    using assms(2)
  proof (induction rule: server_reaches.induct)
    case start
    then show ?case using launch_inv [OF assms(1)] by blast
  next
    case (step s r)
    then show ?case using server_step_inv by blast
  qed
  then obtain s where s: "r = Ok s" "server_inv s" by blast
  from s(2) show ?thesis
  proof (rule server_invE)
    fix recvd
    assume inv: "length (s_chan s) \<le> chan_cap" "subseq (recvd @ s_chan s) (s_pushed s)"
      "\<forall>h \<in> set (s_handlers s) \<union> set (s_former s). handler_ok recvd h"
    have "length (h_chan h) \<le> 10 \<and> subseq (h_sent h) (s_pushed s)" if "h \<in> set (s_handlers s @ s_former s)" for h
    proof
      have h: "handler_ok recvd h" using inv(3) that by simp
      then show "length (h_chan h) \<le> 10" by (simp add: handler_ok_def chan_cap_def)
      have "subseq (h_sent h) recvd" using h unfolding handler_ok_def by (blast intro: subseq_prefix)
      moreover have "subseq recvd (s_pushed s)" using inv(2) by (rule subseq_prefix)
      ultimately show "subseq (h_sent h) (s_pushed s)" by (rule subseq_order.order_trans)
    qed
    then show ?thesis using inv(1) s(1) by (simp add: chan_cap_def)
  qed
qed

theorem server_safe_witness:
  "\<exists>s0 s. launchRunRecServer (\<lambda>_. None) (''tcp'', '':80'') = Ok s0 \<and> server_reaches s0 (Ok s) \<and>
     s_pushed s = [''rec''] \<and> length (s_chan s) \<le> 10 \<and>
     (\<forall>h \<in> set (s_handlers s @ s_former s). length (h_chan h) \<le> 10 \<and> subseq (h_sent h) (s_pushed s))"
proof -
  obtain s0 where s0: "launchRunRecServer (\<lambda>_. None) (''tcp'', '':80'') = Ok s0" "s_running s0" "\<not> s_closed s0"
      "s_chan s0 = []" "s_pushed s0 = []"
    by (simp add: launchRunRecServer_def)
  let ?s = "s0\<lparr>s_pushed := [''rec''], s_chan := [''rec'']\<rparr>"
  have "runRecServer_Push ''rec'' s0 = Ok ?s"
    using s0(2-5) by (simp add: runRecServer_Push_def chan_cap_def)
  then have r: "server_reaches s0 (Ok ?s)"
    using server_reaches.step [OF server_reaches.start server_step.push, of s0 "''rec''"] by simp
  from server_safe [OF s0(1) r] show ?thesis
    using s0(1) r by (intro exI [of _ s0] exI [of _ ?s]) auto
qed

section \<open>The registry of servers\<close>

lemma make_servers_spec:
  assumes "distinct ids" "\<forall>i \<in> set ids. map_of servers i = None" "distinct (map fst servers)"
  shows "distinct (map fst (make_servers listen ids servers)) \<and>
    (\<forall>i. map_of (make_servers listen ids servers) i =
       (if i \<in> set ids then (case launchRunRecServer listen i of Ok s \<Rightarrow> Some s | _ \<Rightarrow> None) else map_of servers i))"
  using assms
proof (induction listen ids servers rule: make_servers.induct)
  case (1 listen servers)
  then show ?case by simp
next
  case (2 listen i ids servers)
  let ?servers = "case launchRunRecServer listen i of Ok server \<Rightarrow> AList.update i server servers | _ \<Rightarrow> servers"
  have "distinct (map fst ?servers)" using "2.prems"(3) by (simp add: distinct_update split: outcome.splits)
  moreover have at: "map_of ?servers j = (if j = i then (case launchRunRecServer listen i of Ok s \<Rightarrow> Some s | _ \<Rightarrow> None)
      else map_of servers j)" for j
    using "2.prems"(2) by (simp add: update_conv split: outcome.splits)
  ultimately show ?case using "2.IH" "2.prems" by auto
qed

lemma Stop_Ok:
  "(s_running s \<longrightarrow> \<not> s_closed s) \<Longrightarrow> \<exists>s1 os1. runRecServer_Stop s os = (Ok s1, os1) \<and> \<not> s_running s1"
  by (auto simp: runRecServer_Stop_def Let_def split: prod.splits outcome.splits)

lemma delete_servers_spec:
  assumes "distinct ids" "distinct (map fst servers)"
    "\<forall>i \<in> set ids. \<exists>s. map_of servers i = Some s \<and> (s_running s \<longrightarrow> \<not> s_closed s)"
    "\<forall>s \<in> set stopped. \<not> s_running s"
  shows "\<exists>servers' stopped' os'. delete_servers ids servers stopped os = (Ok (servers', stopped'), os') \<and>
    distinct (map fst servers') \<and> (\<forall>s \<in> set stopped'. \<not> s_running s) \<and>
    length stopped' = length stopped + length ids \<and>
    (\<forall>i. map_of servers' i = (if i \<in> set ids then None else map_of servers i))"
  using assms
proof (induction ids servers stopped os rule: delete_servers.induct)
  case (1 servers stopped os)
  then show ?case by simp
next
  case (2 i ids servers stopped os)
  obtain s where s: "map_of servers i = Some s" "s_running s \<longrightarrow> \<not> s_closed s" using "2.prems"(3) by auto
  obtain s1 os1 where s1: "runRecServer_Stop s os = (Ok s1, os1)" "\<not> s_running s1"
    using Stop_Ok [OF s(2)] by blast
  have other: "map_of (AList.delete i servers) j = (if j = i then None else map_of servers j)" for j
    by (simp add: delete_conv)
  have "\<exists>servers' stopped' os'. delete_servers ids (AList.delete i servers) (stopped @ [s1]) os1 = (Ok (servers', stopped'), os') \<and>
    distinct (map fst servers') \<and> (\<forall>s \<in> set stopped'. \<not> s_running s) \<and>
    length stopped' = length (stopped @ [s1]) + length ids \<and>
    (\<forall>j. map_of servers' j = (if j \<in> set ids then None else map_of (AList.delete i servers) j))"
    using "2.prems" s1 by (intro "2.IH" [OF s(1)]) (auto simp: distinct_delete other)
  then show ?case using s(1) s1(1) other by (auto simp: bind_io_def)
qed

lemma SetServers_registry:
  assumes "length protos = length addresses" "distinct (map fst servers)"
    "\<forall>(i, s) \<in> set servers. server_inv s"
  shows "\<exists>servers' stopped os'. SetServers listen protos addresses servers os = (Ok (servers', stopped), os') \<and>
    distinct (map fst servers') \<and> (\<forall>s \<in> set stopped. \<not> s_running s) \<and>
    length stopped = card (fst ` set servers - set (zip protos addresses)) \<and>
    (\<forall>i. map_of servers' i =
       (if i \<notin> set (zip protos addresses) then None
        else if map_of servers i \<noteq> None then map_of servers i
        else (case launchRunRecServer listen i of Ok s \<Rightarrow> Some s | _ \<Rightarrow> None)))"
proof -
  let ?ids = "remdups (zip protos addresses)"
  let ?make = "filter (\<lambda>i. map_of servers i = None) ?ids"
  let ?del = "filter (\<lambda>i. i \<notin> set ?ids) (map fst servers)"
  let ?made = "make_servers listen ?make servers"
  have made: "distinct (map fst ?made)" "\<And>i. map_of ?made i =
      (if i \<in> set ?make then (case launchRunRecServer listen i of Ok s \<Rightarrow> Some s | _ \<Rightarrow> None) else map_of servers i)"
  proof -
    have "distinct ?make" "\<forall>i \<in> set ?make. map_of servers i = None" by simp_all
    note m = make_servers_spec [OF this assms(2), of listen]
    show "distinct (map fst ?made)" by (rule m [THEN conjunct1])
    show "map_of ?made i =
        (if i \<in> set ?make then (case launchRunRecServer listen i of Ok s \<Rightarrow> Some s | _ \<Rightarrow> None) else map_of servers i)" for i
      by (rule m [THEN conjunct2, rule_format])
  qed
  have old: "\<exists>s. map_of ?made i = Some s \<and> (s_running s \<longrightarrow> \<not> s_closed s)" if i: "i \<in> set ?del" for i
  proof -
    obtain s where "(i, s) \<in> set servers" using i by auto
    then have "map_of servers i = Some s" "server_inv s" using assms(2,3) by auto
    then show ?thesis using made(2) [of i] i by (auto simp: server_inv_def)
  qed
  have "\<exists>servers' stopped os'. delete_servers ?del ?made [] os = (Ok (servers', stopped), os') \<and>
    distinct (map fst servers') \<and> (\<forall>s \<in> set stopped. \<not> s_running s) \<and> length stopped = length ([]::runRecServer list) + length ?del \<and>
    (\<forall>i. map_of servers' i = (if i \<in> set ?del then None else map_of ?made i))"
    using made(1) old assms(2) by (intro delete_servers_spec) auto
  then obtain servers' stopped os' where d: "delete_servers ?del ?made [] os = (Ok (servers', stopped), os')"
    "distinct (map fst servers')" "\<forall>s \<in> set stopped. \<not> s_running s" "length stopped = length ?del"
    "\<And>i. map_of servers' i = (if i \<in> set ?del then None else map_of ?made i)" by auto
  have "length ?del = card (set ?del)" using assms(2) by (intro distinct_card [symmetric] distinct_filter)
  also have "set ?del = fst ` set servers - set (zip protos addresses)" by auto
  finally have len: "length stopped = card (fst ` set servers - set (zip protos addresses))" using d(4) by simp
  have "map_of servers' i =
       (if i \<notin> set (zip protos addresses) then None
        else if map_of servers i \<noteq> None then map_of servers i
        else (case launchRunRecServer listen i of Ok s \<Rightarrow> Some s | _ \<Rightarrow> None))" for i
    using d(5) [of i] made(2) [of i] by (auto simp: map_of_eq_None_iff)
  then show ?thesis using d(1-3) len assms(1) by (auto simp: SetServers_def Let_def)
qed

text \<open>
  \<open>SetServers\<close>, for a registry whose servers satisfy their invariant: afterwards exactly the
  requested servers are registered, except those that are new and whose address cannot be
  listened on; a server that was there before is the same one, not restarted; and every server
  that is no longer requested has been stopped.
\<close>

theorem SetServers_spec:
  assumes "length protos = length addresses" "distinct (map fst servers)"
    "\<forall>(i, s) \<in> set servers. server_inv s"
  shows "\<exists>servers' stopped os'. SetServers listen protos addresses servers os = (Ok (servers', stopped), os') \<and>
    distinct (map fst servers') \<and> (\<forall>s \<in> set stopped. \<not> s_running s) \<and>
    length stopped = card (fst ` set servers - set (zip protos addresses)) \<and>
    (\<forall>i. map_of servers' i =
       (if i \<notin> set (zip protos addresses) then None
        else if map_of servers i \<noteq> None then map_of servers i
        else (case launchRunRecServer listen i of Ok s \<Rightarrow> Some s | _ \<Rightarrow> None)))"
  using assms by (rule SetServers_registry)

theorem SetServers_spec_witness:
  "\<exists>servers' stopped os'. SetServers (\<lambda>_. None) [''tcp''] ['':80''] [] os = (Ok (servers', stopped), os') \<and>
     map_of servers' (''tcp'', '':80'') \<noteq> None \<and> stopped = []"
proof -
  from SetServers_spec [of "[''tcp'']" "['':80'']" "[]" "\<lambda>_. None" os] obtain servers' stopped os' where
    "SetServers (\<lambda>_. None) [''tcp''] ['':80''] [] os = (Ok (servers', stopped), os')" "length stopped = 0"
    "map_of servers' (''tcp'', '':80'') =
      (case launchRunRecServer (\<lambda>_. None) (''tcp'', '':80'') of Ok s \<Rightarrow> Some s | _ \<Rightarrow> None)"
    by auto
  then show ?thesis by (simp add: launchRunRecServer_def)
qed

end
