(* ===== verification/Job_File.thy ===== *)
theory Job_File
  imports Job Time_Spec_Parser Mem_Run_Log File_Run_Log Run_Rec_Server
begin

text \<open>
  Job files (\<open>jobfile/job_file.go\<close>): the raw structures, the section finder of the old formats,
  the choice of the format, the conversion of old files to the current format, and the making of
  preferences and jobs.

  The YAML library is an argument, the record \<open>yaml_lib\<close>: each field is the result of decoding a
  text into one of the program's types. A Go map is the list of its pairs in the order in which
  the range statement visits them. A file is given by its contents. The call does not return
  (\<^term>\<open>None\<close>) when a time specification's evaluation does not.
\<close>

section \<open>Raw structures\<close>

record RunLogRaw =
  rl_Type :: string
  rl_MaxLen :: "int option"
  rl_Path :: "string option"
  rl_MaxFileLen :: "string option"
  rl_MaxHistories :: "int option"

record UserPrefsV3Raw =
  p3_LogPath :: "string option"
  p3_RunLog :: "RunLogRaw option"

record UserPrefsV1V2Raw =
  p1_LogPath :: "string option"
  p1_RunLog :: "RunLogRaw option"
  p1_NotifyProgram :: "string option"

record JobV3Raw =
  r_Cmd :: string
  r_Time :: string
  r_OnError :: "string option"
  r_NotifyOnSuccess :: "ResultSinkRaw list"
  r_NotifyOnError :: "ResultSinkRaw list"
  r_NotifyOnFailure :: "ResultSinkRaw list"

record JobV1V2Raw =
  r1_Name :: string
  r1_Cmd :: string
  r1_Time :: string
  r1_OnError :: "string option"
  r1_NotifyOnSuccess :: "bool option"
  r1_NotifyOnError :: "bool option"
  r1_NotifyOnFailure :: "bool option"

record JobFileV3Raw =
  j3_Version :: SemVer
  j3_Prefs :: UserPrefsV3Raw
  j3_Jobs :: "(string \<times> JobV3Raw) list"

record JobFileV1V2Raw =
  j1_Prefs :: UserPrefsV1V2Raw
  j1_Jobs :: "JobV1V2Raw list"

datatype RunLog = MemLog memOnlyRunLog | FileLog fileRunLog

record UserPrefs =
  RunLogPref :: RunLog
  LogPath :: string

record JobFile =
  jf_Prefs :: UserPrefs
  jf_Jobs :: "(string \<times> Job) list"
  jf_Raw :: JobFileV3Raw

record user =
  Uid :: string
  Gid :: string
  Username :: string
  HomeDir :: string

record yaml_lib =
  is_seq :: "string \<Rightarrow> bool"
  version_of :: "string \<Rightarrow> SemVer outcome"
  v3_of :: "string \<Rightarrow> JobFileV3Raw outcome"
  prefs_of :: "string \<Rightarrow> UserPrefsV1V2Raw outcome"
  jobs_of :: "string \<Rightarrow> JobV1V2Raw list outcome"
  sink_of :: "sinkKind \<Rightarrow> ResultSinkRaw \<Rightarrow> ResultSink outcome"

definition gDefaultMemRunLogMaxLen :: int where
  "gDefaultMemRunLogMaxLen = 100"

definition gYamlStarter :: string where
  "gYamlStarter = ''---''"

definition NewEmptyRawJobFile :: JobFileV3Raw where
  "NewEmptyRawJobFile = \<lparr>j3_Version = SemVer_zero,
     j3_Prefs = \<lparr>p3_LogPath = None,
       p3_RunLog = Some \<lparr>rl_Type = ''memory'', rl_MaxLen = Some gDefaultMemRunLogMaxLen, rl_Path = None,
         rl_MaxFileLen = None, rl_MaxHistories = None\<rparr>\<rparr>, j3_Jobs = []\<rparr>"

definition UserPrefs_String :: "UserPrefs \<Rightarrow> string" where
  "UserPrefs_String self =
     ''RunLog: '' @ (case RunLogPref self of MemLog log \<Rightarrow> memOnlyRunLog_String log
                     | FileLog log \<Rightarrow> fileRunLog_String log) @ [CHR 0x0A] @
     (if length (LogPath self) > 0 then ''Log path: '' @ LogPath self @ [CHR 0x0A] else [])"

section \<open>Sections of old job files\<close>

text \<open>
  \<open>bufio.ScanLines\<close>: lines end with a newline, before which a carriage return is dropped; the
  last line may lack it. The scanner stops, with an error that the program does not ask for, at a
  line of which 65536 bytes do not yet hold the newline.
\<close>

definition drop_cr :: "string \<Rightarrow> string" where
  "drop_cr line = (if line \<noteq> [] \<and> last line = CHR 0x0D then butlast line else line)"

function ScanLines :: "string \<Rightarrow> string list" where
  "ScanLines data =
     (if data = [] then []
      else
        let line = takeWhile (\<lambda>c. c \<noteq> CHR 0x0A) data; rest = dropWhile (\<lambda>c. c \<noteq> CHR 0x0A) data in
        if length line \<ge> 65536 then []
        else drop_cr line # ScanLines (drop 1 rest))"
  by pat_completeness auto
termination
proof (relation "measure length", goal_cases)
  case 1
  show ?case by simp
next
  case (2 data line rest)
  then show ?case using length_dropWhile_le [of "\<lambda>c. c \<noteq> CHR 0x0A" data] by (cases data) auto
qed

declare ScanLines.simps [simp del]

definition is_word_char :: "char \<Rightarrow> bool" where
  "is_word_char c \<longleftrightarrow> is_digit c \<or> c = CHR ''_'' \<or>
     (let n = (of_char c :: nat) in 65 \<le> n \<and> n \<le> 90 \<or> 97 \<le> n \<and> n \<le> 122)"

definition is_regexp_space :: "char \<Rightarrow> bool" where
  "is_regexp_space c \<longleftrightarrow> c \<in> {CHR '' '', CHR 0x09, CHR 0x0A, CHR 0x0C, CHR 0x0D}"

text \<open>The name in a line that the section pattern matches: brackets around word characters, then white space.\<close>

definition matchSection :: "string \<Rightarrow> string option" where
  "matchSection line =
     (if line \<noteq> [] \<and> hd line = CHR ''['' then
        let name = takeWhile is_word_char (tl line); rest = dropWhile is_word_char (tl line) in
        if rest \<noteq> [] \<and> hd rest = CHR '']'' \<and> list_all is_regexp_space (tl rest) then Some name else None
      else None)"

type_synonym sections = "(string \<times> string list) list"

definition add_line :: "string \<Rightarrow> string \<Rightarrow> sections \<Rightarrow> sections" where
  "add_line name line sects = map (\<lambda>(n, ls). if n = name then (n, ls @ [line]) else (n, ls)) sects"

definition skipped_line :: "string \<Rightarrow> bool" where
  "skipped_line line \<longleftrightarrow> TrimSpace line = [] \<or> hd (TrimSpace line) = CHR ''#''"

fun section_lines :: "nat \<Rightarrow> string \<Rightarrow> sections \<Rightarrow> string list \<Rightarrow> sections outcome" where
  "section_lines lineNbr sectn sects [] = Ok sects"
| "section_lines lineNbr sectn sects (line # lines) =
     (case matchSection line of
        Some sectName \<Rightarrow>
          if map_of sects sectName \<noteq> None
          then Fail (Error (''Line '' @ nat_str (lineNbr + 1) @ '': another section called '' @ [CHR 0x22] @
                 sectName @ [CHR 0x22] @ ''.'') None)
          else section_lines (lineNbr + 1) sectName (sects @ [(sectName, [])]) lines
      | None \<Rightarrow> section_lines (lineNbr + 1) sectn (add_line sectn line sects) lines)"

fun first_line :: "nat \<Rightarrow> string list \<Rightarrow> sections outcome" where
  "first_line lineNbr [] = Ok []"
| "first_line lineNbr (line # lines) =
     (if skipped_line line then first_line (lineNbr + 1) lines
      else case matchSection line of
          Some sectName \<Rightarrow> section_lines (lineNbr + 1) sectName [(sectName, [])] lines
        | None \<Rightarrow> Ok [(''jobs'', line # lines)])"

definition findSections :: "string \<Rightarrow> (string \<times> string) list outcome" where
  "findSections contents =
     bind_outcome (first_line 0 (ScanLines contents)) (\<lambda>sects.
       Ok (map (\<lambda>(name, lines). (name, Join lines [CHR 0x0A])) sects))"

section \<open>Loading\<close>

definition with_starter :: "string \<Rightarrow> string" where
  "with_starter s = (if HasPrefix s (gYamlStarter @ [CHR 0x0A]) then s else gYamlStarter @ [CHR 0x0A] @ s)"

definition jobfileVersion :: "yaml_lib \<Rightarrow> string \<Rightarrow> SemVer outcome" where
  "jobfileVersion yaml data =
     (if is_seq yaml data then Ok (SemVer 1 0 0)
      else if HasPrefix data ''[jobs]'' \<or> Contains data ([CHR 0x0A] @ ''[jobs]'' @ [CHR 0x0A]) \<or>
              HasPrefix data ''[prefs]'' \<or> Contains data ([CHR 0x0A] @ ''[prefs]'' @ [CHR 0x0A])
      then Ok (SemVer 1 2 0)
      else
        bind_outcome (version_of yaml data) (\<lambda>version.
          if IsZero version then Fail (Error ''Missing jobfile version'' None) else Ok version))"

definition parseV3Jobfile :: "yaml_lib \<Rightarrow> string \<Rightarrow> JobFileV3Raw outcome" where
  "parseV3Jobfile yaml data = v3_of yaml (with_starter data)"

text \<open>The conversion of one old job; \<open>sinks\<close> is the array of the one result sink.\<close>

definition v1v2JobToV3 :: "ResultSinkRaw list \<Rightarrow> JobV1V2Raw \<Rightarrow> JobV3Raw" where
  "v1v2JobToV3 sinks raw =
     (let notifyOnError = (case r1_NotifyOnError raw of Some b \<Rightarrow> b | None \<Rightarrow> False);
          notifyOnFailure = (case r1_NotifyOnFailure raw of Some b \<Rightarrow> b | None \<Rightarrow> True);
          notifyOnSuccess = (case r1_NotifyOnSuccess raw of Some b \<Rightarrow> b | None \<Rightarrow> False)
      in \<lparr>r_Cmd = r1_Cmd raw, r_Time = r1_Time raw, r_OnError = r1_OnError raw,
          r_NotifyOnSuccess = (if notifyOnSuccess then sinks else []),
          r_NotifyOnError = (if notifyOnError then sinks else []),
          r_NotifyOnFailure = (if notifyOnFailure then sinks else [])\<rparr>)"

fun v1v2Jobs :: "ResultSinkRaw list \<Rightarrow> JobV1V2Raw list \<Rightarrow> (string \<times> JobV3Raw) list \<Rightarrow> (string \<times> JobV3Raw) list outcome" where
  "v1v2Jobs sinks [] jobs = Ok jobs"
| "v1v2Jobs sinks (raw # raws) jobs =
     (if map_of jobs (r1_Name raw) \<noteq> None
      then Fail (Error (''Multiple jobs named '' @ [CHR 0x22] @ r1_Name raw @ [CHR 0x22]) None)
      else v1v2Jobs sinks raws (jobs @ [(r1_Name raw, v1v2JobToV3 sinks raw)]))"

definition v1v2ToV3 :: "JobFileV1V2Raw \<Rightarrow> JobFileV3Raw outcome" where
  "v1v2ToV3 raw =
     (let resultSink = (case p1_NotifyProgram (j1_Prefs raw) of
            Some program \<Rightarrow> [(''type'', YString ''program''), (''path'', YString program),
                             (''runRecFormatVersion'', YSemVer (SemVer 1 0 0))]
          | None \<Rightarrow> [(''type'', YString ''system-email'')])
      in bind_outcome (v1v2Jobs [resultSink] (j1_Jobs raw) []) (\<lambda>jobs.
           Ok \<lparr>j3_Version = SemVer_zero,
               j3_Prefs = \<lparr>p3_LogPath = p1_LogPath (j1_Prefs raw), p3_RunLog = p1_RunLog (j1_Prefs raw)\<rparr>,
               j3_Jobs = jobs\<rparr>))"

definition empty_prefs :: UserPrefsV1V2Raw where
  "empty_prefs = \<lparr>p1_LogPath = None, p1_RunLog = None, p1_NotifyProgram = None\<rparr>"

definition wrap_outcome :: "string \<Rightarrow> 'a outcome \<Rightarrow> 'a outcome" where
  "wrap_outcome msg r = (case r of Fail e \<Rightarrow> Fail (Error msg (Some e)) | _ \<Rightarrow> r)"

definition parseV1V2Jobfile :: "yaml_lib \<Rightarrow> string \<Rightarrow> JobFileV3Raw outcome" where
  "parseV1V2Jobfile yaml contents =
     bind_outcome (findSections contents) (\<lambda>sections.
       case find (\<lambda>(name, text). name \<noteq> ''prefs'' \<and> name \<noteq> ''jobs'') sections of
         Some (name, text) \<Rightarrow> Fail (Error (''Invalid section: '' @ name) None)
       | None \<Rightarrow>
           bind_outcome
             (case map_of sections ''prefs'' of
                Some text \<Rightarrow>
                  if length text > 0
                  then wrap_outcome (''Failed to parse '' @ [CHR 0x22] @ ''prefs'' @ [CHR 0x22] @ '' section'')
                         (prefs_of yaml (with_starter text))
                  else Ok empty_prefs
              | None \<Rightarrow> Ok empty_prefs) (\<lambda>prefs.
           bind_outcome
             (case map_of sections ''jobs'' of
                Some text \<Rightarrow>
                  wrap_outcome (''Failed to parse '' @ [CHR 0x22] @ ''jobs'' @ [CHR 0x22] @ '' section'')
                    (jobs_of yaml (with_starter text))
              | None \<Rightarrow> Ok []) (\<lambda>jobs.
           v1v2ToV3 \<lparr>j1_Prefs = prefs, j1_Jobs = jobs\<rparr>)))"

definition LoadJobfile :: "yaml_lib \<Rightarrow> string \<Rightarrow> JobFileV3Raw outcome" where
  "LoadJobfile yaml contents =
     bind_outcome (jobfileVersion yaml contents) (\<lambda>version.
       if Compare version (SemVer 1 4 0) \<ge> 0 then parseV3Jobfile yaml contents
       else parseV1V2Jobfile yaml contents)"

section \<open>Permission to load\<close>

text \<open>
  What \<open>Stat\<close> gives of a file: its owner and its mode. \<open>ShouldLoadJobfile\<close> asks for it twice.
\<close>

record file_stat =
  stat_Uid :: nat
  stat_Mode :: "32 word"

definition Perm :: "32 word \<Rightarrow> 32 word" where
  "Perm mode = mode AND 0x1FF"

definition FileMode_String :: "32 word \<Rightarrow> string" where
  "FileMode_String perm =
     ''-'' @ map (\<lambda>i. if bit perm (8 - i) then ''rwxrwxrwx'' ! i else CHR ''-'') [0..<9]"

definition gBadJobfilePerms :: "32 word" where
  "gBadJobfilePerms = 0x12"

definition UserOwnsFileF :: "user \<Rightarrow> file_stat outcome \<Rightarrow> bool outcome" where
  "UserOwnsFileF usr stat = bind_outcome stat (\<lambda>st. Ok (nat_str (stat_Uid st) = Uid usr))"

definition ShouldLoadJobfile :: "user \<Rightarrow> file_stat outcome \<Rightarrow> file_stat outcome \<Rightarrow> bool outcome" where
  "ShouldLoadJobfile usr stat1 stat2 =
     bind_outcome (UserOwnsFileF usr stat1) (\<lambda>ownsFile.
       if \<not> ownsFile
       then Fail (Error (''User '' @ Username usr @ '' doesn'' @ [CHR 0x27] @ ''t own jobfile'') None)
       else bind_outcome stat2 (\<lambda>stat.
         if Perm (stat_Mode stat) AND gBadJobfilePerms > 0
         then Fail (Error (''Jobfile has bad permissions: '' @ FileMode_String (Perm (stat_Mode stat)) @
                ''. Problematic perms: '' @ FileMode_String (Perm (stat_Mode stat) AND gBadJobfilePerms)) None)
         else Ok True))"

section \<open>Preferences\<close>

definition wrap_int64 :: "int \<Rightarrow> int" where
  "wrap_int64 v = (v + 2 ^ 63) mod 2 ^ 64 - 2 ^ 63"

definition bad_max_file_len :: "string \<Rightarrow> error option \<Rightarrow> error" where
  "bad_max_file_len s cause =
     Error (''Invalid max file len: '' @ [CHR 0x27] @ s @ [CHR 0x27]) cause"

definition maxFileLenOf :: "string option \<Rightarrow> int outcome" where
  "maxFileLenOf mfl =
     (case mfl of
        None \<Rightarrow> Ok (50 * 2 ^ 20)
      | Some s \<Rightarrow>
          if length s = 0 then Fail (bad_max_file_len s None)
          else if last s \<noteq> CHR ''m'' \<and> last s \<noteq> CHR ''M'' then Fail (bad_max_file_len s None)
          else case ParseInt (butlast s) of
              Ok tmp \<Rightarrow> Ok (wrap_int64 (tmp * 2 ^ 20))
            | Fail e \<Rightarrow> Fail (bad_max_file_len s (Some e))
            | Panic p \<Rightarrow> Panic p)"

definition lift_io :: "'a outcome \<Rightarrow> 's \<Rightarrow> 'a outcome \<times> 's" where
  "lift_io r s = (r, s)"

definition map_io :: "('a \<Rightarrow> 'b) \<Rightarrow> ('s \<Rightarrow> 'a outcome \<times> 's) \<Rightarrow> 's \<Rightarrow> 'b outcome \<times> 's" where
  "map_io f call = bind_io call (\<lambda>x. return_io (f x))"

definition ToRunLog :: "RunLogRaw \<Rightarrow> os \<Rightarrow> RunLog outcome \<times> os" where
  "ToRunLog self =
     (if rl_Type self = ''memory'' then
        map_io MemLog (lift_io (NewMemOnlyRunLog
          (case rl_MaxLen self of Some maxLen \<Rightarrow> maxLen | None \<Rightarrow> gDefaultMemRunLogMaxLen)))
      else if rl_Type self = ''file'' then
        (case rl_Path self of
           None \<Rightarrow> fail_io (Error ''Missing path for run log'' None)
         | Some fp \<Rightarrow>
             bind_io (lift_io (maxFileLenOf (rl_MaxFileLen self))) (\<lambda>maxLen.
               map_io FileLog (NewFileRunLog fp maxLen
                 (case rl_MaxHistories self of Some h \<Rightarrow> h | None \<Rightarrow> 5))))
      else fail_io (Error (''Invalid run log type: '' @ rl_Type self) None))"

text \<open>
  Package \<open>path/filepath\<close> on Unix. \<open>Clean\<close> goes over the elements of a path; \<open>out\<close> holds the
  elements kept so far, the last one first.
\<close>

definition IsAbs :: "string \<Rightarrow> bool" where
  "IsAbs p \<longleftrightarrow> HasPrefix p ''/''"

fun clean_elems :: "bool \<Rightarrow> string list \<Rightarrow> string list \<Rightarrow> string list" where
  "clean_elems rooted out [] = rev out"
| "clean_elems rooted out (e # es) =
     (if e = [] \<or> e = ''.'' then clean_elems rooted out es
      else if e = ''..'' then
        (if out \<noteq> [] \<and> hd out \<noteq> ''..'' then clean_elems rooted (tl out) es
         else if rooted then clean_elems rooted out es
         else clean_elems rooted (e # out) es)
      else clean_elems rooted (e # out) es)"

definition Clean :: "string \<Rightarrow> string" where
  "Clean p =
     (let es = Join (clean_elems (IsAbs p) [] (Split p ''/'')) ''/''
      in if IsAbs p then ''/'' @ es else if es = [] then ''.'' else es)"

definition filepath_Join :: "string list \<Rightarrow> string" where
  "filepath_Join elems =
     (let es = dropWhile (\<lambda>e. e = []) elems in if es = [] then [] else Clean (Join es ''/''))"

definition ToPrefs :: "user \<Rightarrow> UserPrefsV3Raw \<Rightarrow> os \<Rightarrow> UserPrefs outcome \<times> os" where
  "ToPrefs usr self =
     bind_io (case p3_LogPath self of
          None \<Rightarrow> return_io []
        | Some logPath \<Rightarrow>
            if IsAbs logPath then return_io logPath
            else if length (HomeDir usr) = 0
            then fail_io (Error (''User has no home directory, so cannot interpret relative log file path '' @ logPath) None)
            else return_io (filepath_Join [HomeDir usr, logPath])) (\<lambda>logPath.
     bind_io (case p3_RunLog self of
          Some raw \<Rightarrow> ToRunLog raw
        | None \<Rightarrow> map_io MemLog (lift_io (NewMemOnlyRunLog gDefaultMemRunLogMaxLen))) (\<lambda>runLog.
     return_io \<lparr>RunLogPref = runLog, LogPath = logPath\<rparr>))"

section \<open>Jobs\<close>

definition Job_String :: "Job \<Rightarrow> string" where
  "Job_String j = Name j"

definition NewRawJob :: JobV3Raw where
  "NewRawJob = \<lparr>r_Cmd = [], r_Time = [], r_OnError = Some ''continue;'', r_NotifyOnSuccess = [],
     r_NotifyOnError = [], r_NotifyOnFailure = []\<rparr>"

text \<open>The zero value of a job, with the handler and name that \<open>Activate\<close> gives it.\<close>

definition new_job :: "string \<Rightarrow> Job" where
  "new_job name = \<lparr>Name = name, Cmd = [], JobTimeSpec = \<lparr>SecSpec = WildcardTimeSpec,
     MinSpec = WildcardTimeSpec, HourSpec = WildcardTimeSpec, MdaySpec = WildcardTimeSpec,
     MonSpec = WildcardTimeSpec, WdaySpec = WildcardTimeSpec\<rparr>, JobUser = [],
     JobErrorHandler = ContinueErrorHandler, NotifyOnError = [], NotifyOnFailure = [],
     NotifyOnSuccess = [], backoffLevel = 0, skipsLeft = 0, NextRunTime = None, Status = JobGood,
     LastRunTime = zero_time, Paused = False\<rparr>"

text \<open>One of the three loops over raw sinks: the made sinks are appended to those already there.\<close>

definition sinksOf :: "yaml_lib \<Rightarrow> ResultSinkRaw list \<Rightarrow> ResultSink list \<Rightarrow> ResultSink list outcome" where
  "sinksOf yaml raws sinks =
     bind_outcome (map_outcome (MakeResultSinkFromConfig (sink_of yaml)) raws) (\<lambda>made.
       Ok (normalizeResultSinkArray (sinks @ made)))"

definition ToJob :: "yaml_lib \<Rightarrow> (nat \<Rightarrow> nat \<Rightarrow> nat) \<Rightarrow> user \<Rightarrow> JobV3Raw \<Rightarrow> Job \<Rightarrow> Job outcome option" where
  "ToJob yaml intn usr self dest =
     bind_returning (Some (case r_OnError self of
          None \<Rightarrow> Ok (JobErrorHandler dest) | Some name \<Rightarrow> GetErrorHandler name)) (\<lambda>handler.
     bind_returning (Some (sinksOf yaml (r_NotifyOnError self) (NotifyOnError dest))) (\<lambda>onError.
     bind_returning (Some (sinksOf yaml (r_NotifyOnFailure self) (NotifyOnFailure dest))) (\<lambda>onFailure.
     bind_returning (Some (sinksOf yaml (r_NotifyOnSuccess self) (NotifyOnSuccess dest))) (\<lambda>onSuccess.
     bind_returning (ParseFullTimeSpec (r_Time self)) (\<lambda>tmp.
     bind_returning (Some (FullTimeSpec_Derandomize intn tmp)) (\<lambda>spec.
       Some (Ok (dest\<lparr>Cmd := r_Cmd self, JobUser := Username usr, JobErrorHandler := handler,
         NotifyOnError := onError, NotifyOnFailure := onFailure, NotifyOnSuccess := onSuccess,
         JobTimeSpec := spec\<rparr>))))))))"

text \<open>
  The loop over the jobs. \<open>rand i\<close> is the random source as the \<open>i\<close>-th job sees it.
\<close>

fun activate_jobs ::
    "yaml_lib \<Rightarrow> (nat \<Rightarrow> nat \<Rightarrow> nat \<Rightarrow> nat) \<Rightarrow> user \<Rightarrow> nat \<Rightarrow> (string \<times> JobV3Raw) list \<Rightarrow>
     (string \<times> Job) list \<Rightarrow> (string \<times> Job) list outcome option" where
  "activate_jobs yaml rand usr i [] jobs = Some (Ok jobs)"
| "activate_jobs yaml rand usr i ((jobName, jobRaw) # raws) jobs =
     bind_returning (ToJob yaml (rand i) usr jobRaw (new_job jobName)) (\<lambda>job.
       activate_jobs yaml rand usr (i + 1) raws (AList.update jobName job jobs))"

definition job_sinks :: "Job \<Rightarrow> ResultSink list" where
  "job_sinks job = NotifyOnError job @ NotifyOnFailure job @ NotifyOnSuccess job"

definition socket_sinks :: "ResultSink list \<Rightarrow> (string \<times> string) list" where
  "socket_sinks sinks =
     List.map_filter (\<lambda>sink. case sink of SocketResultSink proto address data \<Rightarrow> Some (proto, address) | _ \<Rightarrow> None) sinks"

text \<open>
  \<open>Activate\<close> works on the file system (a run log on disk) and on the global registry of run
  record servers; \<open>listen\<close> is the network's answer to each address.
\<close>

definition Activate ::
    "yaml_lib \<Rightarrow> (nat \<Rightarrow> nat \<Rightarrow> nat \<Rightarrow> nat) \<Rightarrow> (serverId \<Rightarrow> error option) \<Rightarrow> user \<Rightarrow> JobFileV3Raw \<Rightarrow>
     os \<Rightarrow> runRecServerRegistry \<Rightarrow> (JobFile outcome \<times> os \<times> runRecServerRegistry) option" where
  "Activate yaml rand listen usr self os registry =
     (case ToPrefs usr (j3_Prefs self) os of
        (Fail e, os1) \<Rightarrow> Some (Fail e, os1, registry)
      | (Panic p, os1) \<Rightarrow> Some (Panic p, os1, registry)
      | (Ok prefs, os1) \<Rightarrow>
          (case activate_jobs yaml rand usr 0 (j3_Jobs self) [] of
             None \<Rightarrow> None
           | Some (Fail e) \<Rightarrow> Some (Fail e, os1, registry)
           | Some (Panic p) \<Rightarrow> Some (Panic p, os1, registry)
           | Some (Ok jobs) \<Rightarrow>
               let socks = socket_sinks (concat (map (\<lambda>(name, job). job_sinks job) jobs)) in
               (case SetServers listen (map fst socks) (map snd socks) registry os1 of
                  (Ok (registry1, stopped), os2) \<Rightarrow>
                    Some (Ok \<lparr>jf_Prefs = prefs, jf_Jobs = jobs, jf_Raw = self\<rparr>, os2, registry1)
                | (Fail e, os2) \<Rightarrow> Some (Fail e, os2, registry)
                | (Panic p, os2) \<Rightarrow> Some (Panic p, os2, registry))))"

end
