(* ===== verification/Exec.thy ===== *)
theory Exec
  imports Go_OS Job
begin

text \<open>
  Running a subprocess (\<open>common/exec.go\<close>, \<open>common/su_cmd_linux.go\<close>).

  What the operating system does with the process is the record \<open>process\<close>: the path at which the
  program is found, the names that \<open>ioutil.TempFile\<close> chooses for its output files, what it writes to them, how \<open>Wait\<close> ends, and
  the value of \<open>didCancel\<close> when the call reads it. Every system call may fail, as the list of
  faults of the file system says. A call changes the files and appends to the error log, so its state
  is a pair of both.
\<close>

section \<open>Definitions\<close>

datatype wait_error = ExitError string | WaitError error

fun wait_error_text :: "wait_error \<Rightarrow> string" where
  "wait_error_text (ExitError msg) = msg"
| "wait_error_text (WaitError e) = Error_Error e"

record process =
  cmdPath :: string
  tmpStdout :: string
  tmpStderr :: string
  outBytes :: string
  errBytes :: string
  waitErr :: "wait_error option"
  didCancel :: bool

record ExecResult =
  res_Stdout :: "string option"
  res_Stderr :: "string option"
  res_Fate :: SubprocFate

definition TempFile :: "string \<Rightarrow> os \<Rightarrow> string outcome \<times> os" where
  "TempFile name = os_call (\<lambda>os. (Ok name, os\<lparr>files := (files os)(name \<mapsto> [])\<rparr>))"

text \<open>A system call that leaves the files alone: making a pipe, starting a process, seeking.\<close>

definition plain_call :: "os \<Rightarrow> unit outcome \<times> os" where
  "plain_call = os_call (\<lambda>os. (Ok (), os))"

definition cleanUpTempfile :: "string \<Rightarrow> os \<Rightarrow> os" where
  "cleanUpTempfile name os = snd (os_Remove name os)"

text \<open>\<open>Close\<close> on a nil pointer dereferences it.\<close>

definition close_field :: "string option \<Rightarrow> os \<Rightarrow> os" where
  "close_field field os = (case field of None \<Rightarrow> os | Some name \<Rightarrow> cleanUpTempfile name os)"

definition ExecResult_Close :: "ExecResult option \<Rightarrow> os \<Rightarrow> ExecResult outcome \<times> os" where
  "ExecResult_Close self os =
     (case self of
        None \<Rightarrow> (Panic ''nil pointer dereference'', os)
      | Some res \<Rightarrow>
          (Ok (res\<lparr>res_Stdout := None, res_Stderr := None\<rparr>),
           close_field (res_Stderr res) (close_field (res_Stdout res) os)))"

text \<open>One \<open>Read\<close> from the start of the file into a buffer of \<open>max\<close> bytes.\<close>

definition result_read :: "nat \<Rightarrow> string option \<Rightarrow> os \<Rightarrow> string outcome \<times> os" where
  "result_read max_len field =
     (case field of
        None \<Rightarrow> panic_io ''nil pointer dereference''
      | Some name \<Rightarrow> os_call (\<lambda>os. case files os name of
            None \<Rightarrow> (Fail not_exist, os) | Some c \<Rightarrow> (Ok (take max_len c), os)))"

definition ReadStdout :: "nat \<Rightarrow> ExecResult \<Rightarrow> os \<Rightarrow> string outcome \<times> os" where
  "ReadStdout max_len self = result_read max_len (res_Stdout self)"

definition ReadStderr :: "nat \<Rightarrow> ExecResult \<Rightarrow> os \<Rightarrow> string outcome \<times> os" where
  "ReadStderr max_len self = result_read max_len (res_Stderr self)"

text \<open>On Linux; on other systems the shell is not passed on.\<close>

definition su_cmd :: "string \<Rightarrow> string \<Rightarrow> string \<Rightarrow> string list" where
  "su_cmd usr cmdStr shell = [''su'', ''-l'', ''-s'', shell, ''-c'', cmdStr, usr]"

definition Sudo :: "string \<Rightarrow> string \<Rightarrow> string list" where
  "Sudo username cmdStr = su_cmd username cmdStr ''/bin/sh''"

definition catch_io :: "('s \<Rightarrow> 'a outcome \<times> 's) \<Rightarrow> (error \<Rightarrow> 's \<Rightarrow> error \<times> 's) \<Rightarrow> 's \<Rightarrow> 'a outcome \<times> 's" where
  "catch_io call handler s =
     (case call s of (Fail e, s1) \<Rightarrow> (case handler e s1 of (e', s2) \<Rightarrow> (Fail e', s2)) | r \<Rightarrow> r)"

definition Errorf :: "string \<Rightarrow> error \<Rightarrow> error" where
  "Errorf msg e = Errno (msg @ '': '' @ Error_Error e)"

text \<open>The files, and the lines written to the error log.\<close>

type_synonym exec_state = "os \<times> string list"

definition on_files :: "(os \<Rightarrow> 'a outcome \<times> os) \<Rightarrow> exec_state \<Rightarrow> 'a outcome \<times> exec_state" where
  "on_files call s = (case call (fst s) of (r, os) \<Rightarrow> (r, os, snd s))"

text \<open>The process writes its output before \<open>Wait\<close> returns; an error of \<open>Wait\<close> is logged.\<close>

definition run_process :: "process \<Rightarrow> os \<Rightarrow> unit outcome \<times> os" where
  "run_process p os = (Ok (), os\<lparr>files := (files os)(tmpStdout p \<mapsto> outBytes p, tmpStderr p \<mapsto> errBytes p)\<rparr>)"

definition wait_process :: "process \<Rightarrow> exec_state \<Rightarrow> unit outcome \<times> exec_state" where
  "wait_process p s =
     (case waitErr p of
        None \<Rightarrow> (Ok (), s)
      | Some e \<Rightarrow>
          let s1 = (fst s, snd s @ [''ExecAndWait: '' @ cmdPath p @ '': '' @ wait_error_text e]) in
          (case e of WaitError e1 \<Rightarrow> (Fail (Errorf ''Failed to fork'' e1), s1) | ExitError msg \<Rightarrow> (Ok (), s1)))"

definition cleaned :: "string \<Rightarrow> exec_state \<Rightarrow> exec_state" where
  "cleaned name s = (cleanUpTempfile name (fst s), snd s)"

definition fate_of :: "bool \<Rightarrow> process \<Rightarrow> SubprocFate" where
  "fate_of withCtx p =
     (if waitErr p = None then SubprocFateSucceeded
      else if withCtx \<and> didCancel p then SubprocFateCancelled
      else SubprocFateFailed)"

text \<open>\<open>withCtx\<close> is whether a context is given: \<open>ExecAndWait\<close> gives none.\<close>

definition ExecAndWaitContext ::
    "(string list \<Rightarrow> string \<Rightarrow> process) \<Rightarrow> bool \<Rightarrow> string list \<Rightarrow> string \<Rightarrow> exec_state \<Rightarrow> ExecResult outcome \<times> exec_state" where
  "ExecAndWaitContext exec withCtx args input =
     (if args = [] then panic_io ''index out of range''
      else let p = exec args input in
        bind_io (on_files (TempFile (tmpStdout p))) (\<lambda>stdout.
        bind_io (catch_io (on_files (TempFile (tmpStderr p))) (\<lambda>e s. (e, cleaned stdout s))) (\<lambda>stderr.
        bind_io (wrap_io (Errorf ''Failed to get pipe to stdin'') (on_files plain_call)) (\<lambda>_.
        bind_io (wrap_io (Errorf ''Failed to fork'') (on_files plain_call)) (\<lambda>_.
        bind_io (on_files (run_process p)) (\<lambda>_.
        bind_io (wait_process p) (\<lambda>_.
        bind_io (catch_io (on_files plain_call) (\<lambda>e s.
             (Errorf ''Failed to seek stdout'' e, cleaned stderr (cleaned stdout s)))) (\<lambda>_.
        bind_io (catch_io (on_files plain_call) (\<lambda>e s.
             (Errorf ''Failed to seek stderr'' e, cleaned stderr (cleaned stdout s)))) (\<lambda>_.
        return_io \<lparr>res_Stdout = Some stdout, res_Stderr = Some stderr, res_Fate = fate_of withCtx p\<rparr>)))))))))"

definition ExecAndWait ::
    "(string list \<Rightarrow> string \<Rightarrow> process) \<Rightarrow> string list \<Rightarrow> string \<Rightarrow> exec_state \<Rightarrow> ExecResult outcome \<times> exec_state" where
  "ExecAndWait exec args input = ExecAndWaitContext exec False args input"

section \<open>Temporary files\<close>

text \<open>The names that \<open>TempFile\<close> chooses are new and different.\<close>

definition fresh_temps :: "process \<Rightarrow> os \<Rightarrow> bool" where
  "fresh_temps p os \<longleftrightarrow> tmpStdout p \<noteq> tmpStderr p \<and> files os (tmpStdout p) = None \<and> files os (tmpStderr p) = None"

lemmas exec_defs = ExecAndWaitContext_def TempFile_def plain_call_def run_process_def wait_process_def on_files_def cleaned_def
  cleanUpTempfile_def catch_io_def bind_io_def wrap_io_def return_io_def fail_io_def os_call_def os_Remove_def

text \<open>The lines that a run leaves in the error log.\<close>

definition wait_log :: "process \<Rightarrow> string list" where
  "wait_log p = (case waitErr p of None \<Rightarrow> [] | Some e \<Rightarrow> [''ExecAndWait: '' @ cmdPath p @ '': '' @ wait_error_text e])"

lemma ExecAndWaitContext_ok:
  assumes "faults os = []" "args \<noteq> []" "\<And>e. waitErr (exec args input) \<noteq> Some (WaitError e)"
  shows "ExecAndWaitContext exec withCtx args input (os, log) =
    (Ok \<lparr>res_Stdout = Some (tmpStdout (exec args input)), res_Stderr = Some (tmpStderr (exec args input)),
         res_Fate = fate_of withCtx (exec args input)\<rparr>,
     os\<lparr>files := (files os)(tmpStdout (exec args input) \<mapsto> outBytes (exec args input),
                             tmpStderr (exec args input) \<mapsto> errBytes (exec args input))\<rparr>, log @ wait_log (exec args input))"
  using assms by (auto simp: exec_defs wait_log_def Let_def fun_upd_twist split: option.splits wait_error.splits)

lemma Close_removes:
  assumes "faults os = []" "res_Stdout res = Some a" "res_Stderr res = Some b"
  shows "snd (ExecResult_Close (Some res) os) = os\<lparr>files := (files os)(a := None, b := None)\<rparr>"
proof -
  have "snd (os_Remove name os) = os\<lparr>files := (files os)(name := None)\<rparr>" if "faults os = []" for os name
    using that by (cases "files os name") (auto simp: os_Remove_def fun_upd_idem)
  then show ?thesis using assms by (simp add: ExecResult_Close_def close_field_def cleanUpTempfile_def)
qed

text \<open>
  Running a process, when the system calls around it succeed and the names of the temporary
  files are new: if \<open>Wait\<close> tells how the process ended, its output can be read back up to the
  given length, an error of it is logged, its fate is success exactly if it exited well, and cancellation exactly if it
  did not and the context was cancelled, and \<open>Close\<close> leaves the file system as it was before; if
  \<open>Wait\<close> itself fails, an error is returned and both temporary files stay behind.
\<close>

theorem ExecAndWait_tempfiles:
  assumes "faults os = []" "args \<noteq> []" "fresh_temps (exec args input) os"
  defines "p \<equiv> exec args input"
  shows "case waitErr p of
      Some (WaitError e) \<Rightarrow>
        \<exists>e' os'. ExecAndWaitContext exec withCtx args input (os, log) = (Fail e', os', log @ wait_log p) \<and>
          files os' (tmpStdout p) \<noteq> None \<and> files os' (tmpStderr p) \<noteq> None
    | _ \<Rightarrow>
        \<exists>res os'. ExecAndWaitContext exec withCtx args input (os, log) = (Ok res, os', log @ wait_log p) \<and>
          fst (ReadStdout n res os') = Ok (take n (outBytes p)) \<and> fst (ReadStderr n res os') = Ok (take n (errBytes p)) \<and>
          (res_Fate res = SubprocFateSucceeded \<longleftrightarrow> waitErr p = None) \<and>
          (res_Fate res = SubprocFateCancelled \<longleftrightarrow> waitErr p \<noteq> None \<and> withCtx \<and> didCancel p) \<and>
          snd (ExecResult_Close (Some res) os') = os"
proof (cases "\<exists>e. waitErr p = Some (WaitError e)")
  case True
  then obtain e where "waitErr (exec args input) = Some (WaitError e)" by (auto simp: p_def)
  then show ?thesis using assms(1,2) by (simp add: p_def exec_defs wait_log_def Let_def)
next
  case False
  then have w: "\<And>e. waitErr (exec args input) \<noteq> Some (WaitError e)" by (simp add: p_def)
  let ?res = "\<lparr>res_Stdout = Some (tmpStdout p), res_Stderr = Some (tmpStderr p), res_Fate = fate_of withCtx p\<rparr>"
  let ?os = "os\<lparr>files := (files os)(tmpStdout p \<mapsto> outBytes p, tmpStderr p \<mapsto> errBytes p)\<rparr>"
  have call: "ExecAndWaitContext exec withCtx args input (os, log) = (Ok ?res, ?os, log @ wait_log p)"
    using ExecAndWaitContext_ok [where exec = exec and args = args and input = input, OF assms(1,2) w] by (simp add: p_def)
  have fresh: "tmpStdout p \<noteq> tmpStderr p" "files os (tmpStdout p) = None" "files os (tmpStderr p) = None"
    using assms(3) by (simp_all add: p_def fresh_temps_def)
  have read: "fst (ReadStdout n ?res ?os) = Ok (take n (outBytes p))" "fst (ReadStderr n ?res ?os) = Ok (take n (errBytes p))"
    using assms(1) fresh(1) by (simp_all add: ReadStdout_def ReadStderr_def result_read_def os_call_def)
  have close: "snd (ExecResult_Close (Some ?res) ?os) = os"
  proof -
    have a: "snd (ExecResult_Close (Some ?res) ?os) = ?os\<lparr>files := (files ?os)(tmpStdout p := None, tmpStderr p := None)\<rparr>"
      using assms(1) by (intro Close_removes) simp_all
    have b: "(files ?os)(tmpStdout p := None, tmpStderr p := None) = files os" using fresh by auto
    show ?thesis unfolding a b by simp
  qed
  have "\<exists>res os'. ExecAndWaitContext exec withCtx args input (os, log) = (Ok res, os', log @ wait_log p) \<and>
          fst (ReadStdout n res os') = Ok (take n (outBytes p)) \<and> fst (ReadStderr n res os') = Ok (take n (errBytes p)) \<and>
          (res_Fate res = SubprocFateSucceeded \<longleftrightarrow> waitErr p = None) \<and>
          (res_Fate res = SubprocFateCancelled \<longleftrightarrow> waitErr p \<noteq> None \<and> withCtx \<and> didCancel p) \<and>
          snd (ExecResult_Close (Some res) os') = os"
    using call read close by (intro exI [of _ ?res] exI [of _ ?os]) (simp add: fate_of_def)
  then show ?thesis using False by (auto split: option.splits wait_error.splits)
qed

definition sample_process :: process where
  "sample_process = \<lparr>cmdPath = ''/bin/sh'', tmpStdout = ''/tmp/1'', tmpStderr = ''/tmp/2'', outBytes = ''hello'', errBytes = [],
     waitErr = Some (ExitError ''exit status 1''), didCancel = True\<rparr>"

theorem ExecAndWait_tempfiles_witness:
  "\<exists>res os'. ExecAndWaitContext (\<lambda>_ _. sample_process) True [''sh''] [] (\<lparr>files = Map.empty, faults = []\<rparr>, []) = (Ok res, os', [''ExecAndWait: /bin/sh: exit status 1'']) \<and>
     fst (ReadStdout 3 res os') = Ok ''hel'' \<and> res_Fate res = SubprocFateCancelled \<and>
     snd (ExecResult_Close (Some res) os') = \<lparr>files = Map.empty, faults = []\<rparr>"
proof -
  have f: "fresh_temps sample_process \<lparr>files = Map.empty, faults = []\<rparr>"
    by (simp add: fresh_temps_def sample_process_def)
  have w: "waitErr sample_process = Some (ExitError ''exit status 1'')" "didCancel sample_process" "outBytes sample_process = ''hello''"
    by (simp_all add: sample_process_def)
  have "\<exists>res os'. ExecAndWaitContext (\<lambda>_ _. sample_process) True [''sh''] [] (\<lparr>files = Map.empty, faults = []\<rparr>, []) = (Ok res, os', [''ExecAndWait: /bin/sh: exit status 1'']) \<and>
     fst (ReadStdout 3 res os') = Ok (take 3 ''hello'') \<and> res_Fate res = SubprocFateCancelled \<and>
     snd (ExecResult_Close (Some res) os') = \<lparr>files = Map.empty, faults = []\<rparr>"
    using ExecAndWait_tempfiles [where exec = "\<lambda>_ _. sample_process" and os = "\<lparr>files = Map.empty, faults = []\<rparr>"
        and args = "[''sh'']" and input = "[]" and withCtx = True and n = 3 and log = "[]"] f w by (auto simp: wait_log_def sample_process_def)
  then show ?thesis by (simp add: numeral_3_eq_3)
qed

end
