(* ===== verification/Go_Encoding.thy ===== *)
theory Go_Encoding
  imports Go_Time
begin

text \<open>
  The parts of packages unicode/utf8, encoding/base64 and encoding/json that run records use, and
  the time format of the program. A byte is a \<^typ>\<open>char\<close>.

  JSON values are a datatype. A Go map is written with its keys in alphabetical order: the lists
  of fields below are in that order.
\<close>

section \<open>UTF-8\<close>

abbreviation byte_of :: "char \<Rightarrow> nat" where
  "byte_of c \<equiv> of_char c"

definition cont :: "string \<Rightarrow> nat \<Rightarrow> nat \<Rightarrow> nat \<Rightarrow> bool" where
  "cont s i lo hi \<longleftrightarrow> i < length s \<and> lo \<le> byte_of (s ! i) \<and> byte_of (s ! i) \<le> hi"

text \<open>The length of the encoded rune at the start of \<open>s\<close>, or 0 if there is none.\<close>

definition utf8_len :: "string \<Rightarrow> nat" where
  "utf8_len s =
     (if s = [] then 0
      else let b = byte_of (hd s) in
        if b < 0x80 then 1
        else if 0xC2 \<le> b \<and> b \<le> 0xDF then (if cont s 1 0x80 0xBF then 2 else 0)
        else if 0xE0 \<le> b \<and> b \<le> 0xEF then
          (if cont s 1 (if b = 0xE0 then 0xA0 else 0x80) (if b = 0xED then 0x9F else 0xBF) \<and> cont s 2 0x80 0xBF then 3 else 0)
        else if 0xF0 \<le> b \<and> b \<le> 0xF4 then
          (if cont s 1 (if b = 0xF0 then 0x90 else 0x80) (if b = 0xF4 then 0x8F else 0xBF) \<and> cont s 2 0x80 0xBF \<and> cont s 3 0x80 0xBF then 4 else 0)
        else 0)"

lemma utf8_len_le: "utf8_len s \<le> length s"
  by (auto simp: utf8_len_def cont_def Let_def Suc_le_eq)

function utf8_Valid :: "string \<Rightarrow> bool" where
  "utf8_Valid s = (if s = [] then True else if utf8_len s = 0 then False else utf8_Valid (drop (utf8_len s) s))"
  by pat_completeness auto
termination
proof (relation "measure length", goal_cases)
  case (2 s)
  then show ?case using utf8_len_le [of s] by simp
qed simp

declare utf8_Valid.simps [simp del]

lemma utf8_Valid_ascii: "\<forall>c \<in> set s. byte_of c < 0x80 \<Longrightarrow> utf8_Valid s"
proof (induction s)
  case (Cons c s)
  then have "utf8_len (c # s) = 1" by (simp add: utf8_len_def)
  then show ?case using Cons by (simp add: utf8_Valid.simps [of "c # s"])
qed (simp add: utf8_Valid.simps)

section \<open>Base 64\<close>

definition b64_alphabet :: string where
  "b64_alphabet = ''ABCDEFGHIJKLMNOPQRSTUVWXYZabcdefghijklmnopqrstuvwxyz0123456789+/''"

definition b64_char :: "nat \<Rightarrow> char" where
  "b64_char n = b64_alphabet ! n"

fun EncodeToString :: "string \<Rightarrow> string" where
  "EncodeToString [] = []"
| "EncodeToString [a] = [b64_char (byte_of a div 4), b64_char (byte_of a mod 4 * 16), CHR ''='', CHR ''='']"
| "EncodeToString [a, b] =
     [b64_char (byte_of a div 4), b64_char (byte_of a mod 4 * 16 + byte_of b div 16),
      b64_char (byte_of b mod 16 * 4), CHR ''='']"
| "EncodeToString (a # b # c # s) =
     b64_char (byte_of a div 4) # b64_char (byte_of a mod 4 * 16 + byte_of b div 16) #
     b64_char (byte_of b mod 16 * 4 + byte_of c div 64) # b64_char (byte_of c mod 64) # EncodeToString s"

text \<open>A decoder, as the reader of a record would use it.\<close>

definition b64_val :: "char \<Rightarrow> nat" where
  "b64_val c = length (takeWhile (\<lambda>x. x \<noteq> c) b64_alphabet)"

fun b64_decode :: "string \<Rightarrow> string" where
  "b64_decode (w # x # y # z # s) =
     (if y = CHR ''='' then [char_of (b64_val w * 4 + b64_val x div 16)]
      else if z = CHR ''='' then
        [char_of (b64_val w * 4 + b64_val x div 16), char_of (b64_val x mod 16 * 16 + b64_val y div 4)]
      else char_of (b64_val w * 4 + b64_val x div 16) # char_of (b64_val x mod 16 * 16 + b64_val y div 4) #
           char_of (b64_val y mod 4 * 64 + b64_val z) # b64_decode s)"
| "b64_decode _ = []"

lemma length_takeWhile_nth: "distinct xs \<Longrightarrow> n < length xs \<Longrightarrow> length (takeWhile (\<lambda>x. x \<noteq> xs ! n) xs) = n"
proof (induction xs arbitrary: n)
  case (Cons x xs)
  then show ?case by (cases n) (auto simp: nth_mem)
qed simp

lemma b64_alphabet_facts: "distinct b64_alphabet" "length b64_alphabet = 64" "CHR ''='' \<notin> set b64_alphabet"
    "list_all (\<lambda>c. byte_of c < 0x80) b64_alphabet"
  by (simp_all add: b64_alphabet_def)


lemma b64_val_char [simp]: "n < 64 \<Longrightarrow> b64_val (b64_char n) = n"
  using b64_alphabet_facts by (simp add: b64_val_def b64_char_def length_takeWhile_nth)

lemma b64_char_in: "n < 64 \<Longrightarrow> b64_char n \<in> set b64_alphabet"
  using b64_alphabet_facts(2) by (simp add: b64_char_def)

lemma b64_char_not_pad [simp]: "n < 64 \<Longrightarrow> b64_char n \<noteq> CHR ''=''"
  using b64_char_in [of n] b64_alphabet_facts(3) by auto

lemma byte_parts [simp]:
  "byte_of c div 4 < 64" "byte_of c div 16 < 16" "byte_of c div 64 < 4"
  using nat_of_char_less_256 [of c] by (simp_all add: less_mult_imp_div_less del: nat_of_char_less_256)

lemma b64_digits [simp]:
  "byte_of a mod 4 * 16 < 64" "byte_of a mod 4 * 16 + byte_of b div 16 < 64"
  "byte_of b mod 16 * 4 < 64" "byte_of b mod 16 * 4 + byte_of c div 64 < 64"
proof -
  have "byte_of a mod 4 \<le> 3" "byte_of b mod 16 \<le> 15" by simp_all
  then show "byte_of a mod 4 * 16 < 64" "byte_of a mod 4 * 16 + byte_of b div 16 < 64"
    "byte_of b mod 16 * 4 < 64" "byte_of b mod 16 * 4 + byte_of c div 64 < 64"
    using byte_parts(2) [of b] byte_parts(3) [of c] by linarith+
qed

lemma b64_roundtrip: "b64_decode (EncodeToString s) = s"
proof -
  have z: "byte_of c div 16 div 16 = 0" "byte_of c div 16 mod 16 = byte_of c div 16"
    "byte_of c div 64 div 4 = 0" "byte_of c div 64 mod 4 = byte_of c div 64" for c
    by simp_all
  show ?thesis
    by (induction s rule: EncodeToString.induct) (simp_all add: z del: One_nat_def)
qed

lemma EncodeToString_ascii: "c \<in> set (EncodeToString s) \<Longrightarrow> byte_of c < 0x80"
proof -
  have a: "byte_of (b64_char n) < 0x80" if "n < 64" for n
    using b64_char_in [OF that] b64_alphabet_facts(4) by (simp add: list_all_iff)
  show "c \<in> set (EncodeToString s) \<Longrightarrow> byte_of c < 0x80"
    by (induction s rule: EncodeToString.induct) (auto simp: a)
qed

section \<open>JSON\<close>

datatype json =
    JNull
  | JBool bool
  | JNum int
  | JStr string
  | JRaw string
  | JObj "(string \<times> json) list"

text \<open>\<open>JRaw\<close> is the text that a \<open>MarshalJSON\<close> method returns.\<close>

definition hex_digit :: "nat \<Rightarrow> char" where
  "hex_digit n = ''0123456789abcdef'' ! n"

definition backslash :: char where
  "backslash = CHR 0x5C"

definition escape_ascii :: "bool \<Rightarrow> char \<Rightarrow> string" where
  "escape_ascii escapeHTML c =
     (if c = CHR 0x22 \<or> c = backslash then [backslash, c]
      else if c = CHR 0x0A then [backslash, CHR ''n'']
      else if c = CHR 0x0D then [backslash, CHR ''r'']
      else if c = CHR 0x09 then [backslash, CHR ''t'']
      else if byte_of c < 0x20 \<or> escapeHTML \<and> c \<in> {CHR ''<'', CHR ''>'', CHR ''&''}
      then [backslash, CHR ''u'', CHR ''0'', CHR ''0'', hex_digit (byte_of c div 16), hex_digit (byte_of c mod 16)]
      else [c])"

function quote_json :: "bool \<Rightarrow> string \<Rightarrow> string" where
  "quote_json escapeHTML s =
     (if s = [] then []
      else if byte_of (hd s) < 0x80 then escape_ascii escapeHTML (hd s) @ quote_json escapeHTML (tl s)
      else if utf8_len s = 0 then [backslash] @ ''ufffd'' @ quote_json escapeHTML (tl s)
      else if take 3 s = [CHR 0xE2, CHR 0x80, CHR 0xA8] then [backslash] @ ''u2028'' @ quote_json escapeHTML (drop 3 s)
      else if take 3 s = [CHR 0xE2, CHR 0x80, CHR 0xA9] then [backslash] @ ''u2029'' @ quote_json escapeHTML (drop 3 s)
      else take (utf8_len s) s @ quote_json escapeHTML (drop (utf8_len s) s))"
  by pat_completeness auto
termination
  by (relation "measure (\<lambda>(_, s). length s)") auto

declare quote_json.simps [simp del]

definition json_string :: "bool \<Rightarrow> string \<Rightarrow> string" where
  "json_string escapeHTML s = [CHR 0x22] @ quote_json escapeHTML s @ [CHR 0x22]"

fun json_text :: "bool \<Rightarrow> json \<Rightarrow> string" and json_fields :: "bool \<Rightarrow> (string \<times> json) list \<Rightarrow> string list" where
  "json_text escapeHTML JNull = ''null''"
| "json_text escapeHTML (JBool b) = (if b then ''true'' else ''false'')"
| "json_text escapeHTML (JNum n) = Itoa n"
| "json_text escapeHTML (JStr s) = json_string escapeHTML s"
| "json_text escapeHTML (JRaw s) = s"
| "json_text escapeHTML (JObj fs) = ''{'' @ Join (json_fields escapeHTML fs) '','' @ ''}''"
| "json_fields escapeHTML [] = []"
| "json_fields escapeHTML ((k, v) # fs) =
     (json_string escapeHTML k @ '':'' @ json_text escapeHTML v) # json_fields escapeHTML fs"

text \<open>A JSON text holds no line feed, so that records can be told apart by lines.\<close>

lemma utf8_len_le4: "utf8_len s \<le> 4"
  by (simp add: utf8_len_def Let_def)

lemma utf8_len_bytes:
  assumes "\<not> byte_of (hd s) < 0x80" "i < utf8_len s"
  shows "0x80 \<le> byte_of (s ! i)"
proof -
  have ne: "s \<noteq> []" using assms(2) by (auto simp: utf8_len_def)
  have "i = 0 \<or> i = 1 \<or> i = 2 \<or> i = 3" using assms(2) utf8_len_le4 [of s] by linarith
  then show ?thesis
  proof (elim disjE)
    assume "i = 0"
    then show ?thesis using assms(1) ne by (simp add: hd_conv_nth)
  next
    assume i: "i = 1"
    then have "cont s 1 0x80 0xBF" using assms by (auto simp: utf8_len_def Let_def cont_def split: if_splits)
    then show ?thesis by (simp add: cont_def i)
  next
    assume i: "i = 2"
    then have "cont s 2 0x80 0xBF" using assms by (auto simp: utf8_len_def Let_def split: if_splits)
    then show ?thesis by (simp add: cont_def i)
  next
    assume i: "i = 3"
    then have "cont s 3 0x80 0xBF" using assms by (auto simp: utf8_len_def Let_def split: if_splits)
    then show ?thesis by (simp add: cont_def i)
  qed
qed

lemma utf8_rune_no_lf:
  assumes "\<not> byte_of (hd s) < 0x80"
  shows "CHR 0x0A \<notin> set (take (utf8_len s) s)"
proof
  assume "CHR 0x0A \<in> set (take (utf8_len s) s)"
  then obtain i where "i < utf8_len s" "s ! i = CHR 0x0A" by (auto simp: in_set_conv_nth)
  then show False using utf8_len_bytes [OF assms, of i] by simp
qed

lemma hex_digit_no_lf: "n < 16 \<Longrightarrow> hex_digit n \<noteq> CHR 0x0A"
  by (auto simp: hex_digit_def less_Suc_eq numeral_eq_Suc)

lemma escape_ascii_no_lf: "CHR 0x0A \<notin> set (escape_ascii h c)"
  using hex_digit_no_lf [of "byte_of c div 16"] hex_digit_no_lf [of "byte_of c mod 16"]
  by (auto simp: escape_ascii_def backslash_def)

lemma quote_json_no_lf: "CHR 0x0A \<notin> set (quote_json h s)"
proof (induction h s rule: quote_json.induct)
  case (1 h s)
  then show ?case
    using escape_ascii_no_lf [of h "hd s"] utf8_rune_no_lf [of s]
    by (subst quote_json.simps) (auto simp: backslash_def)
qed

text \<open>A JSON value whose raw parts hold no line feed.\<close>

fun raw_ok :: "json \<Rightarrow> bool" and raw_ok_fields :: "(string \<times> json) list \<Rightarrow> bool" where
  "raw_ok (JRaw s) \<longleftrightarrow> CHR 0x0A \<notin> set s"
| "raw_ok (JObj fs) \<longleftrightarrow> raw_ok_fields fs"
| "raw_ok _ \<longleftrightarrow> True"
| "raw_ok_fields [] \<longleftrightarrow> True"
| "raw_ok_fields ((k, v) # fs) \<longleftrightarrow> raw_ok v \<and> raw_ok_fields fs"

lemma Itoa_no_lf: "CHR 0x0A \<notin> set (Itoa n)"
  using nat_str_notin [of "CHR 0x0A"] by (auto simp: Itoa_def is_digit_def)

lemma set_Join: "set (Join ps sep) \<subseteq> (\<Union>p \<in> set ps. set p) \<union> set sep"
  by (induction ps sep rule: Join.induct) auto

lemma json_text_no_lf:
  "raw_ok j \<Longrightarrow> CHR 0x0A \<notin> set (json_text h j)"
  "raw_ok_fields fs \<Longrightarrow> \<forall>s \<in> set (json_fields h fs). CHR 0x0A \<notin> set s"
proof (induction h j and h fs rule: json_text_json_fields.induct)
  case (6 h fs)
  then show ?case using set_Join [of "json_fields h fs" "'',''"] by fastforce
qed (auto simp: json_string_def quote_json_no_lf Itoa_no_lf)

section \<open>Times\<close>

definition Year_of :: "location \<Rightarrow> go_time \<Rightarrow> int" where
  "Year_of loc t =
     (let z = wall_day loc t in
      year_of_era (day_of_era z) + (z + 719468) div 146097 * 400 + (if Month_of loc t \<le> 2 then 1 else 0))"

definition pad_num :: "char \<Rightarrow> nat \<Rightarrow> int \<Rightarrow> string" where
  "pad_num c w n = replicate (w - length (Itoa n)) c @ Itoa n"

definition month_abbrevs :: "string list" where
  "month_abbrevs = [''Jan'', ''Feb'', ''Mar'', ''Apr'', ''May'', ''Jun'', ''Jul'', ''Aug'', ''Sep'', ''Oct'', ''Nov'', ''Dec'']"

text \<open>\<open>t.Format("Jan _2 15:04:05 2006")\<close>.\<close>

definition format_time :: "location \<Rightarrow> go_time \<Rightarrow> string" where
  "format_time loc t =
     month_abbrevs ! nat (Month_of loc t - 1) @ '' '' @ pad_num CHR '' '' 2 (Day_of loc t) @ '' '' @
     pad_num CHR ''0'' 2 (Hour_of loc t) @ '':'' @ pad_num CHR ''0'' 2 (Minute_of loc t) @ '':'' @
     pad_num CHR ''0'' 2 (Second_of loc t) @ '' '' @ pad_num CHR ''0'' 4 (Year_of loc t)"

end
