(* ===== verification/Run_Record.thy ===== *)
theory Run_Record
  imports Job_File Exec Go_Encoding
begin

text \<open>
  Run records and what the result sinks do with them (\<open>RunRec\<close> of \<open>jobfile/job.go\<close>,
  \<open>jobfile/safe_bytes_to_str.go\<close>, \<open>SerializeRunRec\<close> of \<open>jobfile/result_sink.go\<close>, and the method
  \<open>Handle\<close> of \<open>jobfile/result_sink_*.go\<close>).

  The pointer \<open>Job\<close> of a record is the job it points to, as it is when the record is handled. The
  state that the sinks change is the record \<open>world\<close>: files, standard output, the lines of the two
  loggers, and the registry of run record servers. The answers of the system that this state does
  not determine are the record \<open>sink_env\<close>: how processes run, whether a directory can be made,
  what a directory holds (names, with whether the entry is a regular file), the clock and the
  time zone.
\<close>

section \<open>Records\<close>

definition RunRecOutputMaxLen :: nat where
  "RunRecOutputMaxLen = 2 ^ 20"

record RunRec =
  RecJob :: Job
  RunTime :: go_time
  NewStatus :: JobStatus
  Stdout :: "string option"
  Stderr :: "string option"
  RecFate :: SubprocFate
  RecExecTime :: duration
  Err :: "error option"

definition bytes_of :: "string option \<Rightarrow> string" where
  "bytes_of b = (case b of None \<Rightarrow> [] | Some s \<Rightarrow> s)"

definition SafeBytesToStr :: "string \<Rightarrow> string \<times> bool" where
  "SafeBytesToStr output = (if utf8_Valid output then (output, False) else (EncodeToString output, True))"

definition quoted :: "string \<Rightarrow> string" where
  "quoted s = [CHR 0x22] @ s @ [CHR 0x22]"

definition crlf :: string where
  "crlf = [CHR 0x0D, CHR 0x0A]"

definition Describe :: "RunRec \<Rightarrow> string" where
  "Describe rec =
     ''Job '' @ quoted (Name (RecJob rec)) @
     (case RecFate rec of SubprocFateSucceeded \<Rightarrow> '' succeeded.'' | SubprocFateFailed \<Rightarrow> '' failed.''
      | SubprocFateCancelled \<Rightarrow> '' cancelled.'') @ crlf @
     ''New status: '' @ JobStatus_String (Status (RecJob rec)) @ ''.'' @ crlf @ crlf @
     ''Stdout:'' @ crlf @ fst (SafeBytesToStr (bytes_of (Stdout rec))) @ crlf @ crlf @
     ''Stderr:'' @ crlf @ fst (SafeBytesToStr (bytes_of (Stderr rec)))"

fun fate_num :: "SubprocFate \<Rightarrow> int" where
  "fate_num SubprocFateSucceeded = 0"
| "fate_num SubprocFateFailed = 1"
| "fate_num SubprocFateCancelled = 2"

definition job_json :: "RunRec \<Rightarrow> json" where
  "job_json rec = JObj
     [(''command'', JStr (Cmd (RecJob rec))), (''name'', JStr (Name (RecJob rec))),
      (''status'', JStr (JobStatus_String (NewStatus rec))),
      (''time'', JStr (FullTimeSpec_String (JobTimeSpec (RecJob rec))))]"

text \<open>Both output fields are made from \<open>rec.Stdout\<close>.\<close>

definition output_field :: "bool \<Rightarrow> string \<Rightarrow> string \<Rightarrow> (string \<times> json) list" where
  "output_field wanted key output =
     (if wanted
      then (let (str, isBase64) = SafeBytesToStr output in [(if isBase64 then key @ ''Base64'' else key, JStr str)])
      else [])"

definition run_rec_json :: "RunRec \<Rightarrow> ResultSinkDataParam \<Rightarrow> json" where
  "run_rec_json rec data = JObj
     ([(''fate'', JNum (fate_num (RecFate rec))), (''job'', job_json rec), (''startTime'', JNum (Unix (RunTime rec)))] @
      output_field (data_Contains data RESULT_SINK_DATA_STDERR) ''stderr'' (bytes_of (Stdout rec)) @
      output_field (data_Contains data RESULT_SINK_DATA_STDOUT) ''stdout'' (bytes_of (Stdout rec)) @
      [(''succeeded'', JBool (RecFate rec = SubprocFateSucceeded)), (''user'', JStr (JobUser (RecJob rec))),
       (''version'', JRaw (SemVer_MarshalJSON (SemVer 1 4 0)))])"

definition SerializeRunRec :: "RunRec \<Rightarrow> ResultSinkDataParam \<Rightarrow> string" where
  "SerializeRunRec rec data = json_text False (run_rec_json rec data) @ [CHR 0x0A]"

definition old_output_fields :: "string \<Rightarrow> string option \<Rightarrow> (string \<times> json) list" where
  "old_output_fields key output =
     (case output of
        None \<Rightarrow> [(key, JNull)]
      | Some bytes \<Rightarrow> (let (str, isBase64) = SafeBytesToStr bytes in [(key, JStr str), (key @ ''_base64'', JBool isBase64)]))"

definition serializeRunRec_oldFormat :: "location \<Rightarrow> RunRec \<Rightarrow> string" where
  "serializeRunRec_oldFormat loc rec = json_text True (JObj
     ([(''job'', job_json rec), (''startTime'', JStr (format_time loc (RunTime rec)))] @
      old_output_fields ''stderr'' (Stderr rec) @ old_output_fields ''stdout'' (Stdout rec) @
      [(''succeeded'', JBool (RecFate rec = SubprocFateSucceeded)), (''user'', JStr (JobUser (RecJob rec)))]))"

section \<open>Sinks\<close>

record world =
  w_os :: os
  w_stdout :: string
  w_log :: "string list"
  w_errlog :: "string list"
  w_registry :: runRecServerRegistry

record sink_env =
  se_exec :: "string list \<Rightarrow> string \<Rightarrow> process"
  se_mkdir :: "string \<Rightarrow> error option"
  se_readdir :: "os \<Rightarrow> string \<Rightarrow> (string \<times> bool) list outcome"
  se_now :: go_time
  se_loc :: location

definition exist_error :: error where
  "exist_error = Errno ''file exists''"

definition IsExist :: "error \<Rightarrow> bool" where
  "IsExist e \<longleftrightarrow> e = exist_error"

definition log_err :: "string \<Rightarrow> world \<Rightarrow> world" where
  "log_err msg w = w\<lparr>w_errlog := w_errlog w @ [msg]\<rparr>"

definition log_out :: "string \<Rightarrow> world \<Rightarrow> world" where
  "log_out msg w = w\<lparr>w_log := w_log w @ [msg]\<rparr>"

text \<open>A call on the files; an error is only logged.\<close>

definition try_os :: "(os \<Rightarrow> unit outcome \<times> os) \<Rightarrow> world \<Rightarrow> world" where
  "try_os call w =
     (case call (w_os w) of
        (Fail e, os) \<Rightarrow> log_err (Error_Error e) (w\<lparr>w_os := os\<rparr>)
      | (_, os) \<Rightarrow> w\<lparr>w_os := os\<rparr>)"

definition os_WriteFile :: "string \<Rightarrow> string \<Rightarrow> os \<Rightarrow> unit outcome \<times> os" where
  "os_WriteFile p data = os_call (\<lambda>os. (Ok (), os\<lparr>files := (files os)(p \<mapsto> data)\<rparr>))"

definition runTimeToFileName :: "go_time \<Rightarrow> string \<Rightarrow> string" where
  "runTimeToFileName t sfx = Itoa (Unix t) @ ''.'' @ sfx"

definition fileNameToRunTime :: "string \<Rightarrow> go_time outcome" where
  "fileNameToRunTime name =
     (let retErr = Error ''Cannot parse output file name'' None; parts = Split name ''.'' in
      if length parts \<noteq> 2 \<or> (parts ! 1 \<noteq> ''stdout'' \<and> parts ! 1 \<noteq> ''stderr'') then Fail retErr
      else case ParseInt (parts ! 0) of
          Ok secs \<Rightarrow> Ok (secs * Second_dur)
        | _ \<Rightarrow> Fail retErr)"

text \<open>Integer division truncates towards zero.\<close>

definition trunc_div :: "int \<Rightarrow> int \<Rightarrow> int" where
  "trunc_div a b = (if a < 0 then - (- a div b) else a div b)"

text \<open>\<open>Sub\<close> saturates at the bounds of a duration.\<close>

definition saturate :: "int \<Rightarrow> duration" where
  "saturate d = max (- (2 ^ 63)) (min (2 ^ 63 - 1) d)"

definition ageOfFileInDays :: "string \<Rightarrow> go_time \<Rightarrow> int outcome" where
  "ageOfFileInDays name now =
     bind_outcome (fileNameToRunTime name) (\<lambda>runTime. Ok (trunc_div (saturate (Sub now runTime)) (24 * Hour_dur)))"

fun delete_loop :: "go_time \<Rightarrow> string \<Rightarrow> int \<Rightarrow> (string \<times> bool) list \<Rightarrow> world \<Rightarrow> world" where
  "delete_loop now dirPath maxAgeDays [] w = w"
| "delete_loop now dirPath maxAgeDays ((name, isRegular) # entries) w =
     (if \<not> isRegular then delete_loop now dirPath maxAgeDays entries w
      else case ageOfFileInDays name now of
          Ok ageDays \<Rightarrow>
            delete_loop now dirPath maxAgeDays entries
              (if ageDays > maxAgeDays then try_os (os_Remove (filepath_Join [dirPath, name])) w else w)
        | Fail e \<Rightarrow> delete_loop now dirPath maxAgeDays entries (log_err (Error_Error e) w)
        | Panic p \<Rightarrow> w)"

definition deleteOldOutputs :: "sink_env \<Rightarrow> string \<Rightarrow> int \<Rightarrow> world \<Rightarrow> world" where
  "deleteOldOutputs env dirPath maxAgeDays w =
     (case se_readdir env (w_os w) dirPath of
        Ok entries \<Rightarrow> delete_loop (se_now env) dirPath maxAgeDays entries w
      | Fail e \<Rightarrow> if IsNotExist e then w else log_err (Error_Error e) w
      | Panic p \<Rightarrow> w)"

definition FilesystemResultSink_Handle ::
    "sink_env \<Rightarrow> string \<Rightarrow> ResultSinkDataParam \<Rightarrow> int \<Rightarrow> RunRec \<Rightarrow> world \<Rightarrow> world" where
  "FilesystemResultSink_Handle env dir data maxAgeDays rec w =
     (let dirPath = filepath_Join [dir, Name (RecJob rec)];
          put_file = (\<lambda>wanted sfx bytes w.
            if wanted then try_os (os_WriteFile (filepath_Join [dirPath, runTimeToFileName (RunTime rec) sfx]) bytes) w else w)
      in case se_mkdir env dirPath of
          Some e \<Rightarrow>
            if \<not> IsExist e then log_err (Error_Error e) w
            else deleteOldOutputs env dirPath maxAgeDays
              (put_file (data_Contains data RESULT_SINK_DATA_STDERR) ''stderr'' (bytes_of (Stderr rec))
                (put_file (data_Contains data RESULT_SINK_DATA_STDOUT) ''stdout'' (bytes_of (Stdout rec)) w))
        | None \<Rightarrow>
            deleteOldOutputs env dirPath maxAgeDays
              (put_file (data_Contains data RESULT_SINK_DATA_STDERR) ''stderr'' (bytes_of (Stderr rec))
                (put_file (data_Contains data RESULT_SINK_DATA_STDOUT) ''stdout'' (bytes_of (Stdout rec)) w)))"

text \<open>Reading output with the error dropped: then the bytes are nil.\<close>

definition read_or_nil :: "(os \<Rightarrow> string outcome \<times> os) \<Rightarrow> world \<Rightarrow> string \<times> world" where
  "read_or_nil call w =
     (case call (w_os w) of (Ok s, os) \<Rightarrow> (s, w\<lparr>w_os := os\<rparr>) | (_, os) \<Rightarrow> ([], w\<lparr>w_os := os\<rparr>))"

text \<open>The deferred \<open>execResult.Close()\<close>, run when \<open>Handle\<close> returns, also on a nil result.\<close>

definition deferred_close :: "ExecResult option \<Rightarrow> world \<Rightarrow> unit outcome \<times> world" where
  "deferred_close res w =
     (case ExecResult_Close res (w_os w) of
        (Ok _, os) \<Rightarrow> (Ok (), w\<lparr>w_os := os\<rparr>)
      | (Fail e, os) \<Rightarrow> (Fail e, w\<lparr>w_os := os\<rparr>)
      | (Panic p, os) \<Rightarrow> (Panic p, w\<lparr>w_os := os\<rparr>))"

text \<open>Running a process changes the files and appends to the error log.\<close>

definition in_world :: "(exec_state \<Rightarrow> 'a outcome \<times> exec_state) \<Rightarrow> world \<Rightarrow> 'a outcome \<times> world" where
  "in_world call w =
     (case call (w_os w, w_errlog w) of (r, os, errs) \<Rightarrow> (r, w\<lparr>w_os := os, w_errlog := errs\<rparr>))"

definition ProgramResultSink_Handle ::
    "sink_env \<Rightarrow> string \<Rightarrow> SemVer \<Rightarrow> RunRec \<Rightarrow> world \<Rightarrow> unit outcome \<times> world" where
  "ProgramResultSink_Handle env program version rec w =
     (let recStr = (if Compare version (SemVer 1 4 0) < 0 then serializeRunRec_oldFormat (se_loc env) rec
                    else SerializeRunRec rec (RESULT_SINK_DATA_STDOUT OR RESULT_SINK_DATA_STDERR))
      in case in_world (ExecAndWait (se_exec env) [program] recStr) w of
          (Fail e, w0) \<Rightarrow>
            deferred_close None
              (log_err (''Failed to call '' @ program @ '': '' @ Error_Error e @ [CHR 0x0A]) w0)
        | (Panic p, w0) \<Rightarrow> (Panic p, w0)
        | (Ok res, w0) \<Rightarrow>
            (case res_Fate res of
               SubprocFateFailed \<Rightarrow>
                 let (bytes, w1) = read_or_nil (ReadStderr RunRecOutputMaxLen res) w0
                 in deferred_close (Some res)
                      (log_err (program @ '' failed: '' @ fst (SafeBytesToStr bytes) @ [CHR 0x0A]) w1)
             | SubprocFateCancelled \<Rightarrow>
                 (Panic ''Result sink program subproc was somehow cancelled'', snd (deferred_close (Some res) w0))
             | SubprocFateSucceeded \<Rightarrow>
                 let (out, w1) = read_or_nil (ReadStdout RunRecOutputMaxLen res) w0;
                     (err, w2) = read_or_nil (ReadStderr RunRecOutputMaxLen res) w1
                 in deferred_close (Some res) (log_err (fst (SafeBytesToStr err)) (log_out (fst (SafeBytesToStr out)) w2))))"

definition email_text :: "RunRec \<Rightarrow> string" where
  "email_text rec =
     ''To: '' @ JobUser (RecJob rec) @ crlf @ ''From: '' @ JobUser (RecJob rec) @ crlf @
     ''Subject: '' @ quoted (Name (RecJob rec)) @ '' failed.'' @ crlf @ crlf @ Describe rec @ ''.'' @ crlf"

definition SystemEmailResultSink_Handle :: "sink_env \<Rightarrow> RunRec \<Rightarrow> world \<Rightarrow> unit outcome \<times> world" where
  "SystemEmailResultSink_Handle env rec w =
     (case in_world (ExecAndWait (se_exec env) [''sendmail'', JobUser (RecJob rec)] (email_text rec)) w of
        (Fail e, w0) \<Rightarrow>
          deferred_close None (log_err (''Failed to send mail: '' @ Error_Error e @ [CHR 0x0A]) w0)
      | (Panic p, w0) \<Rightarrow> (Panic p, w0)
      | (Ok res, w0) \<Rightarrow>
          (case res_Fate res of
             SubprocFateFailed \<Rightarrow>
               let (bytes, w1) = read_or_nil (ReadStderr RunRecOutputMaxLen res) w0
               in deferred_close (Some res)
                    (log_err (''Failed to send mail: '' @ fst (SafeBytesToStr bytes) @ [CHR 0x0A]) w1)
           | SubprocFateCancelled \<Rightarrow>
               (Panic ''Result sink program subproc was somehow cancelled'', snd (deferred_close (Some res) w0))
           | SubprocFateSucceeded \<Rightarrow> deferred_close (Some res) w0))"

definition StdoutResultSink_Handle :: "ResultSinkDataParam \<Rightarrow> RunRec \<Rightarrow> world \<Rightarrow> world" where
  "StdoutResultSink_Handle data rec w = w\<lparr>w_stdout := w_stdout w @ SerializeRunRec rec data\<rparr>"

definition SocketResultSink_Handle ::
    "string \<Rightarrow> string \<Rightarrow> ResultSinkDataParam \<Rightarrow> RunRec \<Rightarrow> world \<Rightarrow> unit outcome \<times> world" where
  "SocketResultSink_Handle proto address data rec w =
     (case registry_Push proto address (SerializeRunRec rec data) (w_registry w) of
        Ok registry \<Rightarrow> (Ok (), w\<lparr>w_registry := registry\<rparr>)
      | Fail e \<Rightarrow> (Fail e, w)
      | Panic p \<Rightarrow> (Panic p, w))"

fun sink_Handle :: "sink_env \<Rightarrow> ResultSink \<Rightarrow> RunRec \<Rightarrow> world \<Rightarrow> unit outcome \<times> world" where
  "sink_Handle env SystemEmailResultSink rec w = SystemEmailResultSink_Handle env rec w"
| "sink_Handle env (ProgramResultSink program version) rec w = ProgramResultSink_Handle env program version rec w"
| "sink_Handle env (FilesystemResultSink dir data maxAge) rec w =
     (Ok (), FilesystemResultSink_Handle env dir data maxAge rec w)"
| "sink_Handle env (StdoutResultSink data) rec w = (Ok (), StdoutResultSink_Handle data rec w)"
| "sink_Handle env (SocketResultSink proto address data) rec w = SocketResultSink_Handle proto address data rec w"

section \<open>Text of a record\<close>

text \<open>
  Output as text: what \<open>SafeBytesToStr\<close> returns is always valid UTF-8, and the output can be
  recovered from it: it is the text itself or, where the flag says so, its base 64 decoding.
\<close>

theorem SafeBytesToStr_lossless:
  "utf8_Valid (fst (SafeBytesToStr output)) \<and>
   (if snd (SafeBytesToStr output) then b64_decode (fst (SafeBytesToStr output)) else fst (SafeBytesToStr output)) = output"
proof -
  have "utf8_Valid (EncodeToString output)" using EncodeToString_ascii by (intro utf8_Valid_ascii) blast
  then show ?thesis by (auto simp: SafeBytesToStr_def b64_roundtrip)
qed

lemma raw_ok_fields_append: "raw_ok_fields (fs @ gs) \<longleftrightarrow> raw_ok_fields fs \<and> raw_ok_fields gs"
  by (induction fs) auto

lemma run_rec_json_raw_ok: "raw_ok (run_rec_json rec data)"
proof -
  have "CHR 0x0A \<notin> set (SemVer_MarshalJSON (SemVer 1 4 0))" by code_simp
  then show ?thesis
    by (simp add: run_rec_json_def raw_ok_fields_append output_field_def job_json_def split_beta)
qed

text \<open>
  A serialised record is one line: it ends with a line feed and holds no other one, whatever the
  job's name, command and output hold, so a reader of a socket or of standard output can tell
  records apart. It does not depend on the standard error output of the run, even where that is
  asked for: standard output is written in its place.
\<close>

theorem SerializeRunRec_line:
  "(\<exists>line. SerializeRunRec rec data = line @ [CHR 0x0A] \<and> CHR 0x0A \<notin> set line) \<and>
   SerializeRunRec (rec\<lparr>Stderr := err\<rparr>) data = SerializeRunRec rec data"
  using json_text_no_lf(1) [OF run_rec_json_raw_ok]
  by (simp add: SerializeRunRec_def run_rec_json_def job_json_def)

section \<open>Paths\<close>

lemma split_acc_append_char:
  "split_acc [c] acc (s @ c # t) = split_acc [c] acc s @ split_acc [c] [] t"
proof (induction s arbitrary: acc)
  case Nil
  then show ?case by (simp add: HasPrefix_def)
next
  case (Cons x s)
  then show ?case by (auto simp: HasPrefix_def)
qed

lemma Split_append_char: "Split (s @ c # t) [c] = Split s [c] @ Split t [c]"
  by (simp add: Split_def split_acc_append_char)

text \<open>A name that is one element of a path.\<close>

definition plain_name :: "string \<Rightarrow> bool" where
  "plain_name n \<longleftrightarrow> CHR ''/'' \<notin> set n \<and> n \<noteq> [] \<and> n \<noteq> ''.'' \<and> n \<noteq> ''..''"

lemma clean_elems_snoc:
  "plain_name n \<Longrightarrow> clean_elems rooted out (es @ [n]) = clean_elems rooted out es @ [n]"
  by (induction rooted out es rule: clean_elems.induct) (auto simp: plain_name_def)

lemma Join_snoc: "Join (ps @ [n]) sep = (if ps = [] then n else Join ps sep @ sep @ n)"
  by (induction ps sep rule: Join.induct) auto

lemma filepath_Join_plain:
  assumes "plain_name n" "dir \<noteq> []"
  shows "\<exists>base. \<forall>n. plain_name n \<longrightarrow> filepath_Join [dir, n] = base @ n"
proof -
  let ?es = "clean_elems (IsAbs dir) [] (Split dir ''/'')"
  have "filepath_Join [dir, n] = (if IsAbs dir then ''/'' else []) @ (if ?es = [] then [] else Join ?es ''/'' @ ''/'') @ n"
    if n: "plain_name n" for n
  proof -
    have sp: "Split (dir @ CHR ''/'' # n) ''/'' = Split dir ''/'' @ [n]"
      using Split_append_char [of dir "CHR ''/''" n] Split_char_notin [of "CHR ''/''" n] n by (simp add: plain_name_def)
    have abs: "IsAbs (dir @ CHR ''/'' # n) = IsAbs dir" using assms(2) by (cases dir) (simp_all add: IsAbs_def HasPrefix_def)
    have "n \<noteq> []" using n by (simp add: plain_name_def)
    then show ?thesis
      using assms(2) by (auto simp: filepath_Join_def Clean_def abs sp clean_elems_snoc [OF n] Join_snoc Let_def)
  qed
  then show ?thesis
    by (intro exI [of _ "(if IsAbs dir then ''/'' else []) @ (if ?es = [] then [] else Join ?es ''/'' @ ''/'')"]) simp
qed

lemma filepath_Join_inj:
  "plain_name a \<Longrightarrow> plain_name b \<Longrightarrow> dir \<noteq> [] \<Longrightarrow> filepath_Join [dir, a] = filepath_Join [dir, b] \<Longrightarrow> a = b"
  using filepath_Join_plain [of a dir] by auto

lemma Clean_ne: "Clean p \<noteq> []"
  by (auto simp: Clean_def Let_def)

lemma filepath_Join_ne: "dir \<noteq> [] \<Longrightarrow> filepath_Join (dir # ps) \<noteq> []"
  by (simp add: filepath_Join_def Clean_ne Let_def)

section \<open>Output files\<close>

lemma fileName_roundtrip:
  assumes "- (2 ^ 63) \<le> Unix t" "Unix t < 2 ^ 63" "sfx = ''stdout'' \<or> sfx = ''stderr''"
  shows "fileNameToRunTime (runTimeToFileName t sfx) = Ok (Unix t * Second_dur)"
proof -
  have "CHR ''.'' \<notin> set (Itoa (Unix t))"
    using nat_str_notin [OF dot_not_digit] by (auto simp: Itoa_def)
  then have "Split (Itoa (Unix t) @ CHR ''.'' # sfx) ''.'' = [Itoa (Unix t), sfx]"
    using assms(3) by (auto simp: Split_char_append Split_char_notin)
  then show ?thesis
    using assms by (auto simp: fileNameToRunTime_def runTimeToFileName_def ParseInt_Itoa Let_def)
qed

lemma outputName_plain:
  assumes "sfx = ''stdout'' \<or> sfx = ''stderr''"
  shows "plain_name (runTimeToFileName t sfx)"
proof -
  have "CHR ''/'' \<notin> set (Itoa (Unix t))"
    using nat_str_notin [of "CHR ''/''"] by (auto simp: Itoa_def is_digit_def)
  moreover have "length (runTimeToFileName t sfx) > 2" using assms by (auto simp: runTimeToFileName_def)
  ultimately show ?thesis using assms by (auto simp: plain_name_def runTimeToFileName_def)
qed

lemma young_output:
  assumes "Sub now t < (maxAge + 1) * (24 * Hour_dur)" "0 \<le> maxAge"
  shows "trunc_div (saturate (Sub now t)) (24 * Hour_dur) \<le> maxAge"
proof (cases "saturate (Sub now t) < 0")
  case True
  then have "0 \<le> - saturate (Sub now t) div (24 * Hour_dur)"
    by (intro pos_imp_zdiv_nonneg_iff [THEN iffD2]) (simp_all add: Hour_dur_def Second_dur_def)
  then show ?thesis using assms(2) True by (simp add: trunc_div_def)
next
  case False
  then have "saturate (Sub now t) < (maxAge + 1) * (24 * Hour_dur)" using assms by (simp add: saturate_def)
  then have "saturate (Sub now t) div (24 * Hour_dur) < maxAge + 1"
    unfolding Hour_dur_def Second_dur_def by simp
  then show ?thesis using False by (simp add: trunc_div_def)
qed

definition too_old :: "go_time \<Rightarrow> int \<Rightarrow> string \<Rightarrow> bool" where
  "too_old now maxAge name \<longleftrightarrow> (\<exists>age. ageOfFileInDays name now = Ok age \<and> maxAge < age)"

lemma log_err_os [simp]: "w_os (log_err msg w) = w_os w"
  by (simp add: log_err_def)

lemma age_no_panic: "ageOfFileInDays name now \<noteq> Panic p"
  by (auto simp: ageOfFileInDays_def fileNameToRunTime_def outcome_simps Let_def split: outcome.splits if_splits)

lemma try_os_Remove:
  "faults (w_os w) = [] \<Longrightarrow> w_os (try_os (os_Remove q) w) = (w_os w)\<lparr>files := (files (w_os w))(q := None)\<rparr>"
  by (cases "files (w_os w) q") (auto simp: try_os_def os_Remove_def fun_upd_idem)

lemma try_os_WriteFile:
  "faults (w_os w) = [] \<Longrightarrow> w_os (try_os (os_WriteFile q data) w) = (w_os w)\<lparr>files := (files (w_os w))(q \<mapsto> data)\<rparr>"
  by (simp add: try_os_def os_WriteFile_def)

lemma delete_loop_spec:
  assumes "faults (w_os w) = []"
  shows "faults (w_os (delete_loop now dir maxAge entries w)) = [] \<and>
    files (w_os (delete_loop now dir maxAge entries w)) =
      (\<lambda>q. if \<exists>name. (name, True) \<in> set entries \<and> too_old now maxAge name \<and> q = filepath_Join [dir, name]
           then None else files (w_os w) q)"
  using assms
proof (induction now dir maxAge entries w rule: delete_loop.induct)
  case (1 now dir maxAge w)
  then show ?case by simp
next
  case (2 now dir maxAge name isRegular entries w)
  show ?case
  proof (cases "isRegular \<and> too_old now maxAge name")
    case True
    then obtain age where age: "ageOfFileInDays name now = Ok age" "maxAge < age" by (auto simp: too_old_def)
    have f: "faults (w_os (try_os (os_Remove (filepath_Join [dir, name])) w)) = []"
      using 2(4) by (simp add: try_os_Remove)
    then show ?thesis
      using "2.IH"(2) [OF _ age(1)] True age 2(4) by (auto simp: try_os_Remove fun_eq_iff)
  next
    case False
    then show ?thesis
      using 2 age_no_panic [of name now] by (auto simp: too_old_def fun_eq_iff split: outcome.splits)
  qed
qed

text \<open>What \<open>ioutil.ReadDir\<close> promises: the regular files of a directory are those that exist in it.\<close>

definition listing_ok :: "(string \<Rightarrow> string option) \<Rightarrow> string \<Rightarrow> (string \<times> bool) list \<Rightarrow> bool" where
  "listing_ok fs d entries \<longleftrightarrow>
     (\<forall>n. plain_name n \<longrightarrow> ((n, True) \<in> set entries \<longleftrightarrow> fs (filepath_Join [d, n]) \<noteq> None)) \<and>
     (\<forall>(n, r) \<in> set entries. plain_name n)"

definition output_path :: "string \<Rightarrow> RunRec \<Rightarrow> string \<Rightarrow> string" where
  "output_path dirPath rec sfx = filepath_Join [dirPath, runTimeToFileName (RunTime rec) sfx]"

definition with_outputs :: "string \<Rightarrow> ResultSinkDataParam \<Rightarrow> RunRec \<Rightarrow> (string \<Rightarrow> string option) \<Rightarrow> string \<Rightarrow> string option" where
  "with_outputs dirPath data rec fs =
     (let fs1 = (if data_Contains data RESULT_SINK_DATA_STDOUT
                 then fs(output_path dirPath rec ''stdout'' \<mapsto> bytes_of (Stdout rec)) else fs)
      in if data_Contains data RESULT_SINK_DATA_STDERR
         then fs1(output_path dirPath rec ''stderr'' \<mapsto> bytes_of (Stderr rec)) else fs1)"

lemma Filesystem_Handle_files:
  fixes data :: ResultSinkDataParam and maxAge :: int
  assumes "faults (w_os w) = []" "\<forall>e. se_mkdir env (filepath_Join [dir, Name (RecJob rec)]) = Some e \<longrightarrow> IsExist e"
    "se_readdir env = (\<lambda>os d. Ok (lister os d))"
  defines "dirPath \<equiv> filepath_Join [dir, Name (RecJob rec)]"
  defines "fs1 \<equiv> with_outputs dirPath data rec (files (w_os w))"
  shows "files (w_os (FilesystemResultSink_Handle env dir data maxAge rec w)) =
    (\<lambda>q. if \<exists>name. (name, True) \<in> set (lister ((w_os w)\<lparr>files := fs1\<rparr>) dirPath) \<and>
             too_old (se_now env) maxAge name \<and> q = filepath_Join [dirPath, name]
         then None else fs1 q)"
proof -
  let ?put_file = "\<lambda>wanted sfx bytes w.
      if wanted then try_os (os_WriteFile (filepath_Join [dirPath, runTimeToFileName (RunTime rec) sfx]) bytes) w else w"
  let ?w = "?put_file (data_Contains data RESULT_SINK_DATA_STDERR) ''stderr'' (bytes_of (Stderr rec))
      (?put_file (data_Contains data RESULT_SINK_DATA_STDOUT) ''stdout'' (bytes_of (Stdout rec)) w)"
  define w1 where "w1 = ?w"
  have os: "w_os w1 = (w_os w)\<lparr>files := fs1\<rparr>"
    using assms(1) by (simp add: w1_def try_os_WriteFile fs1_def with_outputs_def output_path_def Let_def)
  have "FilesystemResultSink_Handle env dir data maxAge rec w = deleteOldOutputs env dirPath maxAge w1"
    using assms(2) by (simp add: w1_def FilesystemResultSink_Handle_def dirPath_def Let_def split: option.splits)
  also have "\<dots> = delete_loop (se_now env) dirPath maxAge (lister (w_os w1) dirPath) w1"
    by (simp add: deleteOldOutputs_def assms(3))
  finally have "FilesystemResultSink_Handle env dir data maxAge rec w =
      delete_loop (se_now env) dirPath maxAge (lister (w_os w1) dirPath) w1" .
  then show ?thesis
    using delete_loop_spec [of w1 "se_now env" dirPath maxAge "lister (w_os w1) dirPath"] assms(1) by (simp add: os cong: if_cong)
qed

text \<open>
  The filesystem sink, when the system calls succeed: for a run that is not older than the
  maximal age, each output the sink is asked for is afterwards in its file under the job's
  directory; no output file in that directory is older than the maximal age; and no other file
  is touched.
\<close>

theorem Filesystem_sink_outputs:
  assumes "faults (w_os w) = []" "\<forall>e. se_mkdir env (filepath_Join [dir, Name (RecJob rec)]) = Some e \<longrightarrow> IsExist e"
    "se_readdir env = (\<lambda>os d. Ok (lister os d))"
    "listing_ok (with_outputs (filepath_Join [dir, Name (RecJob rec)]) data rec (files (w_os w)))
       (filepath_Join [dir, Name (RecJob rec)])
       (lister ((w_os w)\<lparr>files := with_outputs (filepath_Join [dir, Name (RecJob rec)]) data rec (files (w_os w))\<rparr>)
         (filepath_Join [dir, Name (RecJob rec)]))"
    "CheckParams (FilesystemResultSink dir data maxAge) = None"
    "- (2 ^ 63) \<le> Unix (RunTime rec)" "Unix (RunTime rec) < 2 ^ 63"
    "Sub (se_now env) (Unix (RunTime rec) * Second_dur) < (maxAge + 1) * (24 * Hour_dur)"
  defines "dirPath \<equiv> filepath_Join [dir, Name (RecJob rec)]"
  defines "w' \<equiv> snd (sink_Handle env (FilesystemResultSink dir data maxAge) rec w)"
  shows "(data_Contains data RESULT_SINK_DATA_STDOUT \<longrightarrow>
      files (w_os w') (output_path dirPath rec ''stdout'') = Some (bytes_of (Stdout rec))) \<and>
    (data_Contains data RESULT_SINK_DATA_STDERR \<longrightarrow>
      files (w_os w') (output_path dirPath rec ''stderr'') = Some (bytes_of (Stderr rec))) \<and>
    (\<forall>name. plain_name name \<and> too_old (se_now env) maxAge name \<longrightarrow> files (w_os w') (filepath_Join [dirPath, name]) = None) \<and>
    (\<forall>q. (\<forall>name. is_Ok (fileNameToRunTime name) \<longrightarrow> q \<noteq> filepath_Join [dirPath, name]) \<longrightarrow> files (w_os w') q = files (w_os w) q)"
proof -
  let ?fs = "with_outputs dirPath data rec (files (w_os w))"
  let ?os = "(w_os w)\<lparr>files := ?fs\<rparr>"
  have fs: "files (w_os w') = (\<lambda>q. if \<exists>name. (name, True) \<in> set (lister ?os dirPath) \<and>
             too_old (se_now env) maxAge name \<and> q = filepath_Join [dirPath, name] then None else ?fs q)"
    unfolding w'_def dirPath_def sink_Handle.simps snd_conv by (rule Filesystem_Handle_files [OF assms(1-3)])
  have dp: "dirPath \<noteq> []" "1 \<le> maxAge" using assms(5) by (auto simp: dirPath_def filepath_Join_ne split: if_splits)
  have ls: "listing_ok ?fs dirPath (lister ?os dirPath)" using assms(4) by (simp add: dirPath_def)
  let ?name = "runTimeToFileName (RunTime rec)"
  note rt = fileName_roundtrip [OF assms(6,7)]
  have young: "\<not> too_old (se_now env) maxAge (?name sfx)" if "sfx = ''stdout'' \<or> sfx = ''stderr''" for sfx
    using young_output [OF assms(8)] dp(2) rt [OF that] by (auto simp: too_old_def ageOfFileInDays_def)
  have keep: "files (w_os w') (output_path dirPath rec sfx) = ?fs (output_path dirPath rec sfx)"
    if "sfx = ''stdout'' \<or> sfx = ''stderr''" for sfx
  proof -
    have "\<not> (\<exists>name. (name, True) \<in> set (lister ?os dirPath) \<and> too_old (se_now env) maxAge name \<and>
        output_path dirPath rec sfx = filepath_Join [dirPath, name])"
      using young [OF that] outputName_plain [OF that] ls dp(1)
      unfolding listing_ok_def output_path_def by (metis (no_types, lifting) case_prodD filepath_Join_inj)
    then show ?thesis by (simp only: fs if_False)
  qed
  have ne: "output_path dirPath rec ''stdout'' \<noteq> output_path dirPath rec ''stderr''"
    using filepath_Join_inj [OF outputName_plain outputName_plain dp(1)]
    unfolding output_path_def by (force simp: runTimeToFileName_def)
  have old: "files (w_os w') (filepath_Join [dirPath, name]) = None" if "plain_name name" "too_old (se_now env) maxAge name" for name
    using that ls by (auto simp: fs listing_ok_def)
  have frame: "files (w_os w') q = files (w_os w) q"
    if "\<And>name. is_Ok (fileNameToRunTime name) \<Longrightarrow> q \<noteq> filepath_Join [dirPath, name]" for q
  proof -
    have "is_Ok (fileNameToRunTime name)" if "too_old (se_now env) maxAge name" for name
      using that by (auto simp: too_old_def ageOfFileInDays_def outcome_simps)
    moreover have "?fs q = files (w_os w) q"
      using that [of "?name ''stdout''"] that [of "?name ''stderr''"] rt by (auto simp: with_outputs_def output_path_def Let_def)
    ultimately show ?thesis using that by (auto simp: fs)
  qed
  show ?thesis using keep ne old frame by (auto simp: with_outputs_def Let_def)
qed

text \<open>
  A run at the start of 1970, kept by a sink with a maximal age of ten days, on an empty file
  system. The directory lists the two names that this run can leave in it.
\<close>

definition sample_rec :: RunRec where
  "sample_rec = \<lparr>RecJob = empty_job, RunTime = 0, NewStatus = JobGood, Stdout = Some ''out'', Stderr = Some ''err'',
     RecFate = SubprocFateSucceeded, RecExecTime = 0, Err = None\<rparr>"

definition sample_world :: world where
  "sample_world = \<lparr>w_os = \<lparr>files = Map.empty, faults = []\<rparr>, w_stdout = [], w_log = [], w_errlog = [], w_registry = []\<rparr>"

definition sample_env :: sink_env where
  "sample_env = \<lparr>se_exec = (\<lambda>_ _. sample_process), se_mkdir = (\<lambda>_. None),
     se_readdir = (\<lambda>_ _. Ok [(''0.stdout'', True), (''0.stderr'', True)]), se_now = 0, se_loc = (\<lambda>_. 0)\<rparr>"

lemma sample_names: "runTimeToFileName (RunTime sample_rec) sfx = ''0.'' @ sfx"
  by (simp add: runTimeToFileName_def sample_rec_def Unix_def Itoa_def nat_str.simps digit_char_def char_of_def bit_0)

lemma sample_listing:
  "listing_ok (with_outputs ''/d/job'' 3 sample_rec Map.empty) ''/d/job'' [(''0.stdout'', True), (''0.stderr'', True)]"
proof -
  have c: "data_Contains 3 RESULT_SINK_DATA_STDOUT" "data_Contains 3 RESULT_SINK_DATA_STDERR" by code_simp+
  have plain: "plain_name ''0.stdout''" "plain_name ''0.stderr''" by (simp_all add: plain_name_def)
  have "with_outputs ''/d/job'' 3 sample_rec Map.empty q \<noteq> None \<longleftrightarrow>
      q = filepath_Join [''/d/job'', ''0.stdout''] \<or> q = filepath_Join [''/d/job'', ''0.stderr'']" for q
    by (simp add: with_outputs_def c output_path_def sample_names Let_def)
  then show ?thesis
    using plain filepath_Join_inj [of _ "''0.stdout''" "''/d/job''"] filepath_Join_inj [of _ "''0.stderr''" "''/d/job''"]
    by (auto simp: listing_ok_def)
qed

theorem Filesystem_sink_outputs_witness:
  "files (w_os (snd (sink_Handle sample_env (FilesystemResultSink ''/d'' 3 10) sample_rec sample_world)))
     (output_path ''/d/job'' sample_rec ''stdout'') = Some ''out''"
proof -
  have d: "filepath_Join [''/d'', Name (RecJob sample_rec)] = ''/d/job''" by code_simp
  have c: "data_Contains 3 RESULT_SINK_DATA_STDOUT" by code_simp
  have s: "Stdout sample_rec = Some ''out''" "RunTime sample_rec = 0" "se_now sample_env = 0"
    "faults (w_os sample_world) = []" "files (w_os sample_world) = Map.empty"
    "se_readdir sample_env = (\<lambda>os d. Ok ((\<lambda>_ _. [(''0.stdout'', True), (''0.stderr'', True)]) os d))"
    "\<forall>e. se_mkdir sample_env (filepath_Join [''/d'', Name (RecJob sample_rec)]) = Some e \<longrightarrow> IsExist e"
    by (simp_all add: sample_rec_def sample_env_def sample_world_def)
  have l: "listing_ok (with_outputs (filepath_Join [''/d'', Name (RecJob sample_rec)]) 3 sample_rec (files (w_os sample_world)))
      (filepath_Join [''/d'', Name (RecJob sample_rec)]) [(''0.stdout'', True), (''0.stderr'', True)]"
    using sample_listing by (simp only: d s(5))
  have p: "CheckParams (FilesystemResultSink ''/d'' 3 10) = None" by simp
  have t: "- (2 ^ 63) \<le> Unix (RunTime sample_rec)" "Unix (RunTime sample_rec) < 2 ^ 63"
    "Sub (se_now sample_env) (Unix (RunTime sample_rec) * Second_dur) < (10 + 1) * (24 * Hour_dur)"
    by (simp_all add: s Unix_def Sub_def Hour_dur_def Second_dur_def)
  show ?thesis
    using Filesystem_sink_outputs [OF s(4,7,6) l p t] c by (simp add: d s(1) bytes_of_def)
qed

section \<open>Sinks that run a program\<close>

text \<open>
  When the program of a result sink cannot be run at all (a temporary file, the fork or the
  wait fails), the sink panics after logging the error: the deferred \<open>Close\<close> dereferences the
  missing result. When the program runs, whether it fails or not, the sink returns.
\<close>

theorem command_sinks_panic:
  assumes "sink = SystemEmailResultSink \<and> args = [''sendmail'', JobUser (RecJob rec)] \<and> input = email_text rec \<or>
    sink = ProgramResultSink program version \<and> args = [program] \<and>
      input = (if Compare version (SemVer 1 4 0) < 0 then serializeRunRec_oldFormat (se_loc env) rec
               else SerializeRunRec rec (RESULT_SINK_DATA_STDOUT OR RESULT_SINK_DATA_STDERR))"
  shows "if is_Ok (fst (ExecAndWait (se_exec env) args input (w_os w, w_errlog w)))
    then fst (sink_Handle env sink rec w) = Ok ()
    else is_Panic (fst (sink_Handle env sink rec w))"
proof -
  have close: "fst (deferred_close (Some res) w1) = Ok ()" "is_Panic (fst (deferred_close None w1))" for res w1
    by (simp_all add: deferred_close_def ExecResult_Close_def)
  have fate: "res_Fate res \<noteq> SubprocFateCancelled"
    if "ExecAndWait (se_exec env) args input (w_os w, w_errlog w) = (Ok res, os1)" for res os1
    using that by (auto simp: ExecAndWait_def ExecAndWaitContext_def bind_io_def return_io_def panic_io_def fate_of_def Let_def
        split: prod.splits outcome.splits if_splits)
  show ?thesis
    using assms fate close
    by (cases "ExecAndWait (se_exec env) args input (w_os w, w_errlog w)"; cases "fst (ExecAndWait (se_exec env) args input (w_os w, w_errlog w))")
       (auto simp: SystemEmailResultSink_Handle_def ProgramResultSink_Handle_def in_world_def Let_def split_beta split: SubprocFate.splits)
qed

theorem command_sinks_panic_witness:
  "is_Panic (fst (sink_Handle sample_env SystemEmailResultSink sample_rec
      (sample_world\<lparr>w_os := \<lparr>files = Map.empty, faults = [True]\<rparr>\<rparr>))) \<and>
   fst (sink_Handle sample_env SystemEmailResultSink sample_rec sample_world) = Ok ()"
proof -
  let ?call = "ExecAndWait (se_exec sample_env) [''sendmail'', JobUser (RecJob sample_rec)] (email_text sample_rec)"
  have "\<not> is_Ok (fst (?call (\<lparr>files = Map.empty, faults = [True]\<rparr>, w_errlog sample_world)))"
    by (simp add: ExecAndWait_def ExecAndWaitContext_def TempFile_def on_files_def os_call_def Let_def)
  moreover have "is_Ok (fst (?call (w_os sample_world, w_errlog sample_world)))"
    using ExecAndWaitContext_ok [of "w_os sample_world"] by (simp add: ExecAndWait_def sample_world_def sample_env_def sample_process_def)
  ultimately show ?thesis
    using command_sinks_panic [where sink = SystemEmailResultSink and env = sample_env and rec = sample_rec
        and w = "sample_world\<lparr>w_os := \<lparr>files = Map.empty, faults = [True]\<rparr>\<rparr>"]
      command_sinks_panic [where sink = SystemEmailResultSink and env = sample_env and rec = sample_rec and w = sample_world]
    by simp
qed

end
