(* ===== verification/Job_Runner.thy ===== *)
theory Job_Runner
  imports Run_Record
begin

text \<open>
  Running a job and the job-runner thread (\<open>jobberrunner/job_runner_thread.go\<close>).

  \<open>RunJob\<close> returns the record, the job as it leaves it, and the changed world. The thread is a step
  relation: the goroutine that takes jobs off the queue, the goroutines that run them, and the
  main thread of the job manager, the only user of the thread, reduced to what it does with it:
  it receives records, cancels, reads the channel until it is closed, and starts the thread anew
  (\<open>replaceCurrJobfile\<close>, \<open>loadJobfile\<close>, \<open>runMainThread\<close> of \<open>jobberrunner/job_manager.go\<close>). The channel of
  run records has no buffer, so a send and its receive are one step.
\<close>

section \<open>Running a job\<close>

definition new_rec :: "Job \<Rightarrow> go_time \<Rightarrow> RunRec" where
  "new_rec job now = \<lparr>RecJob = job, RunTime = now, NewStatus = JobGood, Stdout = None, Stderr = None,
     RecFate = SubprocFateSucceeded, RecExecTime = 0, Err = None\<rparr>"

text \<open>What a run does to its job.\<close>

definition job_after :: "SubprocFate \<Rightarrow> go_time \<Rightarrow> Job \<Rightarrow> Job" where
  "job_after fate now job =
     (case fate of
        SubprocFateSucceeded \<Rightarrow> job\<lparr>Status := JobGood\<rparr>
      | SubprocFateFailed \<Rightarrow> Handle (JobErrorHandler job) job
      | SubprocFateCancelled \<Rightarrow> job)\<lparr>LastRunTime := now\<rparr>"

definition RunJob ::
    "(string list \<Rightarrow> string \<Rightarrow> process) \<Rightarrow> go_time \<Rightarrow> duration \<Rightarrow> string \<Rightarrow> bool \<Rightarrow> Job \<Rightarrow> world \<Rightarrow>
     (RunRec \<times> Job) outcome \<times> world" where
  "RunJob exec now elapsed shell testing job w =
     (let rec = new_rec job now in
      case in_world (ExecAndWaitContext exec True [shell, ''-c'', Cmd job] []) w of
        (Fail e, w0) \<Rightarrow>
          (Ok (rec\<lparr>Err := Some e\<rparr>, job),
           log_err (''Unexpected error from ExecAndWaitContext: '' @ Error_Error e @ [CHR 0x0A]) w0)
      | (Panic p, w0) \<Rightarrow> (Panic p, w0)
      | (Ok res, w0) \<Rightarrow>
          let (r, w1) =
            (case ReadStdout RunRecOutputMaxLen res (w_os w0) of
               (Fail e, os1) \<Rightarrow>
                 (Ok (rec\<lparr>Err := Some e\<rparr>, job),
                  log_err (''Failed to read job'' @ [CHR 0x27] @ ''s stdout: '' @ Error_Error e @ [CHR 0x0A]) (w0\<lparr>w_os := os1\<rparr>))
             | (Panic p, os1) \<Rightarrow> (Panic p, w0\<lparr>w_os := os1\<rparr>)
             | (Ok out, os1) \<Rightarrow>
                 (case ReadStderr RunRecOutputMaxLen res os1 of
                    (Fail e, os2) \<Rightarrow>
                      (Ok (rec\<lparr>Stdout := Some out, Err := Some e\<rparr>, job),
                       log_err (''Failed to read job'' @ [CHR 0x27] @ ''s stderr: '' @ Error_Error e @ [CHR 0x0A]) (w0\<lparr>w_os := os2\<rparr>))
                  | (Panic p, os2) \<Rightarrow> (Panic p, w0\<lparr>w_os := os2\<rparr>)
                  | (Ok err, os2) \<Rightarrow>
                      let rec1 = rec\<lparr>Stdout := Some out, Stderr := Some err, RecFate := res_Fate res,
                                     NewStatus := JobGood, RecExecTime := elapsed\<rparr>
                      in if testing then (Ok (rec1, job), w0\<lparr>w_os := os2\<rparr>)
                         else let job1 = job_after (res_Fate res) now job
                           in (Ok (rec1\<lparr>NewStatus := Status job1, RecJob := job1\<rparr>, job1), w0\<lparr>w_os := os2\<rparr>)))
          in (r, snd (deferred_close (Some res) w1)))"

lemma job_after_inv: "job_inv job \<Longrightarrow> job_inv (job_after fate now job)"
  using eh.handle_inv [of job "JobErrorHandler job"]
  by (auto simp: job_after_def job_inv_def split: SubprocFate.splits)

lemma job_after_static: "static_part (job_after fate now job) = (static_part job)\<lparr>LastRunTime := now\<rparr>"
  using eh.handle_static [of "JobErrorHandler job" job]
  by (cases job; cases "Handle (JobErrorHandler job) job") (auto simp: job_after_def static_part_def split: SubprocFate.splits)

text \<open>
  C17. A run, when the system calls around it succeed: the record has the beginning of the output
  and the fate of the process; the job ends good after a success, as its error handler leaves it
  after a failure, and with its old status after a cancellation; its invariant is kept, nothing
  else of it changes but the time of its last run, the record reports its new status, no
  temporary file is left, and the error log gains one line exactly if \<open>Wait\<close> returned an error, with the path
  of the shell and the text of the error.
\<close>

theorem RunJob_spec:
  assumes "faults (w_os w) = []" "fresh_temps (exec [shell, ''-c'', Cmd job] []) (w_os w)"
    "\<forall>e. waitErr (exec [shell, ''-c'', Cmd job] []) \<noteq> Some (WaitError e)" "job_inv job"
  defines "p \<equiv> exec [shell, ''-c'', Cmd job] []"
  shows "\<exists>rec job'. RunJob exec now elapsed shell False job w = (Ok (rec, job'),
      w\<lparr>w_errlog := w_errlog w @ (case waitErr p of None \<Rightarrow> []
        | Some e \<Rightarrow> [''ExecAndWait: '' @ cmdPath p @ '': '' @ wait_error_text e])\<rparr>) \<and>
    Err rec = None \<and> RecJob rec = job' \<and> NewStatus rec = Status job' \<and> RunTime rec = now \<and>
    Stdout rec = Some (take RunRecOutputMaxLen (outBytes p)) \<and> Stderr rec = Some (take RunRecOutputMaxLen (errBytes p)) \<and>
    RecFate rec = fate_of True p \<and> job_inv job' \<and> static_part job' = (static_part job)\<lparr>LastRunTime := now\<rparr> \<and>
    (case fate_of True p of
       SubprocFateSucceeded \<Rightarrow> Status job' = JobGood
     | SubprocFateFailed \<Rightarrow> job' = (Handle (JobErrorHandler job) job)\<lparr>LastRunTime := now\<rparr>
     | SubprocFateCancelled \<Rightarrow> Status job' = Status job)"
proof -
  let ?res = "\<lparr>res_Stdout = Some (tmpStdout p), res_Stderr = Some (tmpStderr p), res_Fate = fate_of True p\<rparr>"
  let ?os = "(w_os w)\<lparr>files := (files (w_os w))(tmpStdout p \<mapsto> outBytes p, tmpStderr p \<mapsto> errBytes p)\<rparr>"
  let ?job = "job_after (fate_of True p) now job"
  let ?w = "w\<lparr>w_errlog := w_errlog w @ wait_log p\<rparr>"
  have call: "in_world (ExecAndWaitContext exec True [shell, ''-c'', Cmd job] []) w = (Ok ?res, ?w\<lparr>w_os := ?os\<rparr>)"
    using ExecAndWaitContext_ok [where exec = exec and args = "[shell, ''-c'', Cmd job]" and input = "[]", OF assms(1)] assms(3)
    by (simp add: p_def in_world_def)
  have fresh: "tmpStdout p \<noteq> tmpStderr p" "files (w_os w) (tmpStdout p) = None" "files (w_os w) (tmpStderr p) = None"
    using assms(2) by (simp_all add: p_def fresh_temps_def)
  have read: "ReadStdout n ?res ?os = (Ok (take n (outBytes p)), ?os)" "ReadStderr n ?res ?os = (Ok (take n (errBytes p)), ?os)" for n
    using assms(1) fresh(1) by (simp_all add: ReadStdout_def ReadStderr_def result_read_def os_call_def)
  have close: "snd (deferred_close (Some ?res) (?w\<lparr>w_os := ?os\<rparr>)) = ?w"
  proof -
    have "snd (ExecResult_Close (Some ?res) ?os) = ?os\<lparr>files := (files ?os)(tmpStdout p := None, tmpStderr p := None)\<rparr>"
      using assms(1) by (intro Close_removes) simp_all
    moreover have "(files ?os)(tmpStdout p := None, tmpStderr p := None) = files (w_os w)" using fresh by auto
    ultimately have "snd (ExecResult_Close (Some ?res) ?os) = w_os w" by simp
    then show ?thesis by (simp add: deferred_close_def ExecResult_Close_def)
  qed
  let ?rec = "(new_rec job now)\<lparr>Stdout := Some (take RunRecOutputMaxLen (outBytes p)), Stderr := Some (take RunRecOutputMaxLen (errBytes p)),
      RecFate := fate_of True p, NewStatus := Status ?job, RecExecTime := elapsed, RecJob := ?job\<rparr>"
  have "RunJob exec now elapsed shell False job w = (Ok (?rec, ?job), ?w)"
    unfolding RunJob_def Let_def call read using close by (simp add: read new_rec_def)
  moreover have "case fate_of True p of
       SubprocFateSucceeded \<Rightarrow> Status ?job = JobGood
     | SubprocFateFailed \<Rightarrow> ?job = (Handle (JobErrorHandler job) job)\<lparr>LastRunTime := now\<rparr>
     | SubprocFateCancelled \<Rightarrow> Status ?job = Status job"
    by (auto simp: job_after_def split: SubprocFate.splits)
  ultimately show ?thesis
    using job_after_inv [OF assms(4)] job_after_static [of "fate_of True p" now job]
    by (intro exI [of _ ?rec] exI [of _ ?job]) (simp add: new_rec_def wait_log_def)
qed

definition failing_process :: process where
  "failing_process = \<lparr>cmdPath = ''/bin/sh'', tmpStdout = ''/tmp/1'', tmpStderr = ''/tmp/2'', outBytes = ''hello'', errBytes = [],
     waitErr = Some (ExitError ''exit status 1''), didCancel = False\<rparr>"

theorem RunJob_spec_witness:
  "\<exists>rec job'. RunJob (\<lambda>_ _. failing_process) 5 1 ''/bin/sh'' False empty_job sample_world = (Ok (rec, job'),
       sample_world\<lparr>w_errlog := [''ExecAndWait: /bin/sh: exit status 1'']\<rparr>) \<and>
     NewStatus rec = JobBackoff \<and> Status job' = JobBackoff \<and> RecFate rec = SubprocFateFailed"
proof -
  have a: "faults (w_os sample_world) = []" "fresh_temps failing_process (w_os sample_world)"
    "\<forall>e. waitErr failing_process \<noteq> Some (WaitError e)" "job_inv empty_job"
    by (simp_all add: sample_world_def fresh_temps_def failing_process_def job_inv_def empty_job_def)
  have e: "waitErr failing_process = Some (ExitError ''exit status 1'')" "cmdPath failing_process = ''/bin/sh''" "w_errlog sample_world = []"
    by (simp_all add: failing_process_def sample_world_def)
  have f: "fate_of True failing_process = SubprocFateFailed" by (simp add: fate_of_def failing_process_def)
  have h: "Status (Handle (JobErrorHandler empty_job) empty_job) = JobBackoff"
    by (simp add: empty_job_def handler_defs)
  show ?thesis
    using RunJob_spec [where exec = "\<lambda>_ _. failing_process" and shell = "''/bin/sh''" and job = empty_job and w = sample_world
        and now = 5 and elapsed = 1, OF a] f h e by (elim exE conjE) (simp add: f)
qed

section \<open>The thread\<close>

datatype chan_state = NilChan | OpenChan | ClosedChan

text \<open>Where the goroutine that takes jobs off the queue is.\<close>

datatype loop_phase = NoThread | Popping | Waiting | Closing

text \<open>What the main thread of the job manager is doing.\<close>

datatype main_phase = Serving | Draining bool | Starting | Exited

text \<open>
  \<open>active\<close> are the jobs being run; \<open>launched\<close> and \<open>delivered\<close> record which jobs were started and
  which records were received since the thread was last started.
\<close>

record runner =
  Running :: bool
  runRecChan :: chan_state
  ctxDone :: bool
  hasCancel :: bool
  loopAt :: loop_phase
  mainAt :: main_phase
  active :: "string list"
  launched :: "string list"
  delivered :: "string list"

definition RunRecChan :: "runner \<Rightarrow> chan_state" where
  "RunRecChan s = (if runRecChan s = NilChan then ClosedChan else runRecChan s)"

definition Start :: "runner \<Rightarrow> runner outcome" where
  "Start s =
     (if Running s then Panic ''JobRunnerThread already running.''
      else Ok (s\<lparr>Running := True, runRecChan := OpenChan, ctxDone := False, hasCancel := True, loopAt := Popping,
                 active := [], launched := [], delivered := []\<rparr>))"

definition Cancel :: "runner \<Rightarrow> runner" where
  "Cancel s = (if hasCancel s then s\<lparr>ctxDone := True\<rparr> else s)"

inductive runner_step :: "runner \<Rightarrow> runner outcome \<Rightarrow> bool" where
  pop_job: "loopAt s = Popping \<Longrightarrow>
    runner_step s (Ok (s\<lparr>active := job # active s, launched := job # launched s\<rparr>))"
| pop_nil: "loopAt s = Popping \<Longrightarrow> ctxDone s \<Longrightarrow> runner_step s (Ok (s\<lparr>loopAt := Waiting\<rparr>))"
| runs_ended: "loopAt s = Waiting \<Longrightarrow> active s = [] \<Longrightarrow>
    runner_step s (Ok (s\<lparr>Running := False, loopAt := Closing\<rparr>))"
| close_chan: "loopAt s = Closing \<Longrightarrow>
    runner_step s (if runRecChan s = ClosedChan then Panic ''close of closed channel''
      else Ok (s\<lparr>runRecChan := ClosedChan, loopAt := NoThread\<rparr>))"
| send_rec: "job \<in> set (active s) \<Longrightarrow> runRecChan s = OpenChan \<Longrightarrow> mainAt s = Serving \<or> (\<exists>b. mainAt s = Draining b) \<Longrightarrow>
    runner_step s (Ok (s\<lparr>active := remove1 job (active s), delivered := job # delivered s\<rparr>))"
| send_closed: "active s \<noteq> [] \<Longrightarrow> runRecChan s = ClosedChan \<Longrightarrow> runner_step s (Panic ''send on closed channel'')"
| replace_file: "mainAt s = Serving \<Longrightarrow> runner_step s (Ok ((Cancel s)\<lparr>mainAt := Draining True\<rparr>))"
| exit_main: "mainAt s = Serving \<Longrightarrow> runner_step s (Ok ((Cancel s)\<lparr>mainAt := Draining False\<rparr>))"
| reload_error: "mainAt s = Serving \<Longrightarrow> runner_step s (Ok (s\<lparr>mainAt := if Running s then Serving else Starting\<rparr>))"
| drained: "mainAt s = Draining again \<Longrightarrow> RunRecChan s = ClosedChan \<Longrightarrow>
    runner_step s (Ok (s\<lparr>mainAt := if again then Starting else Exited\<rparr>))"
| start: "mainAt s = Starting \<Longrightarrow>
    runner_step s (bind_outcome (Start s) (\<lambda>s1. Ok (s1\<lparr>mainAt := Serving\<rparr>)))"
| ended_early: "mainAt s = Serving \<Longrightarrow> RunRecChan s = ClosedChan \<Longrightarrow>
    runner_step s (Panic ''Job-runner thread ended prematurely.'')"

inductive_simps runner_step_iff: "runner_step s r"

text \<open>
  The job manager begins by loading the job file: it drains the nil channel, or, after an error,
  starts the thread because it is not running.
\<close>

definition runner_init :: "main_phase \<Rightarrow> runner" where
  "runner_init ph = \<lparr>Running = False, runRecChan = NilChan, ctxDone = False, hasCancel = False, loopAt = NoThread,
     mainAt = ph, active = [], launched = [], delivered = []\<rparr>"

inductive runner_reaches :: "runner outcome \<Rightarrow> bool" where
  init_load: "runner_reaches (Ok (runner_init (Draining True)))"
| init_error: "runner_reaches (Ok (runner_init Starting))"
| step: "runner_reaches (Ok s) \<Longrightarrow> runner_step s r \<Longrightarrow> runner_reaches r"

definition runner_inv :: "runner \<Rightarrow> bool" where
  "runner_inv s \<longleftrightarrow>
     (loopAt s = NoThread \<longrightarrow> runRecChan s \<noteq> OpenChan \<and> \<not> Running s \<and> active s = []) \<and>
     (loopAt s \<noteq> NoThread \<longrightarrow> runRecChan s = OpenChan \<and> hasCancel s) \<and>
     (loopAt s = Popping \<or> loopAt s = Waiting \<longrightarrow> Running s) \<and>
     (loopAt s = Closing \<longrightarrow> \<not> Running s \<and> active s = []) \<and>
     (loopAt s = Waiting \<or> loopAt s = Closing \<longrightarrow> ctxDone s) \<and>
     (mainAt s = Serving \<longrightarrow> loopAt s = Popping \<and> \<not> ctxDone s) \<and>
     ((\<exists>b. mainAt s = Draining b) \<longrightarrow> ctxDone s \<or> loopAt s = NoThread) \<and>
     (mainAt s = Starting \<or> mainAt s = Exited \<longrightarrow> loopAt s = NoThread) \<and>
     mset (launched s) = mset (delivered s) + mset (active s)"

lemma runner_inv_step:
  assumes "runner_step s r" "runner_inv s"
  shows "\<exists>s'. r = Ok s' \<and> runner_inv s'"
  using assms
  by (cases rule: runner_step.cases)
     (auto simp: runner_inv_def Start_def Cancel_def RunRecChan_def split: if_splits)

lemma runner_reaches_inv: "runner_reaches r \<Longrightarrow> \<exists>s. r = Ok s \<and> runner_inv s"
proof (induction rule: runner_reaches.induct)
  case (step s r)
  then show ?case using runner_inv_step by auto
qed (simp_all add: runner_init_def runner_inv_def)

text \<open>
  C18. The job-runner thread and its user, in every interleaving: nothing panics (the thread is
  never started while it runs, the channel is closed once, no record is sent after that, and the
  manager never finds it closed while it serves); when the channel reads as closed, the thread
  does not run and every job that was launched has delivered its record.
\<close>

theorem runner_safe:
  assumes "runner_reaches r"
  shows "\<exists>s. r = Ok s \<and> (RunRecChan s = ClosedChan \<longrightarrow>
    \<not> Running s \<and> active s = [] \<and> mset (delivered s) = mset (launched s))"
  using runner_reaches_inv [OF assms] by (auto simp: runner_inv_def RunRecChan_def split: if_splits)

text \<open>A run of one job, a shutdown, and the three steps in which the thread ends.\<close>

definition ending :: "nat \<Rightarrow> runner" where
  "ending i = (runner_init (Draining False))\<lparr>ctxDone := True, hasCancel := True, launched := [''j''], delivered := [''j''],
     loopAt := [Popping, Waiting, Closing, NoThread] ! i, Running := i < 2,
     runRecChan := if i < 3 then OpenChan else ClosedChan\<rparr>"

lemma ending_steps:
  "runner_step (ending 0) (Ok (ending 1))" "runner_step (ending 1) (Ok (ending 2))" "runner_step (ending 2) (Ok (ending 3))"
proof -
  have e1: "(ending 0)\<lparr>loopAt := Waiting\<rparr> = ending 1" "(ending 1)\<lparr>Running := False, loopAt := Closing\<rparr> = ending 2"
    "(ending 2)\<lparr>runRecChan := ClosedChan, loopAt := NoThread\<rparr> = ending 3"
    by (simp_all add: ending_def runner_init_def)
  show "runner_step (ending 0) (Ok (ending 1))"
    using pop_nil [of "ending 0"] unfolding e1 by (simp add: ending_def)
  show "runner_step (ending 1) (Ok (ending 2))"
    using runs_ended [of "ending 1"] unfolding e1 by (simp add: ending_def runner_init_def)
  show "runner_step (ending 2) (Ok (ending 3))"
    using close_chan [of "ending 2"] unfolding e1 by (simp add: ending_def)
qed

lemma ending_reached: "runner_reaches (Ok (ending 0))" "runner_reaches (Ok (ending 3))"
proof -
  let ?s = "(runner_init Starting)\<lparr>Running := True, runRecChan := OpenChan, hasCancel := True, loopAt := Popping, mainAt := Serving\<rparr>"
  have 1: "runner_reaches (Ok ?s)"
    using step [OF init_error start] by (simp add: runner_init_def Start_def)
  have 2: "runner_reaches (Ok (?s\<lparr>active := [''j''], launched := [''j'']\<rparr>))"
    using step [OF 1 pop_job [of _ "''j''"]] by (simp add: runner_init_def)
  have 3: "runner_reaches (Ok (?s\<lparr>launched := [''j''], delivered := [''j'']\<rparr>))"
    using step [OF 2 send_rec [of "''j''"]] by (simp add: runner_init_def)
  show 4: "runner_reaches (Ok (ending 0))"
    using step [OF 3 exit_main] by (simp add: runner_init_def Cancel_def ending_def)
  show "runner_reaches (Ok (ending 3))"
    using step [OF step [OF step [OF 4 ending_steps(1)] ending_steps(2)] ending_steps(3)] .
qed

theorem runner_safe_witness:
  "runner_reaches (Ok (ending 3)) \<and> RunRecChan (ending 3) = ClosedChan \<and> launched (ending 3) = [''j''] \<and>
   mset (delivered (ending 3)) = mset (launched (ending 3))"
  using runner_safe [OF ending_reached(2)] ending_reached(2) by (auto simp: RunRecChan_def ending_def)

text \<open>
  How many steps are left until the channel is closed, if no further job is launched. A launch while
  draining, which happens when the thread has taken a due job before it sees the cancellation, adds one.
\<close>

definition drain_measure :: "runner \<Rightarrow> nat" where
  "drain_measure s = length (active s) +
     (case loopAt s of Popping \<Rightarrow> 3 | Waiting \<Rightarrow> 2 | Closing \<Rightarrow> 1 | NoThread \<Rightarrow> 0)"

lemma drain_step:
  assumes "runner_step s (Ok s')" "runner_inv s" "mainAt s = Draining b" "mainAt s' = Draining b"
  shows "drain_measure s' + 1 + 2 * length (launched s) \<le> drain_measure s + 2 * length (launched s') \<and>
    length (launched s) \<le> length (launched s') \<and>
    (loopAt s \<noteq> Popping \<longrightarrow> loopAt s' \<noteq> Popping \<and> launched s' = launched s)"
  using assms
  by (cases rule: runner_step.cases)
     (auto simp: drain_measure_def runner_inv_def length_remove1 RunRecChan_def Start_def
       split: if_splits dest: length_pos_if_in_set)

text \<open>Sequences of steps in which the manager goes on draining.\<close>

lemma drain_steps:
  assumes "runner_inv (f 0)" "\<forall>i < n. runner_step (f i) (Ok (f (Suc i)))" "\<forall>i \<le> n. mainAt (f i) = Draining b" "i \<le> n"
  shows "runner_inv (f i) \<and> drain_measure (f i) + i + 2 * length (launched (f 0)) \<le> drain_measure (f 0) + 2 * length (launched (f i)) \<and>
    length (launched (f 0)) \<le> length (launched (f i))"
  using assms(4)
proof (induction i)
  case (Suc i)
  then have step: "runner_step (f i) (Ok (f (Suc i)))" and inv: "runner_inv (f i)" using assms(2) by simp_all
  have at: "mainAt (f i) = Draining b" "mainAt (f (Suc i)) = Draining b" using assms(3) Suc.prems by simp_all
  show ?case
    using drain_step [OF step inv at] runner_inv_step [OF step inv] Suc by auto
qed (simp add: assms(1))

lemma no_launch_after_popping:
  assumes "runner_inv (f 0)" "\<forall>i < n. runner_step (f i) (Ok (f (Suc i)))" "\<forall>i \<le> n. mainAt (f i) = Draining b"
    "loopAt (f i) \<noteq> Popping" "i + k \<le> n"
  shows "loopAt (f (i + k)) \<noteq> Popping \<and> launched (f (i + k)) = launched (f i)"
  using assms(5)
proof (induction k)
  case (Suc k)
  then have step: "runner_step (f (i + k)) (Ok (f (Suc (i + k))))" using assms(2) by simp
  have inv: "runner_inv (f (i + k))" using drain_steps [OF assms(1,2,3), of "i + k"] Suc.prems by simp
  have at: "mainAt (f (i + k)) = Draining b" "mainAt (f (Suc (i + k))) = Draining b" using assms(3) Suc.prems by simp_all
  show ?case using drain_step [OF step inv at] Suc by auto
qed (simp add: assms(4))

lemma drain_not_stuck:
  assumes "runner_inv s" "mainAt s = Draining b" "RunRecChan s \<noteq> ClosedChan"
  shows "\<exists>s'. runner_step s (Ok s') \<and> mainAt s' = Draining b \<and> launched s' = launched s"
proof (cases "loopAt s")
  case NoThread
  then show ?thesis using assms by (auto simp: runner_inv_def RunRecChan_def split: if_splits) (metis chan_state.exhaust)
next
  case Popping
  then have "ctxDone s" using assms by (auto simp: runner_inv_def)
  then show ?thesis using pop_nil [OF Popping] assms(2) by (intro exI) auto
next
  case Waiting
  show ?thesis
  proof (cases "active s")
    case Nil
    then show ?thesis using runs_ended [OF Waiting Nil] assms(2) by (intro exI) auto
  next
    case (Cons job js)
    have "runner_step s (Ok (s\<lparr>active := remove1 job (active s), delivered := job # delivered s\<rparr>))"
      using assms Waiting Cons by (intro send_rec) (auto simp: runner_inv_def)
    then show ?thesis
      using assms(2) by (intro exI [of _ "s\<lparr>active := remove1 job (active s), delivered := job # delivered s\<rparr>"]) simp
  qed
next
  case Closing
  then have "runRecChan s = OpenChan" using assms(1) by (simp add: runner_inv_def)
  then show ?thesis
    using close_chan [OF Closing] assms(2) by (intro exI [of _ "s\<lparr>runRecChan := ClosedChan, loopAt := NoThread\<rparr>"]) simp
qed


text \<open>The thread launches one more job after the cancellation, and then ends.\<close>

definition late_launch :: "nat \<Rightarrow> runner" where
  "late_launch i = (ending (i - 2))\<lparr>launched := if i = 0 then [''j''] else [''k'', ''j''],
     delivered := if i \<le> 1 then [''j''] else [''k'', ''j''], active := if i = 1 then [''k''] else []\<rparr>"

lemma late_launch_steps: "i < 5 \<Longrightarrow> runner_step (late_launch i) (Ok (late_launch (Suc i)))"
proof -
  have d: "(late_launch 0)\<lparr>active := [''k''], launched := [''k'', ''j'']\<rparr> = late_launch 1"
    "(late_launch 1)\<lparr>active := [], delivered := [''k'', ''j'']\<rparr> = late_launch 2"
    "(late_launch 2)\<lparr>loopAt := Waiting\<rparr> = late_launch 3"
    "(late_launch 3)\<lparr>Running := False, loopAt := Closing\<rparr> = late_launch 4"
    "(late_launch 4)\<lparr>runRecChan := ClosedChan, loopAt := NoThread\<rparr> = late_launch 5"
    by (simp_all add: late_launch_def ending_def runner_init_def)
  have 0: "runner_step (late_launch 0) (Ok (late_launch 1))"
    using pop_job [of "late_launch 0" "''k''"] unfolding d(1) [symmetric] by (simp add: late_launch_def ending_def runner_init_def)
  have 1: "runner_step (late_launch 1) (Ok (late_launch 2))"
    using send_rec [of "''k''" "late_launch 1"] unfolding d(2) [symmetric]
    by (auto simp: late_launch_def ending_def runner_init_def intro: exI [of _ False])
  have 2: "runner_step (late_launch 2) (Ok (late_launch 3))"
    using pop_nil [of "late_launch 2"] unfolding d(3) by (simp add: late_launch_def ending_def)
  have 3: "runner_step (late_launch 3) (Ok (late_launch 4))"
    using runs_ended [of "late_launch 3"] unfolding d(4) by (simp add: late_launch_def ending_def)
  have 4: "runner_step (late_launch 4) (Ok (late_launch 5))"
    using close_chan [of "late_launch 4"] unfolding d(5) by (simp add: late_launch_def ending_def)
  assume "i < 5"
  then consider "i = 0" | "i = 1" | "i = 2" | "i = 3" | "i = 4" by linarith
  then show ?thesis
    using 0 1 2 3 4 by cases (simp_all add: eval_nat_numeral)
qed


end
