(* ===== verification/Job_Manager.thy ===== *)
theory Job_Manager
  imports Job_Runner
begin

text \<open>
  The job manager of a user (\<open>jobberrunner/job_manager.go\<close>), its commands
  (\<open>jobberrunner/cmd_*.go\<close>, \<open>ipc/commands.go\<close>), the logger targets (\<open>common/logging.go\<close>) and the
  server of test runs (\<open>jobberrunner/testjob\<close>).

  Every change of the manager's state happens on its main thread, so an operation is a function
  from state to state. The job file is an option: a nil pointer is \<^term>\<open>None\<close>. What the world
  outside decides is the record \<open>jm_env\<close>. The records that the manager receives while it waits for
  the job-runner thread to end are an argument, \<open>recs\<close>. An operation gives \<^term>\<open>None\<close> when it never
  returns, because a schedule's evaluation does not.
\<close>

section \<open>State\<close>

record TestJobServer =
  ts_dirs :: "string list"
  ts_serving :: "(string \<times> string) list"

record JobManager =
  jm_user :: user
  jm_jobfilePath :: string
  jm_launched :: bool
  jm_jfile :: "JobFile option"
  jm_running :: bool
  jm_logFile :: "string option"
  jm_testJobServer :: TestJobServer
  jm_world :: world

record jm_env =
  je_sinks :: sink_env
  je_yaml :: yaml_lib
  je_dup :: "JobFileV3Raw \<Rightarrow> JobFileV3Raw"
  je_show :: "JobFileV3Raw \<Rightarrow> string"
  je_rand :: "nat \<Rightarrow> nat \<Rightarrow> nat \<Rightarrow> nat"
  je_listen :: "serverId \<Rightarrow> error option"
  je_logTmp :: string
  je_stat1 :: "file_stat outcome"
  je_stat2 :: "file_stat outcome"
  je_tempDir :: "string outcome"
  je_resolve :: "string \<Rightarrow> error option"
  je_listenUnix :: "string \<Rightarrow> error option"

section \<open>Loggers\<close>

definition os_OpenAppend :: "string \<Rightarrow> os \<Rightarrow> unit outcome \<times> os" where
  "os_OpenAppend p = os_call (\<lambda>os.
     (Ok (), case files os p of None \<Rightarrow> os\<lparr>files := (files os)(p \<mapsto> [])\<rparr> | Some _ \<Rightarrow> os))"

definition SetLogFile :: "string \<Rightarrow> JobManager \<Rightarrow> JobManager" where
  "SetLogFile p m =
     (case os_OpenAppend p (w_os (jm_world m)) of
        (Ok _, os) \<Rightarrow> m\<lparr>jm_logFile := Some p, jm_world := (jm_world m)\<lparr>w_os := os\<rparr>\<rparr>
      | (_, os) \<Rightarrow> m\<lparr>jm_world := log_err (''Failed to open log file '' @ p) ((jm_world m)\<lparr>w_os := os\<rparr>)\<rparr>)"

definition LogToStdoutStderr :: "JobManager \<Rightarrow> JobManager" where
  "LogToStdoutStderr m = m\<lparr>jm_logFile := None\<rparr>"

section \<open>Run records\<close>

definition RunLog_Put :: "string \<Rightarrow> RunLogEntry \<Rightarrow> RunLog \<Rightarrow> os \<Rightarrow> unit outcome \<times> RunLog \<times> os" where
  "RunLog_Put tmp entry log os =
     (case log of
        MemLog l \<Rightarrow>
          (case mem_Put entry l of
             Ok l1 \<Rightarrow> (Ok (), MemLog l1, os) | Fail e \<Rightarrow> (Fail e, log, os) | Panic p \<Rightarrow> (Panic p, log, os))
      | FileLog l \<Rightarrow> (case file_Put tmp l entry os of (r, l1, os1) \<Rightarrow> (r, FileLog l1, os1)))"

definition RunLog_GetAll :: "RunLog \<Rightarrow> os \<Rightarrow> RunLogEntry list outcome \<times> os" where
  "RunLog_GetAll log os =
     (case log of MemLog l \<Rightarrow> (mem_GetAll l, os) | FileLog l \<Rightarrow> file_GetAll l os)"

definition entry_of_rec :: "RunRec \<Rightarrow> RunLogEntry" where
  "entry_of_rec rec = \<lparr>JobName = Name (RecJob rec), RunLogTime = RunTime rec, Fate = RecFate rec,
     RunResult = NewStatus rec, ExecTime = RecExecTime rec\<rparr>"

definition sinksToNotify :: "RunRec \<Rightarrow> ResultSink list" where
  "sinksToNotify rec =
     (if RecFate rec = SubprocFateSucceeded then NotifyOnSuccess (RecJob rec)
      else if RecFate rec = SubprocFateFailed then NotifyOnError (RecJob rec) else []) @
     (if NewStatus rec = JobFailed then NotifyOnFailure (RecJob rec) else [])"

fun notify :: "sink_env \<Rightarrow> RunRec \<Rightarrow> ResultSink list \<Rightarrow> world \<Rightarrow> unit outcome \<times> world" where
  "notify env rec [] w = (Ok (), w)"
| "notify env rec (sink # sinks) w =
     (case sink_Handle env sink rec w of
        (Panic p, w1) \<Rightarrow> (Panic p, w1)
      | (_, w1) \<Rightarrow> notify env rec sinks w1)"

definition with_log :: "RunLog \<Rightarrow> JobFile \<Rightarrow> JobFile" where
  "with_log log jf = jf\<lparr>jf_Prefs := (jf_Prefs jf)\<lparr>RunLogPref := log\<rparr>\<rparr>"

text \<open>The error that the run log returns is dropped.\<close>

definition handleRunRec :: "jm_env \<Rightarrow> RunRec \<Rightarrow> JobManager \<Rightarrow> unit outcome \<times> JobManager" where
  "handleRunRec env rec m =
     (case Err rec of
        Some e \<Rightarrow>
          (Panic (Error_Error e @ [CHR 0x0A]), m\<lparr>jm_world := log_err (Error_Error e) (jm_world m)\<rparr>)
      | None \<Rightarrow>
          (case jm_jfile m of
             None \<Rightarrow> (Panic ''nil pointer dereference'', m)
           | Some jf \<Rightarrow>
               (case RunLog_Put (je_logTmp env) (entry_of_rec rec) (RunLogPref (jf_Prefs jf)) (w_os (jm_world m)) of
                  (r, log, os) \<Rightarrow>
                    let m1 = m\<lparr>jm_jfile := Some (with_log log jf), jm_world := (jm_world m)\<lparr>w_os := os\<rparr>\<rparr> in
                    if is_Panic r then (r, m1)
                    else (case notify (je_sinks env) rec (sinksToNotify rec) (jm_world m1) of
                            (r1, w1) \<Rightarrow> (r1, m1\<lparr>jm_world := w1\<rparr>)))))"

fun handleRunRecs :: "jm_env \<Rightarrow> RunRec list \<Rightarrow> JobManager \<Rightarrow> unit outcome \<times> JobManager" where
  "handleRunRecs env [] m = (Ok (), m)"
| "handleRunRecs env (rec # recs) m = bind_io (handleRunRec env rec) (\<lambda>_. handleRunRecs env recs) m"

section \<open>Loading the job file\<close>

text \<open>\<open>jobRunner.Start(self.jfile.Jobs, self.Shell)\<close>.\<close>

definition startRunner :: "JobManager \<Rightarrow> unit outcome \<times> JobManager" where
  "startRunner m =
     (if jm_jfile m = None then (Panic ''nil pointer dereference'', m)
      else if jm_running m then (Panic ''JobRunnerThread already running.'', m)
      else (Ok (), m\<lparr>jm_running := True\<rparr>))"

definition set_loggers :: "JobFile \<Rightarrow> JobManager \<Rightarrow> JobManager" where
  "set_loggers jf m = (if length (LogPath (jf_Prefs jf)) > 0 then SetLogFile (LogPath (jf_Prefs jf)) m else LogToStdoutStderr m)"

text \<open>The job-runner thread has ended when its channel is closed.\<close>

definition replaceCurrJobfile ::
    "jm_env \<Rightarrow> RunRec list \<Rightarrow> JobFileV3Raw \<Rightarrow> JobManager \<Rightarrow> (unit outcome \<times> JobManager) option" where
  "replaceCurrJobfile env recs raw m =
     (case handleRunRecs env recs m of
        (Ok _, m1) \<Rightarrow>
          (case Activate (je_yaml env) (je_rand env) (je_listen env) (jm_user m1) raw (w_os (jm_world m1)) (w_registry (jm_world m1)) of
             None \<Rightarrow> None
           | Some (r, os, registry) \<Rightarrow>
               let m2 = m1\<lparr>jm_running := False, jm_world := (jm_world m1)\<lparr>w_os := os, w_registry := registry\<rparr>\<rparr> in
               (case r of
                  Ok jf \<Rightarrow> Some (startRunner (set_loggers jf (m2\<lparr>jm_jfile := Some jf\<rparr>)))
                | Fail e \<Rightarrow>
                    Some (startRunner (m2\<lparr>jm_jfile := None, jm_world := log_err
                      (''Error loading jobfile. Reloading previous one. '' @ Error_Error e @ [CHR 0x0A]) (jm_world m2)\<rparr>))
                | Panic p \<Rightarrow> Some (Panic p, m2)))
      | r \<Rightarrow> Some r)"

definition with_problem :: "error \<Rightarrow> error" where
  "with_problem e = (if IsNotExist e then Error ''Problem with jobfile'' (Some e) else e)"

text \<open>\<open>openJobfile\<close> returns nil and no error if the job file may not be loaded but no reason is given.\<close>

definition openJobfile :: "jm_env \<Rightarrow> JobManager \<Rightarrow> JobFileV3Raw option outcome \<times> JobManager" where
  "openJobfile env m =
     (case os_Open (jm_jobfilePath m) (w_os (jm_world m)) of
        (Fail e, os) \<Rightarrow> (Fail e, m\<lparr>jm_world := (jm_world m)\<lparr>w_os := os\<rparr>\<rparr>)
      | (Panic p, os) \<Rightarrow> (Panic p, m\<lparr>jm_world := (jm_world m)\<lparr>w_os := os\<rparr>\<rparr>)
      | (Ok _, os) \<Rightarrow>
          let m1 = m\<lparr>jm_world := (jm_world m)\<lparr>w_os := os\<rparr>\<rparr>;
              contents = (case files os (jm_jobfilePath m) of Some c \<Rightarrow> c | None \<Rightarrow> []) in
          (case ShouldLoadJobfile (jm_user m) (je_stat1 env) (je_stat2 env) of
             Fail e \<Rightarrow> (Fail (with_problem e), m1)
           | Panic p \<Rightarrow> (Panic p, m1)
           | Ok jobfileGood \<Rightarrow>
               if \<not> jobfileGood then (Ok None, m1)
               else (case LoadJobfile (je_yaml env) contents of
                       Ok raw \<Rightarrow> (Ok (Some raw), m1) | Fail e \<Rightarrow> (Fail (with_problem e), m1) | Panic p \<Rightarrow> (Panic p, m1))))"

definition loadJobfile :: "jm_env \<Rightarrow> RunRec list \<Rightarrow> JobManager \<Rightarrow> (unit outcome \<times> JobManager) option" where
  "loadJobfile env recs m =
     (case openJobfile env m of
        (Ok jfile, m1) \<Rightarrow>
          replaceCurrJobfile env recs (case jfile of None \<Rightarrow> NewEmptyRawJobFile | Some raw \<Rightarrow> raw) m1
      | (Panic p, m1) \<Rightarrow> Some (Panic p, m1)
      | (Fail e, m1) \<Rightarrow>
          if IsNotExist e then replaceCurrJobfile env recs NewEmptyRawJobFile m1
          else if \<not> jm_running m1
          then (case startRunner m1 of (Ok _, m2) \<Rightarrow> Some (Fail e, m2) | r \<Rightarrow> Some r)
          else Some (Fail e, m1))"

text \<open>\<open>NewJobManager\<close> for the user that \<open>user.Current\<close> gave.\<close>

definition NewJobManager ::
    "jm_env \<Rightarrow> user \<Rightarrow> string \<Rightarrow> world \<Rightarrow> JobManager outcome option" where
  "NewJobManager env usr jobfilePath w =
     (case Activate (je_yaml env) (je_rand env) (je_listen env) usr NewEmptyRawJobFile (w_os w) (w_registry w) of
        None \<Rightarrow> None
      | Some (Ok jf, os, registry) \<Rightarrow>
          Some (Ok \<lparr>jm_user = usr, jm_jobfilePath = jobfilePath, jm_launched = False, jm_jfile = Some jf, jm_running = False,
            jm_logFile = None, jm_testJobServer = \<lparr>ts_dirs = [], ts_serving = []\<rparr>,
            jm_world = w\<lparr>w_os := os, w_registry := registry\<rparr>\<rparr>)
      | Some (Fail e, os, registry) \<Rightarrow> Some (Panic (Error_Error e))
      | Some (Panic p, os, registry) \<Rightarrow> Some (Panic p))"

section \<open>Commands\<close>

record JobDesc =
  jd_Name :: string
  jd_Status :: string
  jd_Schedule :: string
  jd_NextRunTime :: "go_time option"
  jd_NotifyOnSuccess :: string
  jd_NotifyOnErr :: string
  jd_NotifyOnFail :: string
  jd_ErrHandler :: string

record LogDesc =
  ld_Time :: go_time
  ld_Job :: string
  ld_Succeeded :: bool
  ld_Fate :: string
  ld_ExecTime :: duration
  ld_Result :: string

datatype ICmd =
    ReloadCmd
  | ListJobsCmd
  | LogCmd
  | TestCmd string
  | CatCmd string
  | PauseCmd "string list"
  | ResumeCmd "string list"
  | InitCmd
  | SetJobCmd string JobV3Raw
  | DeleteJobCmd string

datatype ICmdResp =
    ErrorCmdResp error
  | ReloadCmdResp nat
  | ListJobsCmdResp "JobDesc list"
  | LogCmdResp "LogDesc list"
  | TestCmdResp string
  | CatCmdResp string
  | PauseCmdResp nat
  | ResumeCmdResp nat
  | InitCmdResp string
  | SetJobCmdResp bool
  | DeleteJobCmdResp bool

datatype IpcServerType = IpcServerTypeUds | IpcServerTypeInet

text \<open>Commands on a manager whose job file pointer is nil dereference it.\<close>

definition with_jfile ::
    "(JobFile \<Rightarrow> ICmdResp outcome \<times> JobManager) \<Rightarrow> JobManager \<Rightarrow> ICmdResp outcome \<times> JobManager" where
  "with_jfile f m = (case jm_jfile m of None \<Rightarrow> (Panic ''nil pointer dereference'', m) | Some jf \<Rightarrow> f jf)"

definition doCatCmd :: "string \<Rightarrow> JobManager \<Rightarrow> ICmdResp outcome \<times> JobManager" where
  "doCatCmd jobName m = with_jfile (\<lambda>jf.
     (Ok (case map_of (jf_Jobs jf) jobName of
            None \<Rightarrow> ErrorCmdResp (Error ''No such job.'' None) | Some job \<Rightarrow> CatCmdResp (Cmd job)), m)) m"

definition resultSinksString :: "ResultSink list \<Rightarrow> string" where
  "resultSinksString sinks = Join (map ResultSink_String sinks) '',''"

definition jobDesc :: "Job \<Rightarrow> JobDesc" where
  "jobDesc j = \<lparr>jd_Name = Name j,
     jd_Status = JobStatus_String (Status j) @ (if Paused j then '' (Paused)'' else []),
     jd_Schedule = FullTimeSpec_String (JobTimeSpec j),
     jd_NextRunTime = (if Paused j then None else NextRunTime j),
     jd_NotifyOnSuccess = resultSinksString (NotifyOnSuccess j), jd_NotifyOnErr = resultSinksString (NotifyOnError j),
     jd_NotifyOnFail = resultSinksString (NotifyOnFailure j), jd_ErrHandler = ErrorHandler_String (JobErrorHandler j)\<rparr>"

definition doListJobsCmd :: "JobManager \<Rightarrow> ICmdResp outcome \<times> JobManager" where
  "doListJobsCmd m = with_jfile (\<lambda>jf. (Ok (ListJobsCmdResp (map (\<lambda>(name, j). jobDesc j) (jf_Jobs jf))), m)) m"

definition logDesc :: "RunLogEntry \<Rightarrow> LogDesc" where
  "logDesc l = \<lparr>ld_Time = RunLogTime l, ld_Job = JobName l, ld_Succeeded = (Fate l = SubprocFateSucceeded),
     ld_Fate = SubprocFate_String (Fate l), ld_ExecTime = ExecTime l, ld_Result = JobStatus_String (RunResult l)\<rparr>"

definition doLogCmd :: "JobManager \<Rightarrow> ICmdResp outcome \<times> JobManager" where
  "doLogCmd m = with_jfile (\<lambda>jf.
     (case RunLog_GetAll (RunLogPref (jf_Prefs jf)) (w_os (jm_world m)) of
        (r, os) \<Rightarrow>
          ((case r of Ok entries \<Rightarrow> Ok (LogCmdResp (map logDesc entries)) | Fail e \<Rightarrow> Ok (ErrorCmdResp e) | Panic p \<Rightarrow> Panic p),
           m\<lparr>jm_world := (jm_world m)\<lparr>w_os := os\<rparr>\<rparr>))) m"

text \<open>The jobs that a pause or resume command names, or the first name that is no job's.\<close>

fun find_missing :: "(string \<times> Job) list \<Rightarrow> string list \<Rightarrow> string option" where
  "find_missing jobs [] = None"
| "find_missing jobs (name # names) = (if map_of jobs name = None then Some name else find_missing jobs names)"

text \<open>
  Setting the flag of the jobs one after the other, counting those that change. A job named twice
  is the same job, changed once.
\<close>

fun set_paused :: "bool \<Rightarrow> string list \<Rightarrow> nat \<Rightarrow> (string \<times> Job) list \<Rightarrow> nat \<times> (string \<times> Job) list" where
  "set_paused b [] n jobs = (n, jobs)"
| "set_paused b (name # names) n jobs =
     (case map_of jobs name of
        None \<Rightarrow> set_paused b names n jobs
      | Some job \<Rightarrow>
          if Paused job \<noteq> b then set_paused b names (n + 1) (AList.update name (job\<lparr>Paused := b\<rparr>) jobs)
          else set_paused b names n jobs)"

definition pause_or_resume ::
    "bool \<Rightarrow> (nat \<Rightarrow> ICmdResp) \<Rightarrow> string list \<Rightarrow> JobManager \<Rightarrow> ICmdResp outcome \<times> JobManager" where
  "pause_or_resume b resp names m = with_jfile (\<lambda>jf.
     let names1 = (if length names = 0 then map fst (jf_Jobs jf) else names) in
     case find_missing (jf_Jobs jf) names1 of
       Some name \<Rightarrow> (Ok (ErrorCmdResp (Error (''No such job: '' @ name) None)), m)
     | None \<Rightarrow>
         (case set_paused b names1 0 (jf_Jobs jf) of
            (n, jobs) \<Rightarrow> (Ok (resp n), m\<lparr>jm_jfile := Some (jf\<lparr>jf_Jobs := jobs\<rparr>)\<rparr>))) m"

definition doPauseCmd :: "string list \<Rightarrow> JobManager \<Rightarrow> ICmdResp outcome \<times> JobManager" where
  "doPauseCmd names = pause_or_resume True PauseCmdResp names"

definition doResumeCmd :: "string list \<Rightarrow> JobManager \<Rightarrow> ICmdResp outcome \<times> JobManager" where
  "doResumeCmd names = pause_or_resume False ResumeCmdResp names"

text \<open>A command that replaces the job file and then answers.\<close>

definition after_replace ::
    "(unit outcome \<times> JobManager) option \<Rightarrow> (JobManager \<Rightarrow> ICmdResp outcome) \<Rightarrow> (ICmdResp outcome \<times> JobManager) option" where
  "after_replace r resp =
     (case r of
        None \<Rightarrow> None
      | Some (Ok _, m) \<Rightarrow> Some (resp m, m)
      | Some (Fail e, m) \<Rightarrow> Some (Ok (ErrorCmdResp e), m)
      | Some (Panic p, m) \<Rightarrow> Some (Panic p, m))"

definition doReloadCmd :: "jm_env \<Rightarrow> RunRec list \<Rightarrow> JobManager \<Rightarrow> (ICmdResp outcome \<times> JobManager) option" where
  "doReloadCmd env recs m = after_replace (loadJobfile env recs m)
     (\<lambda>m1. case jm_jfile m1 of None \<Rightarrow> Panic ''nil pointer dereference'' | Some jf \<Rightarrow> Ok (ReloadCmdResp (length (jf_Jobs jf))))"

text \<open>How \<open>%v\<close> shows a raw job file in the log is a parameter.\<close>

definition log_line :: "string \<Rightarrow> JobManager \<Rightarrow> JobManager" where
  "log_line msg m = m\<lparr>jm_world := log_out msg (jm_world m)\<rparr>"

definition doSetJobCmd :: "jm_env \<Rightarrow> RunRec list \<Rightarrow> string \<Rightarrow> JobV3Raw \<Rightarrow> JobManager \<Rightarrow> (ICmdResp outcome \<times> JobManager) option" where
  "doSetJobCmd env recs jobName jobRaw m =
     (let m1 = log_line ''doSetJobCmd'' m in
      case jm_jfile m1 of
        None \<Rightarrow> Some (Panic ''nil pointer dereference'', m1)
      | Some jf \<Rightarrow>
          let rawDup = je_dup env (jf_Raw jf);
              m2 = log_line ''Before replaceCurrJobfile'' (log_line (''After dup: '' @ je_show env rawDup) m1) in
          (case replaceCurrJobfile env recs (rawDup\<lparr>j3_Jobs := AList.update jobName jobRaw (j3_Jobs rawDup)\<rparr>) m2 of
             None \<Rightarrow> None
           | Some (Panic p, m3) \<Rightarrow> Some (Panic p, m3)
           | Some (_, m3) \<Rightarrow> Some (Ok (SetJobCmdResp True), log_line ''After replaceCurrJobfile'' m3)))"

definition doDeleteJobCmd :: "jm_env \<Rightarrow> RunRec list \<Rightarrow> string \<Rightarrow> JobManager \<Rightarrow> (ICmdResp outcome \<times> JobManager) option" where
  "doDeleteJobCmd env recs jobName m =
     (case jm_jfile m of
        None \<Rightarrow> Some (Panic ''nil pointer dereference'', m)
      | Some jf \<Rightarrow>
          after_replace (replaceCurrJobfile env recs
             \<lparr>j3_Version = SemVer_zero, j3_Prefs = j3_Prefs (jf_Raw jf),
              j3_Jobs = filter (\<lambda>(name, job). name \<noteq> jobName) (j3_Jobs (jf_Raw jf))\<rparr> m) (\<lambda>_. Ok (DeleteJobCmdResp True)))"

definition gDefaultJobfile :: string where
  "gDefaultJobfile = concat (map (\<lambda>l. l @ [CHR 0x0A])
     [''## This is your jobfile: use it to tell Jobber what jobs you want it to'',
      ''## run on your behalf.  For details of what you can specify here,'',
      ''## please see https://dshearer.github.io/jobber/doc/.'',
      ''##'',
      ''## It consists of two sections: '' @ [CHR 0x22] @ ''prefs'' @ [CHR 0x22] @ '' and '' @ [CHR 0x22] @ ''jobs'' @ [CHR 0x22] @ ''.  In '' @ [CHR 0x22] @ ''prefs'' @ [CHR 0x22] @ '' you can'',
      ''## set various general settings.  In '' @ [CHR 0x22] @ ''jobs'' @ [CHR 0x22] @ '', you define your jobs.'',
      [],
      ''version: 1.4'',
      [],
      ''prefs:'',
      ''  ## You can have the Jobber daemon keep a log of various activities'',
      ''  ## with the '' @ [CHR 0x22] @ ''logPath'' @ [CHR 0x22] @ '' setting; the log will be written to the given'',
      ''  ## path (if the path is relative, it will be interpreted relative to'',
      ''  ## your home directory).  Your user account must be able to write to'',
      ''  ## the given path.  NOTE: This is NOT where logs about job runs'',
      ''  ## are stored --- for that, see the '' @ [CHR 0x22] @ ''runLog'' @ [CHR 0x22] @ '' setting below.  WARNING:'',
      ''  ## Jobber will NOT rotate this file.'',
      ''  #logPath: jobber-log'',
      [],
      ''  ## You can specify how info about past runs is stored.  For'',
      ''  ## '' @ [CHR 0x22] @ ''type: memory'' @ [CHR 0x22] @ '' (the default), they are stored in memory and'',
      ''  ## are lost when the Jobber service stops.'',
      ''  #runLog:'',
      ''  #    type: memory'',
      ''  #    maxLen: 100  # the max number of entries to remember'',
      [],
      ''  ## For '' @ [CHR 0x22] @ ''type: file'' @ [CHR 0x22] @ '', past run logs are stored on disk.  The log file is'',
      ''  ## rotated when it reaches a size of '' @ [CHR 0x27] @ ''maxFileLen'' @ [CHR 0x27] @ '' MB.  Up to'',
      ''  ## '' @ [CHR 0x27] @ ''maxHistories'' @ [CHR 0x27] @ '' historical run logs (that is, not including the'',
      ''  ## current one) are kept.'',
      ''  #runLog:'',
      ''  #    type: file'',
      ''  #    path: /tmp/claudius'',
      ''  #    maxFileLen: 50m  # in MB'',
      ''  #    maxHistories: 5'',
      [],
      ''resultSinks:'',
      ''  #- &programSink'',
      ''  #  type: program'',
      ''  #  path: /home/handleError.sh'',
      [],
      ''  #- &systemEmailSink'',
      ''  #  type: system-email'',
      [],
      ''  #- &filesystemSink'',
      ''  #  type: filesystem'',
      ''  #  path: /path/to/dir'',
      ''  #  data: [stdout, stderr]'',
      ''  #  maxAgeDays: 10'',
      [],
      ''jobs:'',
      ''  ## This section must contain a YAML sequence of maps like the following:'',
      ''  #DailyBackup:'',
      ''  #    cmd: backup daily  # shell command to execute'',
      ''  #    time: '' @ [CHR 0x27] @ ''* * * * * *'' @ [CHR 0x27] @ ''  # SEC MIN HOUR MONTH_DAY MONTH WEEK_DAY.'',
      ''  #    onError: Continue  # what to do when the job has an error: Stop, Backoff, or Continue'',
      ''  #    notifyOnError: [*programSink]  # what to do with result when job has an error'',
      ''  #    notifyOnFailure: [*systemEmailSink, *programSink]  # what to do with result when the job stops due to errors'',
      ''  #    notifyOnSuccess: [*filesystemSink]  # what to do with result when the job succeeds''])"

text \<open>Opening with \<open>O_CREATE|O_EXCL\<close> fails on a file that exists.\<close>

definition os_OpenExcl :: "string \<Rightarrow> os \<Rightarrow> unit outcome \<times> os" where
  "os_OpenExcl p = os_call (\<lambda>os.
     case files os p of Some _ \<Rightarrow> (Fail exist_error, os) | None \<Rightarrow> (Ok (), os\<lparr>files := (files os)(p \<mapsto> [])\<rparr>))"

definition doInitCmd :: "JobManager \<Rightarrow> ICmdResp outcome \<times> JobManager" where
  "doInitCmd m =
     (case os_OpenExcl (jm_jobfilePath m) (w_os (jm_world m)) of
        (Fail e, os) \<Rightarrow>
          (Ok (ErrorCmdResp (if Contains (Error_Error e) ''file exists''
             then Error (''Jobfile already exists at '' @ jm_jobfilePath m @ [CHR 0x0A]) None else e)),
           m\<lparr>jm_world := (jm_world m)\<lparr>w_os := os\<rparr>\<rparr>)
      | (Panic p, os) \<Rightarrow> (Panic p, m\<lparr>jm_world := (jm_world m)\<lparr>w_os := os\<rparr>\<rparr>)
      | (Ok _, os) \<Rightarrow>
          (case file_WriteString (jm_jobfilePath m) gDefaultJobfile os of
             (Fail e, os1) \<Rightarrow> (Ok (ErrorCmdResp e), m\<lparr>jm_world := (jm_world m)\<lparr>w_os := os1\<rparr>\<rparr>)
           | (Panic p, os1) \<Rightarrow> (Panic p, m\<lparr>jm_world := (jm_world m)\<lparr>w_os := os1\<rparr>\<rparr>)
           | (Ok _, os1) \<Rightarrow> (Ok (InitCmdResp (jm_jobfilePath m)), m\<lparr>jm_world := (jm_world m)\<lparr>w_os := os1\<rparr>\<rparr>)))"

text \<open>\<open>TestJobServer.Launch\<close>: a directory for the socket, which goes away again if the socket cannot be made.\<close>

definition TestJobServer_Launch :: "jm_env \<Rightarrow> Job \<Rightarrow> TestJobServer \<Rightarrow> string outcome \<times> TestJobServer" where
  "TestJobServer_Launch env job self =
     (case je_tempDir env of
        Fail e \<Rightarrow> (Fail e, self)
      | Panic p \<Rightarrow> (Panic p, self)
      | Ok sockDir \<Rightarrow>
          let self1 = self\<lparr>ts_dirs := sockDir # ts_dirs self\<rparr>; sockPath = filepath_Join [sockDir, ''output.sock''] in
          (case je_resolve env sockPath of
             Some e \<Rightarrow> (Fail e, self1\<lparr>ts_dirs := removeAll sockDir (ts_dirs self1)\<rparr>)
           | None \<Rightarrow>
               (case je_listenUnix env sockPath of
                  Some e \<Rightarrow> (Fail e, self1\<lparr>ts_dirs := removeAll sockDir (ts_dirs self1)\<rparr>)
                | None \<Rightarrow> (Ok sockPath, self1\<lparr>ts_serving := (Name job, sockDir) # ts_serving self1\<rparr>))))"

definition doTestCmd :: "jm_env \<Rightarrow> string \<Rightarrow> JobManager \<Rightarrow> ICmdResp outcome \<times> JobManager" where
  "doTestCmd env jobName m = with_jfile (\<lambda>jf.
     case map_of (jf_Jobs jf) jobName of
       None \<Rightarrow> (Ok (ErrorCmdResp (Error ''No such job.'' None)), m)
     | Some job \<Rightarrow>
         (case TestJobServer_Launch env job (jm_testJobServer m) of
            (r, srv) \<Rightarrow>
              ((case r of Ok sockPath \<Rightarrow> Ok (TestCmdResp sockPath) | Fail e \<Rightarrow> Ok (ErrorCmdResp e) | Panic p \<Rightarrow> Panic p),
               m\<lparr>jm_testJobServer := srv, jm_world := log_out (''Trying job '' @ Name job @ [CHR 0x0A]) (jm_world m)\<rparr>))) m"

fun doCmd :: "jm_env \<Rightarrow> RunRec list \<Rightarrow> IpcServerType \<Rightarrow> ICmd \<Rightarrow> JobManager \<Rightarrow> (ICmdResp outcome \<times> JobManager) option" where
  "doCmd env recs serverType ReloadCmd m = doReloadCmd env recs m"
| "doCmd env recs serverType ListJobsCmd m = Some (doListJobsCmd m)"
| "doCmd env recs serverType LogCmd m = Some (doLogCmd m)"
| "doCmd env recs serverType (TestCmd jobName) m =
     (if serverType = IpcServerTypeInet
      then Some (Ok (ErrorCmdResp (Errno ([CHR 0x22] @ ''test'' @ [CHR 0x22] @ '' is no longer supported over TCP''))), m)
      else Some (doTestCmd env jobName m))"
| "doCmd env recs serverType (CatCmd jobName) m = Some (doCatCmd jobName m)"
| "doCmd env recs serverType (PauseCmd names) m = Some (doPauseCmd names m)"
| "doCmd env recs serverType (ResumeCmd names) m = Some (doResumeCmd names m)"
| "doCmd env recs serverType InitCmd m = Some (doInitCmd m)"
| "doCmd env recs serverType (SetJobCmd jobName jobRaw) m = doSetJobCmd env recs jobName jobRaw m"
| "doCmd env recs serverType (DeleteJobCmd jobName) m = doDeleteJobCmd env recs jobName m"

section \<open>The main thread\<close>

text \<open>
  The jobs of the job file are shared with the job-runner thread, which changes them between two
  turns of the main loop: it sets their next run times and asks whether they should run (\<open>Pop\<close>), and
  each run changes its job when it ends (\<open>RunJob\<close>).
\<close>

datatype job_change = NextRunSet "go_time option" | AskedToRun | RunEnded SubprocFate go_time

definition change_job :: "job_change \<Rightarrow> Job \<Rightarrow> Job" where
  "change_job ch job =
     (case ch of
        NextRunSet t \<Rightarrow> job\<lparr>NextRunTime := t\<rparr>
      | AskedToRun \<Rightarrow> snd (ShouldRun job)
      | RunEnded fate t \<Rightarrow> job_after fate t job)"

definition change_jobs :: "string \<Rightarrow> job_change \<Rightarrow> JobManager \<Rightarrow> JobManager" where
  "change_jobs name ch m = m\<lparr>jm_jfile := map_option (\<lambda>jf. jf\<lparr>jf_Jobs :=
     map (\<lambda>(n, job). (n, if n = name then change_job ch job else job)) (jf_Jobs jf)\<rparr>) (jm_jfile m)\<rparr>"

text \<open>
  One turn of the loop of \<open>runMainThread\<close>, or a change of a job by the job-runner thread. The result
  tells whether the loop goes on, and the response that was sent, if any. \<open>doCmd\<close> never asks to exit.
\<close>

datatype main_event =
    CtxDone
  | JobChanged string job_change
  | RecReceived RunRec
  | RecChanClosed
  | CmdReceived IpcServerType ICmd "RunRec list"
  | CmdChanClosed

definition main_step ::
    "jm_env \<Rightarrow> main_event \<Rightarrow> JobManager \<Rightarrow> (bool outcome \<times> ICmdResp option \<times> JobManager) option" where
  "main_step env ev m =
     (case ev of
        CtxDone \<Rightarrow> Some (Ok False, None, m)
      | JobChanged name ch \<Rightarrow> Some (Ok True, None, change_jobs name ch m)
      | RecReceived rec \<Rightarrow>
          (case handleRunRec env rec m of
             (Panic p, m1) \<Rightarrow> Some (Panic p, None, m1) | (_, m1) \<Rightarrow> Some (Ok True, None, m1))
      | RecChanClosed \<Rightarrow>
          Some (Panic ''Job-runner thread ended prematurely.'', None,
            m\<lparr>jm_world := log_err ''Job-runner thread ended prematurely.'' (jm_world m)\<rparr>)
      | CmdReceived serverType cmd recs \<Rightarrow>
          (case doCmd env recs serverType cmd m of
             None \<Rightarrow> None
           | Some (Ok resp, m1) \<Rightarrow> Some (Ok True, Some resp, m1)
           | Some (Fail e, m1) \<Rightarrow> Some (Fail e, None, m1)
           | Some (Panic p, m1) \<Rightarrow> Some (Panic p, None, m1))
      | CmdChanClosed \<Rightarrow>
          Some (Ok False, None, m\<lparr>jm_world := log_err ''Command channel was closed.'' (jm_world m)\<rparr>))"

fun main_loop ::
    "jm_env \<Rightarrow> main_event list \<Rightarrow> JobManager \<Rightarrow> (bool outcome \<times> ICmdResp list \<times> JobManager) option" where
  "main_loop env [] m = Some (Ok True, [], m)"
| "main_loop env (ev # evs) m =
     (case main_step env ev m of
        None \<Rightarrow> None
      | Some (Ok True, resp, m1) \<Rightarrow>
          map_option (\<lambda>(r, resps, m2). (r, (case resp of None \<Rightarrow> resps | Some x \<Rightarrow> x # resps), m2)) (main_loop env evs m1)
      | Some (r, resp, m1) \<Rightarrow> Some (r, [], m1))"

text \<open>The whole thread: the job file is loaded, the loop runs, and the last records are consumed.\<close>

definition runMainThread ::
    "jm_env \<Rightarrow> RunRec list \<Rightarrow> main_event list \<Rightarrow> RunRec list \<Rightarrow> JobManager \<Rightarrow>
     (unit outcome \<times> ICmdResp list \<times> JobManager) option" where
  "runMainThread env recs evs lastRecs m =
     (case loadJobfile env recs m of
        None \<Rightarrow> None
      | Some (Panic p, m1) \<Rightarrow> Some (Panic p, [], m1)
      | Some (r, m1) \<Rightarrow>
          let m2 = (case r of Fail e \<Rightarrow> m1\<lparr>jm_world := log_err (Error_Error e) (jm_world m1)\<rparr> | _ \<Rightarrow> m1) in
          (case main_loop env evs m2 of
             None \<Rightarrow> None
           | Some (Panic p, resps, m3) \<Rightarrow> Some (Panic p, resps, m3)
           | Some (_, resps, m3) \<Rightarrow>
               (case handleRunRecs env lastRecs m3 of (r4, m4) \<Rightarrow> Some (r4, resps, m4\<lparr>jm_running := False\<rparr>))))"

definition Launch :: "JobManager \<Rightarrow> JobManager outcome" where
  "Launch self =
     (if jm_launched self then Fail (Error ''Already launched.'' None) else Ok (self\<lparr>jm_launched := True\<rparr>))"

section \<open>Test runs\<close>

text \<open>
  A test run as its client sees it (\<open>TestJobServer.serve\<close>, \<open>testJobThread\<close>): nothing, if no client
  connects in time; otherwise the job's output, then its fate. The socket's directory goes away.
\<close>

definition test_fate :: "bool \<Rightarrow> bool \<Rightarrow> SubprocFate" where
  "test_fate waitOk ctxErr =
     (if waitOk then SubprocFateSucceeded else if ctxErr then SubprocFateCancelled else SubprocFateFailed)"

datatype test_client = NoClient | AcceptFailed | Connected

definition serve ::
    "test_client \<Rightarrow> error option \<Rightarrow> string \<Rightarrow> bool \<Rightarrow> bool \<Rightarrow> string \<times> string \<Rightarrow> TestJobServer \<Rightarrow> string list \<times> TestJobServer" where
  "serve client startErr output waitOk ctxErr entry self =
     ((case client of
         Connected \<Rightarrow>
           (case startErr of
              Some e \<Rightarrow> [''Failed to launch thread: '' @ Error_Error e @ [CHR 0x0A]]
            | None \<Rightarrow>
                [output, [CHR 0x0A, CHR 0x0A],
                 (case test_fate waitOk ctxErr of
                    SubprocFateSucceeded \<Rightarrow> ''Job succeeded'' | SubprocFateFailed \<Rightarrow> ''Job failed''
                  | SubprocFateCancelled \<Rightarrow> ''Job was cancelled'') @ [CHR 0x0A]])
       | _ \<Rightarrow> []),
      self\<lparr>ts_dirs := removeAll (snd entry) (ts_dirs self), ts_serving := remove1 entry (ts_serving self)\<rparr>)"

end
