(* ===== verification/Ipc_Service.thy ===== *)
theory Ipc_Service
  imports Job_Manager
begin

text \<open>
  The service that answers the clients (\<open>jobberrunner/ipc_server.go\<close>). Every method sends a
  container with its command to the main thread, waits for the response, returns the response's
  error if it has one, and otherwise gives the response to the caller if it is of the method's
  type. The main thread is an argument: the response it sends to a container. The servers that
  offer the service on a socket in the file system or on a TCP port follow.
\<close>

section \<open>The methods\<close>

record CmdContainer =
  cc_Cmd :: ICmd
  cc_ServerType :: IpcServerType

record IpcService =
  serverType :: IpcServerType

type_synonym main_thread = "CmdContainer \<Rightarrow> ICmdResp"

definition send_cmd :: "main_thread \<Rightarrow> IpcService \<Rightarrow> ICmd \<Rightarrow> ICmdResp" where
  "send_cmd main self cmd = main \<lparr>cc_Cmd = cmd, cc_ServerType = serverType self\<rparr>"

definition unexpected :: error where
  "unexpected = Error ''Unexpected response type'' None"

definition IpcService_Reload :: "main_thread \<Rightarrow> IpcService \<Rightarrow> nat outcome" where
  "IpcService_Reload main self =
     (case send_cmd main self ReloadCmd of
        ErrorCmdResp e \<Rightarrow> Fail e | ReloadCmdResp n \<Rightarrow> Ok n | _ \<Rightarrow> Fail unexpected)"

definition IpcService_ListJobs :: "main_thread \<Rightarrow> IpcService \<Rightarrow> JobDesc list outcome" where
  "IpcService_ListJobs main self =
     (case send_cmd main self ListJobsCmd of
        ErrorCmdResp e \<Rightarrow> Fail e | ListJobsCmdResp ds \<Rightarrow> Ok ds | _ \<Rightarrow> Fail unexpected)"

definition IpcService_Log :: "main_thread \<Rightarrow> IpcService \<Rightarrow> LogDesc list outcome" where
  "IpcService_Log main self =
     (case send_cmd main self LogCmd of
        ErrorCmdResp e \<Rightarrow> Fail e | LogCmdResp ds \<Rightarrow> Ok ds | _ \<Rightarrow> Fail unexpected)"

definition IpcService_Test :: "main_thread \<Rightarrow> IpcService \<Rightarrow> string \<Rightarrow> string outcome" where
  "IpcService_Test main self job =
     (case send_cmd main self (TestCmd job) of
        ErrorCmdResp e \<Rightarrow> Fail e | TestCmdResp p \<Rightarrow> Ok p | _ \<Rightarrow> Fail unexpected)"

definition IpcService_Cat :: "main_thread \<Rightarrow> IpcService \<Rightarrow> string \<Rightarrow> string outcome" where
  "IpcService_Cat main self job =
     (case send_cmd main self (CatCmd job) of
        ErrorCmdResp e \<Rightarrow> Fail e | CatCmdResp c \<Rightarrow> Ok c | _ \<Rightarrow> Fail unexpected)"

definition IpcService_Pause :: "main_thread \<Rightarrow> IpcService \<Rightarrow> string list \<Rightarrow> nat outcome" where
  "IpcService_Pause main self jobs =
     (case send_cmd main self (PauseCmd jobs) of
        ErrorCmdResp e \<Rightarrow> Fail e | PauseCmdResp n \<Rightarrow> Ok n | _ \<Rightarrow> Fail unexpected)"

definition IpcService_Resume :: "main_thread \<Rightarrow> IpcService \<Rightarrow> string list \<Rightarrow> nat outcome" where
  "IpcService_Resume main self jobs =
     (case send_cmd main self (ResumeCmd jobs) of
        ErrorCmdResp e \<Rightarrow> Fail e | ResumeCmdResp n \<Rightarrow> Ok n | _ \<Rightarrow> Fail unexpected)"

definition IpcService_Init :: "main_thread \<Rightarrow> IpcService \<Rightarrow> string outcome" where
  "IpcService_Init main self =
     (case send_cmd main self InitCmd of
        ErrorCmdResp e \<Rightarrow> Fail e | InitCmdResp p \<Rightarrow> Ok p | _ \<Rightarrow> Fail unexpected)"

definition IpcService_SetJob :: "main_thread \<Rightarrow> IpcService \<Rightarrow> string \<Rightarrow> JobV3Raw \<Rightarrow> bool outcome" where
  "IpcService_SetJob main self job raw =
     (case send_cmd main self (SetJobCmd job raw) of
        ErrorCmdResp e \<Rightarrow> Fail e | SetJobCmdResp b \<Rightarrow> Ok b | _ \<Rightarrow> Fail unexpected)"

definition IpcService_DeleteJob :: "main_thread \<Rightarrow> IpcService \<Rightarrow> string \<Rightarrow> bool outcome" where
  "IpcService_DeleteJob main self job =
     (case send_cmd main self (DeleteJobCmd job) of
        ErrorCmdResp e \<Rightarrow> Fail e | DeleteJobCmdResp b \<Rightarrow> Ok b | _ \<Rightarrow> Fail unexpected)"

section \<open>The servers\<close>

text \<open>What the network decides: whether an address resolves, and whether the listener can be made.\<close>

record net_env =
  ne_resolve :: "string \<Rightarrow> error option"
  ne_listenUnix :: "string \<Rightarrow> error option"
  ne_listenTcp :: "nat \<Rightarrow> error option"

record udsIpcServer =
  uds_service :: IpcService
  uds_listening :: bool
  uds_sockPath :: string

record inetIpcServer =
  inet_service :: IpcService
  inet_listener :: "bool option"
  inet_port :: nat

definition NewUdsIpcServer :: "string \<Rightarrow> udsIpcServer" where
  "NewUdsIpcServer sockPath =
     \<lparr>uds_service = \<lparr>serverType = IpcServerTypeUds\<rparr>, uds_listening = False, uds_sockPath = sockPath\<rparr>"

definition NewInetIpcServer :: "nat \<Rightarrow> inetIpcServer" where
  "NewInetIpcServer port =
     \<lparr>inet_service = \<lparr>serverType = IpcServerTypeInet\<rparr>, inet_listener = None, inet_port = port\<rparr>"

text \<open>A listener on a path makes the socket's file; closing the listener removes it.\<close>

definition uds_Launch :: "net_env \<Rightarrow> udsIpcServer \<Rightarrow> os \<Rightarrow> unit outcome \<times> udsIpcServer \<times> os" where
  "uds_Launch env self os =
     (case os_Remove (uds_sockPath self) os of
        (_, os1) \<Rightarrow>
          (case ne_resolve env (uds_sockPath self) of
             Some e \<Rightarrow> (Fail e, self, os1)
           | None \<Rightarrow>
               (case ne_listenUnix env (uds_sockPath self) of
                  Some e \<Rightarrow> (Fail e, self\<lparr>uds_listening := False\<rparr>, os1)
                | None \<Rightarrow> (Ok (), self\<lparr>uds_listening := True\<rparr>, os1\<lparr>files := (files os1)(uds_sockPath self \<mapsto> [])\<rparr>))))"

definition uds_Stop :: "udsIpcServer \<Rightarrow> os \<Rightarrow> udsIpcServer \<times> os" where
  "uds_Stop self os =
     (let os1 = (if uds_listening self then os\<lparr>files := (files os)(uds_sockPath self := None)\<rparr> else os) in
      (self\<lparr>uds_listening := False\<rparr>, snd (os_Remove (uds_sockPath self) os1)))"

definition inet_Launch :: "net_env \<Rightarrow> inetIpcServer \<Rightarrow> unit outcome \<times> inetIpcServer" where
  "inet_Launch env self =
     (case ne_listenTcp env (inet_port self) of
        Some e \<Rightarrow> (Fail e, self\<lparr>inet_listener := None\<rparr>)
      | None \<Rightarrow> (Ok (), self\<lparr>inet_listener := Some True\<rparr>))"

text \<open>
  The listener is an interface value: closing the one that was never made is a nil dereference;
  closing one again is an error that is ignored.
\<close>

definition inet_Stop :: "inetIpcServer \<Rightarrow> unit outcome \<times> inetIpcServer" where
  "inet_Stop self =
     (case inet_listener self of
        None \<Rightarrow> (Panic ''nil pointer dereference'', self)
      | Some isOpen \<Rightarrow> (Ok (), self\<lparr>inet_listener := Some False\<rparr>))"

end
