(* ===== verification/Job_File_Spec.thy ===== *)
theory Job_File_Spec
  imports Job_File
begin

text \<open>
  What the loading of job files (theory \<open>Job_File\<close>) guarantees: the sections of an old file are
  found as they were written, old files are converted without loss, and the jobs of an activated
  file are ready to be scheduled.
\<close>

section \<open>Sections: parsing what was printed\<close>

text \<open>
  A sectioned file as blocks: the header line, the section's name and the lines of its body.
\<close>

type_synonym block = "string \<times> string \<times> string list"

fun block_lines :: "block \<Rightarrow> string list" where
  "block_lines (header, name, body) = header # body"

fun block_ok :: "block \<Rightarrow> bool" where
  "block_ok (header, name, body) \<longleftrightarrow>
     matchSection header = Some name \<and> list_all (\<lambda>l. matchSection l = None) body"

abbreviation block_name :: "block \<Rightarrow> string" where
  "block_name b \<equiv> fst (snd b)"

definition plain_line :: "string \<Rightarrow> bool" where
  "plain_line l \<longleftrightarrow> CHR 0x0A \<notin> set l \<and> (l \<noteq> [] \<longrightarrow> last l \<noteq> CHR 0x0D) \<and> length l < 65536"

lemma ScanLines_print:
  "list_all plain_line lines \<Longrightarrow> ScanLines (concat (map (\<lambda>l. l @ [CHR 0x0A]) lines)) = lines"
proof (induction lines)
  case Nil
  then show ?case by (simp add: ScanLines.simps)
next
  case (Cons l lines)
  let ?rest = "concat (map (\<lambda>l. l @ [CHR 0x0A]) lines)"
  have pl: "CHR 0x0A \<notin> set l" "l \<noteq> [] \<longrightarrow> last l \<noteq> CHR 0x0D" "length l < 65536"
    using Cons.prems by (simp_all add: plain_line_def)
  have tw: "takeWhile (\<lambda>c. c \<noteq> CHR 0x0A) (l @ CHR 0x0A # ?rest) = l"
    using pl(1) by (subst takeWhile_append2) auto
  have dw: "dropWhile (\<lambda>c. c \<noteq> CHR 0x0A) (l @ CHR 0x0A # ?rest) = CHR 0x0A # ?rest"
    using pl(1) by (subst dropWhile_append2) auto
  have "drop_cr l = l" using pl(2) by (auto simp: drop_cr_def)
  then have "ScanLines (l @ CHR 0x0A # ?rest) = l # ScanLines ?rest"
    using pl(3) by (subst ScanLines.simps) (simp add: tw dw Let_def)
  then show ?case using Cons by simp
qed

lemma add_line_last:
  assumes "name \<notin> fst ` set sects"
  shows "add_line name line (sects @ [(name, ls)]) = sects @ [(name, ls @ [line])]"
proof -
  have "map (\<lambda>(n, ls). if n = name then (n, ls @ [line]) else (n, ls)) sects = sects"
    using assms by (intro map_idI) force
  then show ?thesis by (simp add: add_line_def)
qed

lemma section_lines_body:
  assumes "list_all (\<lambda>l. matchSection l = None) body" "name \<notin> fst ` set sects"
  shows "section_lines k name (sects @ [(name, ls)]) (body @ later) =
    section_lines (k + length body) name (sects @ [(name, ls @ body)]) later"
  using assms
proof (induction body arbitrary: k ls)
  case (Cons l body)
  then show ?case using Cons.IH [of "k + 1" "ls @ [l]"] by (simp add: add_line_last)
qed simp

definition sections_of :: "block list \<Rightarrow> sections" where
  "sections_of bs = map snd bs"

lemma section_lines_blocks:
  assumes "list_all block_ok bs" "distinct (map fst sects @ [name] @ map block_name bs)"
  shows "section_lines k name (sects @ [(name, ls)]) (concat (map block_lines bs)) =
    Ok (sects @ [(name, ls)] @ sections_of bs)"
  using assms
proof (induction bs arbitrary: k sects name ls)
  case Nil
  then show ?case by (simp add: sections_of_def)
next
  case (Cons b bs)
  obtain h n body where b: "b = (h, n, body)" by (cases b)
  have m: "matchSection h = Some n" and body: "list_all (\<lambda>l. matchSection l = None) body"
    using Cons.prems b by auto
  have fresh: "n \<notin> fst ` set (sects @ [(name, ls)])" using Cons.prems(2) b by (auto simp: image_iff)
  then have "map_of (sects @ [(name, ls)]) n = None" by (simp add: map_of_eq_None_iff)
  then have "section_lines k name (sects @ [(name, ls)]) (concat (map block_lines (b # bs))) =
      section_lines (k + 1) n ((sects @ [(name, ls)]) @ [(n, [])]) (body @ concat (map block_lines bs))"
    using m b by simp
  also have "\<dots> = section_lines (k + 1 + length body) n ((sects @ [(name, ls)]) @ [(n, body)])
      (concat (map block_lines bs))"
    using section_lines_body [OF body fresh, of "k + 1" "[]"] by simp
  also have "\<dots> = Ok ((sects @ [(name, ls)]) @ [(n, body)] @ sections_of bs)"
    using Cons.prems b by (intro Cons.IH) auto
  finally show ?case using b by (simp add: sections_of_def)
qed

lemma section_lines_duplicate:
  assumes "list_all block_ok bs" "\<not> distinct (map fst sects @ [name] @ map block_name bs)"
    "distinct (map fst sects @ [name])"
  shows "\<exists>e. section_lines k name (sects @ [(name, ls)]) (concat (map block_lines bs)) = Fail e"
  using assms
proof (induction bs arbitrary: k sects name ls)
  case Nil
  then show ?case by simp
next
  case (Cons b bs)
  obtain h n body where b: "b = (h, n, body)" by (cases b)
  have m: "matchSection h = Some n" and body: "list_all (\<lambda>l. matchSection l = None) body"
    using Cons.prems b by auto
  show ?case
  proof (cases "n \<in> fst ` set (sects @ [(name, ls)])")
    case True
    then have "map_of (sects @ [(name, ls)]) n \<noteq> None" by (auto simp: map_of_eq_None_iff)
    then show ?thesis using m b by simp
  next
    case fresh: False
    then have "map_of (sects @ [(name, ls)]) n = None" by (simp add: map_of_eq_None_iff)
    then have "section_lines k name (sects @ [(name, ls)]) (concat (map block_lines (b # bs))) =
        section_lines (k + 1) n ((sects @ [(name, ls)]) @ [(n, [])]) (body @ concat (map block_lines bs))"
      using m b by simp
    also have "\<dots> = section_lines (k + 1 + length body) n ((sects @ [(name, ls)]) @ [(n, body)])
        (concat (map block_lines bs))"
      using section_lines_body [OF body fresh, of "k + 1" "[]"] by simp
    finally show ?thesis
      using Cons.prems b fresh Cons.IH [of "sects @ [(name, ls)]" n "k + 1 + length body" body]
      by (auto simp: image_iff)
  qed
qed

text \<open>The text of a file: comments and empty lines, then the sections.\<close>

definition sectioned_text :: "string list \<Rightarrow> block list \<Rightarrow> string" where
  "sectioned_text skipped bs = concat (map (\<lambda>l. l @ [CHR 0x0A]) (skipped @ concat (map block_lines bs)))"

lemma matchSection_not_skipped: "matchSection l = Some n \<Longrightarrow> \<not> skipped_line l"
proof -
  assume m: "matchSection l = Some n"
  then obtain l' where l: "l = CHR ''['' # l'"
    by (cases l) (auto simp: matchSection_def split: if_splits)
  have "TrimSpace l = CHR ''['' # rev (dropWhile is_space (rev l'))"
    unfolding TrimSpace_def l by (simp add: is_space_def dropWhile_append)
  then show "\<not> skipped_line l" by (simp add: skipped_line_def)
qed

lemma first_line_skipped:
  "list_all skipped_line ls \<Longrightarrow> first_line k (ls @ lines) = first_line (k + length ls) lines"
  by (induction ls arbitrary: k) auto

lemma first_line_blocks:
  assumes "list_all skipped_line skipped" "list_all block_ok bs" "bs \<noteq> []"
  shows "if distinct (map block_name bs)
    then first_line 0 (skipped @ concat (map block_lines bs)) = Ok (sections_of bs)
    else (\<exists>e. first_line 0 (skipped @ concat (map block_lines bs)) = Fail e)"
proof -
  obtain h n body bs' where bs: "bs = (h, n, body) # bs'"
    using assms(3) by (metis list.exhaust prod_cases3)
  have m: "matchSection h = Some n" and body: "list_all (\<lambda>l. matchSection l = None) body"
    and ok: "list_all block_ok bs'" using assms(2) bs by auto
  let ?k = "length skipped + 1 + length body"
  have eq: "first_line 0 (skipped @ concat (map block_lines bs)) =
      section_lines ?k n ([] @ [(n, body)]) (concat (map block_lines bs'))"
    using first_line_skipped [OF assms(1), of 0] matchSection_not_skipped [OF m] m bs
      section_lines_body [OF body, of n "[]" "length skipped + 1" "[]"] by simp
  show ?thesis
  proof (cases "distinct (map block_name bs)")
    case True
    then show ?thesis
      using section_lines_blocks [OF ok, of "[]" n ?k body] eq bs by (simp add: sections_of_def)
  next
    case False
    then show ?thesis
      using section_lines_duplicate [OF ok, of "[]" n ?k body] eq bs by auto
  qed
qed

text \<open>
  Sections: from a text made of comments and empty lines followed by sections (a header
  line each, then lines that are no headers), \<open>findSections\<close> gives back exactly the sections,
  with their lines, when their names differ, and an error when two have the same name.
\<close>

theorem findSections_print:
  assumes "list_all skipped_line skipped" "list_all block_ok bs" "bs \<noteq> []"
    "list_all plain_line (skipped @ concat (map block_lines bs))"
  shows "if distinct (map block_name bs)
    then findSections (sectioned_text skipped bs) =
      Ok (map (\<lambda>(header, name, body). (name, Join body [CHR 0x0A])) bs)
    else (\<exists>e. findSections (sectioned_text skipped bs) = Fail e)"
  using first_line_blocks [OF assms(1-3)] ScanLines_print [OF assms(4)]
  by (auto simp: findSections_def sectioned_text_def sections_of_def split_beta)

theorem findSections_print_witness:
  "findSections (sectioned_text [''# a comment'', ''''] [(''[prefs] '', ''prefs'', [''a: 1'']), (''[jobs]'', ''jobs'', [''- b'', ''  c''])])
    = Ok [(''prefs'', ''a: 1''), (''jobs'', ''- b'' @ [CHR 0x0A] @ ''  c'')] \<and>
   (\<exists>e. findSections (sectioned_text [] [(''[jobs]'', ''jobs'', []), (''[jobs]'', ''jobs'', [])]) = Fail e)"
proof -
  let ?bs = "[(''[prefs] '', ''prefs'', [''a: 1'']), (''[jobs]'', ''jobs'', [''- b'', ''  c''])]"
  have 1: "list_all skipped_line [''# a comment'', '''']" by code_simp
  have 2: "list_all block_ok ?bs" by code_simp
  have 3: "list_all plain_line ([''# a comment'', ''''] @ concat (map block_lines ?bs))"
    by (simp add: plain_line_def)
  have 4: "list_all block_ok [(''[jobs]'', ''jobs'', []), (''[jobs]'', ''jobs'', [])]" by code_simp
  show ?thesis
    using findSections_print [OF 1 2 _ 3] findSections_print [OF _ 4, of "[]"] by (simp add: plain_line_def)
qed

section \<open>Old job files\<close>

lemma v1v2Jobs_Ok:
  "distinct (map r1_Name raws) \<Longrightarrow> set (map r1_Name raws) \<inter> fst ` set jobs = {} \<Longrightarrow>
   v1v2Jobs sinks raws jobs = Ok (jobs @ map (\<lambda>raw. (r1_Name raw, v1v2JobToV3 sinks raw)) raws)"
proof (induction raws arbitrary: jobs)
  case (Cons raw raws)
  then show ?case
    using Cons.IH [of "jobs @ [(r1_Name raw, v1v2JobToV3 sinks raw)]"] by (auto simp: map_of_eq_None_iff)
qed simp

lemma v1v2Jobs_is_Ok:
  "is_Ok (v1v2Jobs sinks raws jobs) \<longleftrightarrow>
     distinct (map r1_Name raws) \<and> set (map r1_Name raws) \<inter> fst ` set jobs = {}"
  by (induction raws arbitrary: jobs) (auto simp: map_of_eq_None_iff)

text \<open>What the conversion promises of a job, given the program that the preferences name.\<close>

definition converted :: "string option \<Rightarrow> JobV1V2Raw \<Rightarrow> JobV3Raw \<Rightarrow> bool" where
  "converted program old new \<longleftrightarrow>
     r_Cmd new = r1_Cmd old \<and> r_Time new = r1_Time old \<and> r_OnError new = r1_OnError old \<and>
     (r_NotifyOnError new \<noteq> [] \<longleftrightarrow> r1_NotifyOnError old = Some True) \<and>
     (r_NotifyOnSuccess new \<noteq> [] \<longleftrightarrow> r1_NotifyOnSuccess old = Some True) \<and>
     (r_NotifyOnFailure new \<noteq> [] \<longleftrightarrow> r1_NotifyOnFailure old \<noteq> Some False) \<and>
     (\<forall>sink \<in> set (r_NotifyOnError new @ r_NotifyOnSuccess new @ r_NotifyOnFailure new).
        case program of
          None \<Rightarrow> map_of sink ''type'' = Some (YString ''system-email'')
        | Some prog \<Rightarrow> map_of sink ''type'' = Some (YString ''program'') \<and>
            map_of sink ''path'' = Some (YString prog))"

lemma v1v2ToV3_Ok:
  assumes "v1v2ToV3 raw = Ok v3"
  shows "\<exists>sink. j3_Jobs v3 = map (\<lambda>old. (r1_Name old, v1v2JobToV3 [sink] old)) (j1_Jobs raw) \<and>
    p3_RunLog (j3_Prefs v3) = p1_RunLog (j1_Prefs raw) \<and> p3_LogPath (j3_Prefs v3) = p1_LogPath (j1_Prefs raw) \<and>
    (\<forall>old. converted (p1_NotifyProgram (j1_Prefs raw)) old (v1v2JobToV3 [sink] old))"
proof -
  obtain sink jobs where v: "v1v2Jobs [sink] (j1_Jobs raw) [] = Ok jobs"
    "v3 = \<lparr>j3_Version = SemVer_zero, j3_Prefs = \<lparr>p3_LogPath = p1_LogPath (j1_Prefs raw), p3_RunLog = p1_RunLog (j1_Prefs raw)\<rparr>,
        j3_Jobs = jobs\<rparr>"
    "sink = (case p1_NotifyProgram (j1_Prefs raw) of
            Some program \<Rightarrow> [(''type'', YString ''program''), (''path'', YString program),
                             (''runRecFormatVersion'', YSemVer (SemVer 1 0 0))]
          | None \<Rightarrow> [(''type'', YString ''system-email'')])"
    using assms by (auto simp: v1v2ToV3_def Let_def outcome_simps)
  have "jobs = map (\<lambda>old. (r1_Name old, v1v2JobToV3 [sink] old)) (j1_Jobs raw)"
    using v(1) v1v2Jobs_is_Ok [of "[sink]" "j1_Jobs raw" "[]"] v1v2Jobs_Ok [of "j1_Jobs raw" "[]" "[sink]"] by simp
  moreover have "converted (p1_NotifyProgram (j1_Prefs raw)) old (v1v2JobToV3 [sink] old)" for old
    using v(3) by (auto simp: converted_def v1v2JobToV3_def Let_def split: option.splits)
  ultimately show ?thesis using v(2) by (intro exI [of _ sink]) simp
qed

text \<open>
  C30. Conversion of an old job file: it succeeds exactly when no two jobs have the same name;
  then every job is there under its name with its command, schedule and error handler, and
  notifies the one sink of the preferences (the program, if there is one, else mail) on errors
  and on successes if asked to, and on failures unless asked not to.
\<close>

theorem v1v2ToV3_spec:
  "(is_Ok (v1v2ToV3 raw) \<longleftrightarrow> distinct (map r1_Name (j1_Jobs raw))) \<and>
   (\<forall>v3. v1v2ToV3 raw = Ok v3 \<longrightarrow>
      p3_RunLog (j3_Prefs v3) = p1_RunLog (j1_Prefs raw) \<and> p3_LogPath (j3_Prefs v3) = p1_LogPath (j1_Prefs raw) \<and>
      map fst (j3_Jobs v3) = map r1_Name (j1_Jobs raw) \<and>
      (\<forall>old \<in> set (j1_Jobs raw). \<exists>new. map_of (j3_Jobs v3) (r1_Name old) = Some new \<and>
         converted (p1_NotifyProgram (j1_Prefs raw)) old new))"
proof -
  have ok: "is_Ok (v1v2ToV3 raw) \<longleftrightarrow> distinct (map r1_Name (j1_Jobs raw))"
    using v1v2Jobs_is_Ok [of _ "j1_Jobs raw" "[]"] by (simp add: v1v2ToV3_def Let_def is_Ok_iff outcome_simps)
  have "map fst (j3_Jobs v3) = map r1_Name (j1_Jobs raw) \<and>
      (\<forall>old \<in> set (j1_Jobs raw). \<exists>new. map_of (j3_Jobs v3) (r1_Name old) = Some new \<and>
         converted (p1_NotifyProgram (j1_Prefs raw)) old new)" if v3: "v1v2ToV3 raw = Ok v3" for v3
  proof -
    obtain sink where jobs: "j3_Jobs v3 = map (\<lambda>old. (r1_Name old, v1v2JobToV3 [sink] old)) (j1_Jobs raw)"
      and c: "\<And>old. converted (p1_NotifyProgram (j1_Prefs raw)) old (v1v2JobToV3 [sink] old)"
      using v1v2ToV3_Ok [OF v3] by blast
    have names: "map fst (j3_Jobs v3) = map r1_Name (j1_Jobs raw)" by (simp add: jobs comp_def)
    have "distinct (map fst (j3_Jobs v3))" using ok v3 names by simp
    then have "map_of (j3_Jobs v3) (r1_Name old) = Some (v1v2JobToV3 [sink] old)" if "old \<in> set (j1_Jobs raw)" for old
      using that jobs by (intro map_of_is_SomeI) auto
    then show ?thesis using names c by blast
  qed
  then show ?thesis using ok v1v2ToV3_Ok by blast
qed

definition old_job :: "string \<Rightarrow> JobV1V2Raw" where
  "old_job name = \<lparr>r1_Name = name, r1_Cmd = ''true'', r1_Time = ''*'', r1_OnError = None,
     r1_NotifyOnSuccess = None, r1_NotifyOnError = Some True, r1_NotifyOnFailure = None\<rparr>"

theorem v1v2ToV3_spec_witness:
  "\<exists>v3 new. v1v2ToV3 \<lparr>j1_Prefs = empty_prefs, j1_Jobs = [old_job ''a'', old_job ''b'']\<rparr> = Ok v3 \<and>
     map_of (j3_Jobs v3) ''b'' = Some new \<and> converted None (old_job ''b'') new"
proof -
  let ?raw = "\<lparr>j1_Prefs = empty_prefs, j1_Jobs = [old_job ''a'', old_job ''b'']\<rparr>"
  have "is_Ok (v1v2ToV3 ?raw)" using v1v2ToV3_spec [of ?raw] by (simp add: old_job_def)
  then obtain v3 where v3: "v1v2ToV3 ?raw = Ok v3" by (auto simp: is_Ok_iff)
  then have "\<exists>new. map_of (j3_Jobs v3) (r1_Name (old_job ''b'')) = Some new \<and> converted None (old_job ''b'') new"
    using v1v2ToV3_spec [of ?raw] by (auto simp: empty_prefs_def dest!: map_of_SomeD)
  then show ?thesis using v3 by (auto simp: old_job_def)
qed

section \<open>Activated jobs\<close>

lemma MakeResultSink_checked:
  "MakeResultSinkFromConfig u config = Ok sink \<Longrightarrow> CheckParams sink = None"
  by (auto simp: MakeResultSinkFromConfig_def loadSinkParams_def Let_def outcome_simps
      split: option.splits if_splits)

definition sinks_ok :: "ResultSink list \<Rightarrow> bool" where
  "sinks_ok sinks \<longleftrightarrow> pairwise_different sinks \<and> (\<forall>sink \<in> set sinks. CheckParams sink = None)"

lemma sinksOf_ok:
  assumes "sinksOf yaml raws [] = Ok sinks"
  shows "sinks_ok sinks"
proof -
  obtain made where made: "map_outcome (MakeResultSinkFromConfig (sink_of yaml)) raws = Ok made"
    and sinks: "sinks = normalizeResultSinkArray made"
    using assms by (auto simp: sinksOf_def outcome_simps)
  have "\<forall>sink \<in> set made. CheckParams sink = None"
    using made MakeResultSink_checked by (fastforce simp: map_outcome_Ok_iff list_all2_conv_all_nth in_set_conv_nth)
  then show ?thesis using normalize_loop_spec [of "[]" made]
    by (auto simp: sinks normalizeResultSinkArray_def sinks_ok_def pairwise_different_def
        dest: mset_subset_eqD [of _ _])
qed

lemma FullTimeSpec_Derandomize_derandomized:
  "FullTimeSpec_Derandomize intn s = Ok s' \<Longrightarrow> full_derandomized s'"
  by (auto simp: FullTimeSpec_Derandomize_def full_derandomized_def outcome_simps
      dest: TimeSpec_Derandomize_derandomized)

text \<open>A schedule whose random values were picked from those of another.\<close>

definition full_picked :: "FullTimeSpec \<Rightarrow> FullTimeSpec \<Rightarrow> bool" where
  "full_picked s s' \<longleftrightarrow> picked_from (SecSpec s) (SecSpec s') \<and> picked_from (MinSpec s) (MinSpec s') \<and>
     picked_from (HourSpec s) (HourSpec s') \<and> picked_from (MdaySpec s) (MdaySpec s') \<and>
     picked_from (MonSpec s) (MonSpec s') \<and> picked_from (WdaySpec s) (WdaySpec s')"

lemma TimeSpec_Derandomize_from:
  "TimeSpec_Derandomize intn spec = Ok spec' \<Longrightarrow> picked_from spec spec'"
  by (cases "(intn, spec)" rule: TimeSpec_Derandomize.cases) (auto simp: picked_from_def split: if_splits)

lemma FullTimeSpec_Derandomize_from: "FullTimeSpec_Derandomize intn s = Ok s' \<Longrightarrow> full_picked s s'"
  by (auto simp: FullTimeSpec_Derandomize_def full_picked_def outcome_simps dest: TimeSpec_Derandomize_from)

text \<open>What the rest of the program may assume of a job that has just been loaded.\<close>

definition fresh_job :: "user \<Rightarrow> string \<Rightarrow> JobV3Raw \<Rightarrow> Job \<Rightarrow> bool" where
  "fresh_job usr name raw job \<longleftrightarrow>
     Name job = name \<and> Cmd job = r_Cmd raw \<and> JobUser job = Username usr \<and>
     Status job = JobGood \<and> \<not> Paused job \<and> NextRunTime job = None \<and> job_inv job \<and>
     (case r_OnError raw of None \<Rightarrow> JobErrorHandler job = ContinueErrorHandler
      | Some n \<Rightarrow> n = ErrorHandler_String (JobErrorHandler job)) \<and>
     full_derandomized (JobTimeSpec job) \<and>
     (\<exists>spec. ParseFullTimeSpec (r_Time raw) = Some (Ok spec) \<and> full_ok spec \<and> full_picked spec (JobTimeSpec job)) \<and>
     sinks_ok (NotifyOnError job) \<and> sinks_ok (NotifyOnFailure job) \<and> sinks_ok (NotifyOnSuccess job)"

lemma GetErrorHandler_Ok: "GetErrorHandler name = Ok h \<Longrightarrow> name = ErrorHandler_String h"
  by (auto simp: GetErrorHandler_def split: if_splits)

lemma ToJob_fresh:
  assumes "ToJob yaml intn usr raw (new_job name) = Some (Ok job)"
  shows "fresh_job usr name raw job"
proof -
  obtain h sinks1 sinks2 sinks3 tmp spec where parts:
    "(case r_OnError raw of None \<Rightarrow> Ok (JobErrorHandler (new_job name)) | Some n \<Rightarrow> GetErrorHandler n) = Ok h"
    "sinksOf yaml (r_NotifyOnError raw) [] = Ok sinks1" "sinksOf yaml (r_NotifyOnFailure raw) [] = Ok sinks2"
    "sinksOf yaml (r_NotifyOnSuccess raw) [] = Ok sinks3" "FullTimeSpec_Derandomize intn tmp = Ok spec"
    "ParseFullTimeSpec (r_Time raw) = Some (Ok tmp)"
    "job = (new_job name)\<lparr>Cmd := r_Cmd raw, JobUser := Username usr, JobErrorHandler := h,
         NotifyOnError := sinks1, NotifyOnFailure := sinks2, NotifyOnSuccess := sinks3, JobTimeSpec := spec\<rparr>"
  proof -
    have init: "NotifyOnError (new_job name) = []" "NotifyOnFailure (new_job name) = []" "NotifyOnSuccess (new_job name) = []"
      by (simp_all add: new_job_def)
    show ?thesis using assms that unfolding ToJob_def bind_returning_Ok_iff init by blast
  qed
  have "case r_OnError raw of None \<Rightarrow> h = ContinueErrorHandler | Some n \<Rightarrow> n = ErrorHandler_String h"
    using parts(1) by (auto simp: new_job_def split: option.splits dest: GetErrorHandler_Ok)
  then show ?thesis
    using parts(2-4) [THEN sinksOf_ok] FullTimeSpec_Derandomize_derandomized [OF parts(5)]
      FullTimeSpec_Derandomize_from [OF parts(5)] ParseFullTimeSpec_full_ok [OF parts(6)] parts(6)
    by (simp add: parts(7) fresh_job_def new_job_def job_inv_def split: option.splits)
qed

lemma update_new_key: "k \<notin> fst ` set al \<Longrightarrow> AList.update k v al = al @ [(k, v)]"
  by (induction al) auto

lemma activate_jobs_Ok:
  assumes "activate_jobs yaml rand usr i raws jobs = Some (Ok jobs')"
    "distinct (map fst jobs @ map fst raws)"
  shows "\<exists>made. jobs' = jobs @ made \<and>
    list_all2 (\<lambda>(name, raw) (name', job). name' = name \<and> fresh_job usr name raw job) raws made"
  using assms
proof (induction raws arbitrary: i jobs)
  case Nil
  then show ?case by simp
next
  case (Cons nr raws)
  obtain name raw where nr: "nr = (name, raw)" by (cases nr)
  obtain job where job: "ToJob yaml (rand i) usr raw (new_job name) = Some (Ok job)"
    and rest: "activate_jobs yaml rand usr (i + 1) raws (AList.update name job jobs) = Some (Ok jobs')"
    using Cons.prems(1) nr by (auto simp: bind_returning_Ok_iff)
  have upd: "AList.update name job jobs = jobs @ [(name, job)]"
    using Cons.prems(2) nr by (intro update_new_key) auto
  have "\<exists>made. jobs' = (jobs @ [(name, job)]) @ made \<and>
      list_all2 (\<lambda>(name, raw) (name', job). name' = name \<and> fresh_job usr name raw job) raws made"
    using rest Cons.prems(2) nr unfolding upd by (intro Cons.IH) auto
  then show ?case using ToJob_fresh [OF job] nr by force
qed

text \<open>
  C29. Activation of a job file: when it succeeds, the jobs are those of the file under their
  names, each in its initial state, with a schedule whose fields are in range and whose random
  values are picked, with the handler the file names, and with sinks that passed their checks
  and are pairwise different; the registry then has a server for a socket exactly when some sink
  of a job wants one and it was running already or can be listened on.
\<close>

theorem Activate_sound:
  assumes "Activate yaml rand listen usr raw os registry = Some (Ok jf, os', registry')"
    "distinct (map fst (j3_Jobs raw))" "distinct (map fst registry)"
    "\<forall>(i, s) \<in> set registry. server_inv s"
  shows "list_all2 (\<lambda>(name, jobRaw) (name', job). name' = name \<and> fresh_job usr name jobRaw job)
      (j3_Jobs raw) (jf_Jobs jf) \<and>
    (\<forall>i. map_of registry' i \<noteq> None \<longleftrightarrow>
       i \<in> set (socket_sinks (concat (map (\<lambda>(name, job). job_sinks job) (jf_Jobs jf)))) \<and>
       (map_of registry i \<noteq> None \<or> listen i = None))"
proof -
  let ?socks = "\<lambda>jobs. socket_sinks (concat (map (\<lambda>(name, job). job_sinks job) jobs))"
  obtain jobs stopped os1 os2 where jobs: "activate_jobs yaml rand usr 0 (j3_Jobs raw) [] = Some (Ok jobs)"
    and set: "SetServers listen (map fst (?socks jobs)) (map snd (?socks jobs)) registry os1 = (Ok (registry', stopped), os2)"
    and jf: "jf_Jobs jf = jobs"
    using assms(1) by (auto simp: Activate_def Let_def split: prod.splits outcome.splits option.splits)
  have "map_of registry' i = (if i \<notin> set (?socks jobs) then None
      else if map_of registry i \<noteq> None then map_of registry i
      else (case launchRunRecServer listen i of Ok s \<Rightarrow> Some s | _ \<Rightarrow> None))" for i
    using SetServers_registry [OF _ assms(3,4), of "map fst (?socks jobs)" "map snd (?socks jobs)" listen os1] set
    unfolding zip_map_fst_snd by fastforce
  then have "map_of registry' i \<noteq> None \<longleftrightarrow> i \<in> set (?socks jobs) \<and> (map_of registry i \<noteq> None \<or> listen i = None)" for i
    by (simp add: launchRunRecServer_def split: option.splits)
  then show ?thesis using activate_jobs_Ok [OF jobs] assms(2) jf by simp
qed


text \<open>A file with one job, its schedule partly random, that reports to a socket.\<close>

definition sample_yaml :: yaml_lib where
  "sample_yaml = \<lparr>is_seq = (\<lambda>_. False), version_of = (\<lambda>_. Ok (SemVer 1 4 0)),
     v3_of = (\<lambda>_. Fail (Errno ''yaml'')), prefs_of = (\<lambda>_. Fail (Errno ''yaml'')),
     jobs_of = (\<lambda>_. Fail (Errno ''yaml'')), sink_of = (\<lambda>_ _. Ok (SocketResultSink ''tcp'' '':80'' 3))\<rparr>"

definition sample_raw_job :: JobV3Raw where
  "sample_raw_job = \<lparr>r_Cmd = ''true'', r_Time = ''0 0 R2-4'', r_OnError = Some ''Backoff'',
     r_NotifyOnSuccess = [[(''type'', YString ''socket'')]], r_NotifyOnError = [], r_NotifyOnFailure = []\<rparr>"

definition sample_user :: user where
  "sample_user = \<lparr>Uid = ''7'', Gid = ''7'', Username = ''u'', HomeDir = ''/home/u''\<rparr>"

theorem Activate_sound_witness:
  "\<exists>jf os' registry' job. Activate sample_yaml (\<lambda>_ _ _. 0) (\<lambda>_. None) sample_user
       (NewEmptyRawJobFile\<lparr>j3_Jobs := [(''a'', sample_raw_job)]\<rparr>) \<lparr>files = Map.empty, faults = []\<rparr> []
       = Some (Ok jf, os', registry') \<and>
     jf_Jobs jf = [(''a'', job)] \<and> fresh_job sample_user ''a'' sample_raw_job job \<and>
     map_of registry' (''tcp'', '':80'') \<noteq> None"
proof -
  let ?raw = "NewEmptyRawJobFile\<lparr>j3_Jobs := [(''a'', sample_raw_job)]\<rparr>"
  let ?os = "\<lparr>files = Map.empty, faults = []\<rparr>"
  let ?job = "(new_job ''a'')\<lparr>Cmd := ''true'', JobUser := ''u'', JobErrorHandler := BackoffErrorHandler,
      NotifyOnSuccess := [SocketResultSink ''tcp'' '':80'' 3],
      JobTimeSpec := \<lparr>SecSpec = OneValTimeSpec 0, MinSpec = OneValTimeSpec 0,
       HourSpec = RandomTimeSpec ''R2-4'' [2, 3, 4] (Some 2), MdaySpec = WildcardTimeSpec,
       MonSpec = WildcardTimeSpec, WdaySpec = WildcardTimeSpec\<rparr>\<rparr>"
  have p: "ParseFullTimeSpec ''0 0 R2-4'' = Some (Ok
      \<lparr>SecSpec = OneValTimeSpec 0, MinSpec = OneValTimeSpec 0,
       HourSpec = RandomTimeSpec ''R2-4'' [2, 3, 4] None, MdaySpec = WildcardTimeSpec,
       MonSpec = WildcardTimeSpec, WdaySpec = WildcardTimeSpec\<rparr>)"
    by code_simp
  have job: "ToJob sample_yaml (\<lambda>_ _. 0) sample_user sample_raw_job (new_job ''a'') = Some (Ok ?job)"
    by (simp add: ToJob_def sample_raw_job_def sinksOf_def sample_yaml_def sample_user_def p bind_returning_def
        MakeResultSinkFromConfig_def loadSinkParams_def normalizeResultSinkArray_def GetErrorHandler_def
        FullTimeSpec_Derandomize_def new_job_def)
  have prefs: "ToPrefs sample_user (j3_Prefs NewEmptyRawJobFile) ?os =
      (Ok \<lparr>RunLogPref = MemLog \<lparr>mem_entries = [], mem_cap = 100\<rparr>, LogPath = []\<rparr>, ?os)"
    by (simp add: ToPrefs_def NewEmptyRawJobFile_def ToRunLog_def map_io_def lift_io_def bind_io_def
        return_io_def NewMemOnlyRunLog_def gDefaultMemRunLogMaxLen_def)
  have nj: "NotifyOnError (new_job ''a'') = []" "NotifyOnFailure (new_job ''a'') = []"
    by (simp_all add: new_job_def)
  have act: "Activate sample_yaml (\<lambda>_ _ _. 0) (\<lambda>_. None) sample_user ?raw ?os [] =
      Some (Ok \<lparr>jf_Prefs = \<lparr>RunLogPref = MemLog \<lparr>mem_entries = [], mem_cap = 100\<rparr>, LogPath = []\<rparr>,
        jf_Jobs = [(''a'', ?job)], jf_Raw = ?raw\<rparr>, ?os,
        [((''tcp'', '':80''), \<lparr>sid = (''tcp'', '':80''), s_running = True, s_chan = [], s_closed = False,
          s_dropped = 0, s_handlers = [], s_listening = True, s_conn = False, s_alive = True, s_former = [], s_pushed = [], s_errs = []\<rparr>)])"
    by (simp add: Activate_def prefs job bind_returning_def job_sinks_def socket_sinks_def
        List.map_filter_def SetServers_def launchRunRecServer_def Let_def nj)
  note s = Activate_sound [OF act]
  show ?thesis using act s by simp
qed

section \<open>Permission to load\<close>

lemma bad_perms_iff: "Perm m AND gBadJobfilePerms > 0 \<longleftrightarrow> bit m 1 \<or> bit m 4"
proof -
  have n: "bit (0x1FF :: 32 word) 1" "bit (0x1FF :: 32 word) 4" "bit gBadJobfilePerms 1" "bit gBadJobfilePerms 4"
    by (simp_all add: gBadJobfilePerms_def bit_numeral_rec)
  have k: "k = 1 \<or> k = 4" if "bit gBadJobfilePerms k" for k
  proof -
    have "gBadJobfilePerms = push_bit 1 1 OR push_bit 4 (1 :: 32 word)"
      by (simp add: gBadJobfilePerms_def)
    then have "bit (push_bit 1 1 OR push_bit 4 (1 :: 32 word)) k" using that by metis
    then show ?thesis by (simp only: bit_or_iff bit_push_bit_iff bit_1_iff) auto
  qed
  have "Perm m AND gBadJobfilePerms \<noteq> 0 \<longleftrightarrow> (\<exists>k. bit (Perm m AND gBadJobfilePerms) k)"
    by (metis bit_eqI bit_0_eq bot_apply bot_bool_def)
  also have "\<dots> \<longleftrightarrow> bit m 1 \<or> bit m 4" using n k by (auto simp: Perm_def bit_and_iff)
  finally show ?thesis by (simp add: word_neq_0_conv)
qed

text \<open>
  C31. Permission: when the file can be examined, \<open>ShouldLoadJobfile\<close> says yes exactly if the user
  owns the file and neither the group nor others may write to it; otherwise it returns an error,
  and never a plain no.
\<close>

theorem ShouldLoadJobfile_iff:
  "(ShouldLoadJobfile usr (Ok st) (Ok st) = Ok True \<longleftrightarrow>
     Uid usr = nat_str (stat_Uid st) \<and> \<not> bit (stat_Mode st) 4 \<and> \<not> bit (stat_Mode st) 1) \<and>
   (ShouldLoadJobfile usr stat1 stat2 = Ok True \<or> \<not> is_Ok (ShouldLoadJobfile usr stat1 stat2))"
proof (intro conjI)
  show "ShouldLoadJobfile usr (Ok st) (Ok st) = Ok True \<longleftrightarrow>
     Uid usr = nat_str (stat_Uid st) \<and> \<not> bit (stat_Mode st) 4 \<and> \<not> bit (stat_Mode st) 1"
    using bad_perms_iff [of "stat_Mode st"] by (auto simp: ShouldLoadJobfile_def UserOwnsFileF_def)
  show "ShouldLoadJobfile usr stat1 stat2 = Ok True \<or> \<not> is_Ok (ShouldLoadJobfile usr stat1 stat2)"
    by (cases stat1; cases stat2) (auto simp: ShouldLoadJobfile_def UserOwnsFileF_def)
qed

theorem ShouldLoadJobfile_iff_witness:
  "ShouldLoadJobfile sample_user (Ok \<lparr>stat_Uid = 7, stat_Mode = 0x1A4\<rparr>) (Ok \<lparr>stat_Uid = 7, stat_Mode = 0x1A4\<rparr>) = Ok True \<and>
   ShouldLoadJobfile sample_user (Ok \<lparr>stat_Uid = 7, stat_Mode = 0x1B4\<rparr>) (Ok \<lparr>stat_Uid = 7, stat_Mode = 0x1B4\<rparr>) \<noteq> Ok True"
proof -
  have uid: "Uid sample_user = nat_str 7" by code_simp
  show ?thesis
    using ShouldLoadJobfile_iff [of sample_user "\<lparr>stat_Uid = 7, stat_Mode = 0x1A4\<rparr>"]
      ShouldLoadJobfile_iff [of sample_user "\<lparr>stat_Uid = 7, stat_Mode = 0x1B4\<rparr>"]
    by (simp add: uid bit_numeral_rec)
qed

section \<open>Limits of a run log\<close>

lemma maxFileLenOf_nat_str:
  assumes "c = CHR ''m'' \<or> c = CHR ''M''"
  shows "maxFileLenOf (Some (nat_str n @ [c])) =
    (if int n < 2 ^ 63 then Ok (wrap_int64 (int n * 2 ^ 20))
     else Fail (bad_max_file_len (nat_str n @ [c]) (Some (range_error (nat_str n)))))"
proof -
  have "ParseInt (nat_str n) = (if int n < 2 ^ 63 then Ok (int n) else Fail (range_error (nat_str n)))"
    using digit_not [OF hd_nat_str_digit [of n]] by (simp add: ParseInt_def Let_def nat_str_digits)
  then show ?thesis using assms by (auto simp: maxFileLenOf_def)
qed

lemma wrap_int64_small: "0 \<le> v \<Longrightarrow> v < 2 ^ 63 \<Longrightarrow> wrap_int64 v = v"
  by (simp add: wrap_int64_def)

lemma wrap_int64_over: "2 ^ 63 \<le> v \<Longrightarrow> v < 2 ^ 64 \<Longrightarrow> wrap_int64 v = v - 2 ^ 64"
proof -
  assume v: "2 ^ 63 \<le> v" "v < 2 ^ 64"
  have "(v + 2 ^ 63) mod 2 ^ 64 = (v + 2 ^ 63 - 2 ^ 64) mod 2 ^ 64" by (rule minus_mod_self2 [symmetric])
  also have "\<dots> = v + 2 ^ 63 - 2 ^ 64" using v by (intro mod_pos_pos_trivial) auto
  finally show ?thesis by (simp add: wrap_int64_def)
qed

text \<open>
  Limits of a run log: a maximal file length of \<open>n\<close> megabytes is read as \<open>n * 2 ^ 20\<close> bytes
  for \<open>n < 2 ^ 43\<close>, as a negative number for \<open>2 ^ 43 \<le> n < 2 ^ 44\<close>, because the product wraps, and is
  refused from \<open>2 ^ 63\<close> on; and a log in memory panics exactly when its configured length is not
  positive, which no check of the job file prevents.
\<close>

theorem ToRunLog_limits:
  assumes "c = CHR ''m'' \<or> c = CHR ''M''" "rl_Type raw = ''memory''"
  shows "(int n < 2 ^ 43 \<longrightarrow> maxFileLenOf (Some (nat_str n @ [c])) = Ok (int n * 2 ^ 20)) \<and>
    (2 ^ 43 \<le> int n \<and> int n < 2 ^ 44 \<longrightarrow> (\<exists>v < 0. maxFileLenOf (Some (nat_str n @ [c])) = Ok v)) \<and>
    (2 ^ 63 \<le> int n \<longrightarrow> (\<exists>e. maxFileLenOf (Some (nat_str n @ [c])) = Fail e)) \<and>
    (if \<exists>k \<le> 0. rl_MaxLen raw = Some k then is_Panic (fst (ToRunLog raw os))
     else (\<exists>log. ToRunLog raw os = (Ok (MemLog log), os) \<and> 0 < mem_MaxLen log))"
proof (intro conjI impI)
  assume "int n < 2 ^ 43"
  then show "maxFileLenOf (Some (nat_str n @ [c])) = Ok (int n * 2 ^ 20)"
    using maxFileLenOf_nat_str [OF assms(1)] by (simp add: wrap_int64_small)
next
  assume n: "2 ^ 43 \<le> int n \<and> int n < 2 ^ 44"
  then have "wrap_int64 (int n * 2 ^ 20) = int n * 2 ^ 20 - 2 ^ 64" by (intro wrap_int64_over) auto
  then show "\<exists>v < 0. maxFileLenOf (Some (nat_str n @ [c])) = Ok v"
    using maxFileLenOf_nat_str [OF assms(1), of n] n by (intro exI [of _ "int n * 2 ^ 20 - 2 ^ 64"]) simp
next
  assume "2 ^ 63 \<le> int n"
  then show "\<exists>e. maxFileLenOf (Some (nat_str n @ [c])) = Fail e"
    using maxFileLenOf_nat_str [OF assms(1), of n] by simp
next
  show "if \<exists>k \<le> 0. rl_MaxLen raw = Some k then is_Panic (fst (ToRunLog raw os))
     else (\<exists>log. ToRunLog raw os = (Ok (MemLog log), os) \<and> 0 < mem_MaxLen log)"
    using assms(2) by (auto simp: ToRunLog_def map_io_def bind_io_def lift_io_def return_io_def
        NewMemOnlyRunLog_def mem_MaxLen_def gDefaultMemRunLogMaxLen_def split: option.splits)
qed

definition memory_log :: "int option \<Rightarrow> RunLogRaw" where
  "memory_log maxLen = \<lparr>rl_Type = ''memory'', rl_MaxLen = maxLen, rl_Path = None, rl_MaxFileLen = None, rl_MaxHistories = None\<rparr>"

theorem ToRunLog_limits_witness:
  "maxFileLenOf (Some (nat_str 50 @ ''m'')) = Ok 52428800 \<and>
   (\<exists>v < 0. maxFileLenOf (Some (nat_str (2 ^ 43) @ ''m'')) = Ok v) \<and>
   is_Panic (fst (ToRunLog (memory_log (Some 0)) \<lparr>files = Map.empty, faults = []\<rparr>))"
proof -
  have m: "rl_Type (memory_log (Some 0)) = ''memory''" "rl_MaxLen (memory_log (Some 0)) = Some 0"
    by (simp_all add: memory_log_def)
  show ?thesis
    using ToRunLog_limits [OF _ m(1), of "CHR ''m''" 50] ToRunLog_limits [OF _ m(1), of "CHR ''m''" "2 ^ 43"]
    by (simp add: m(2))
qed

end
