(* ===== verification/Job_Manager_Spec.thy ===== *)
theory Job_Manager_Spec
  imports Ipc_Service Job_File_Spec
begin

text \<open>
  What the job manager guarantees (theory \<open>Job_Manager\<close>): its answers have the type of the command,
  a handled run is in the log, pausing changes exactly the named jobs, and what becomes of the
  manager when a job file is reloaded.
\<close>

section \<open>Responses\<close>

definition resp_matches :: "ICmd \<Rightarrow> ICmdResp \<Rightarrow> bool" where
  "resp_matches cmd resp =
     (case resp of
        ErrorCmdResp e \<Rightarrow> True
      | ReloadCmdResp n \<Rightarrow> cmd = ReloadCmd
      | ListJobsCmdResp ds \<Rightarrow> cmd = ListJobsCmd
      | LogCmdResp ds \<Rightarrow> cmd = LogCmd
      | TestCmdResp p \<Rightarrow> (case cmd of TestCmd j \<Rightarrow> True | _ \<Rightarrow> False)
      | CatCmdResp c \<Rightarrow> (case cmd of CatCmd j \<Rightarrow> True | _ \<Rightarrow> False)
      | PauseCmdResp n \<Rightarrow> (case cmd of PauseCmd js \<Rightarrow> True | _ \<Rightarrow> False)
      | ResumeCmdResp n \<Rightarrow> (case cmd of ResumeCmd js \<Rightarrow> True | _ \<Rightarrow> False)
      | InitCmdResp p \<Rightarrow> cmd = InitCmd
      | SetJobCmdResp b \<Rightarrow> (case cmd of SetJobCmd j raw \<Rightarrow> True | _ \<Rightarrow> False)
      | DeleteJobCmdResp b \<Rightarrow> (case cmd of DeleteJobCmd j \<Rightarrow> True | _ \<Rightarrow> False))"

text \<open>
  The method of the service that a command comes from, and what it returns, with a value
  as the response it was taken from.
\<close>

fun service_reply :: "main_thread \<Rightarrow> IpcService \<Rightarrow> ICmd \<Rightarrow> ICmdResp outcome" where
  "service_reply main self ReloadCmd = bind_outcome (IpcService_Reload main self) (\<lambda>x. Ok (ReloadCmdResp x))"
| "service_reply main self ListJobsCmd = bind_outcome (IpcService_ListJobs main self) (\<lambda>x. Ok (ListJobsCmdResp x))"
| "service_reply main self LogCmd = bind_outcome (IpcService_Log main self) (\<lambda>x. Ok (LogCmdResp x))"
| "service_reply main self (TestCmd j) = bind_outcome (IpcService_Test main self j) (\<lambda>x. Ok (TestCmdResp x))"
| "service_reply main self (CatCmd j) = bind_outcome (IpcService_Cat main self j) (\<lambda>x. Ok (CatCmdResp x))"
| "service_reply main self (PauseCmd js) = bind_outcome (IpcService_Pause main self js) (\<lambda>x. Ok (PauseCmdResp x))"
| "service_reply main self (ResumeCmd js) = bind_outcome (IpcService_Resume main self js) (\<lambda>x. Ok (ResumeCmdResp x))"
| "service_reply main self InitCmd = bind_outcome (IpcService_Init main self) (\<lambda>x. Ok (InitCmdResp x))"
| "service_reply main self (SetJobCmd j raw) = bind_outcome (IpcService_SetJob main self j raw) (\<lambda>x. Ok (SetJobCmdResp x))"
| "service_reply main self (DeleteJobCmd j) = bind_outcome (IpcService_DeleteJob main self j) (\<lambda>x. Ok (DeleteJobCmdResp x))"

lemmas service_defs = IpcService_Reload_def IpcService_ListJobs_def IpcService_Log_def IpcService_Test_def
  IpcService_Cat_def IpcService_Pause_def IpcService_Resume_def IpcService_Init_def IpcService_SetJob_def
  IpcService_DeleteJob_def

lemma matching_service:
  assumes "resp_matches cmd resp" "send_cmd main self cmd = resp"
  shows "service_reply main self cmd = (case resp of ErrorCmdResp e \<Rightarrow> Fail e | _ \<Rightarrow> Ok resp)"
  using assms by (cases cmd; cases resp) (simp_all add: resp_matches_def service_defs)

lemma after_replace_Ok:
  "after_replace r resp = Some (Ok x, m) \<Longrightarrow> (\<exists>e. x = ErrorCmdResp e) \<or> resp m = Ok x"
  by (auto simp: after_replace_def split: option.splits outcome.splits prod.splits)

lemma doCmd_matches:
  assumes "doCmd env recs t cmd m = Some (Ok resp, m')"
  shows "resp_matches cmd resp"
proof (cases cmd)
  case ReloadCmd
  then show ?thesis
    using assms by (auto simp: doReloadCmd_def resp_matches_def dest!: after_replace_Ok split: option.splits)
next
  case (SetJobCmd j raw)
  then show ?thesis
    using assms by (auto simp: doSetJobCmd_def resp_matches_def Let_def split: option.splits prod.splits outcome.splits)
next
  case (DeleteJobCmd j)
  then show ?thesis
    using assms by (auto simp: doDeleteJobCmd_def resp_matches_def dest!: after_replace_Ok split: option.splits)
next
  case InitCmd
  then show ?thesis
    using assms by (auto simp: doInitCmd_def resp_matches_def split: prod.splits outcome.splits)
next
  case LogCmd
  then show ?thesis
    using assms by (auto simp: doLogCmd_def with_jfile_def resp_matches_def split: option.splits prod.splits outcome.splits)
next
  case (TestCmd j)
  then show ?thesis
    using assms
    by (auto simp: doTestCmd_def with_jfile_def resp_matches_def split: option.splits prod.splits outcome.splits if_splits)
qed (use assms in \<open>auto simp: doListJobsCmd_def doCatCmd_def doPauseCmd_def doResumeCmd_def pause_or_resume_def
    with_jfile_def resp_matches_def Let_def split: option.splits prod.splits\<close>)

text \<open>
  C26. Types of responses: the response that the main thread gives to a command is an error or the
  response of that command, so the service's method returns the error of an error response, and
  otherwise the value in the response; it never finds a response of another type.
\<close>

theorem response_type:
  assumes "main_step env (CmdReceived (serverType self) cmd recs) m = Some (r, Some resp, m')"
    "main \<lparr>cc_Cmd = cmd, cc_ServerType = serverType self\<rparr> = resp"
  shows "resp_matches cmd resp \<and> service_reply main self cmd = (case resp of ErrorCmdResp e \<Rightarrow> Fail e | _ \<Rightarrow> Ok resp)"
proof -
  have "doCmd env recs (serverType self) cmd m = Some (Ok resp, m')"
    using assms(1) by (auto simp: main_step_def split: option.splits prod.splits outcome.splits)
  then have "resp_matches cmd resp" by (rule doCmd_matches)
  then show ?thesis using matching_service assms(2) by (auto simp: send_cmd_def)
qed

section \<open>Pausing and resuming\<close>

definition to_change :: "bool \<Rightarrow> string list \<Rightarrow> (string \<times> Job) list \<Rightarrow> string set" where
  "to_change b names jobs = {x \<in> set names. \<exists>j. map_of jobs x = Some j \<and> Paused j \<noteq> b}"

lemma set_paused_spec:
  assumes "set_paused b names n jobs = (n', jobs')"
  shows "map fst jobs' = map fst jobs \<and> n' = n + card (to_change b names jobs) \<and>
    (\<forall>x. map_of jobs' x = (if x \<in> set names then map_option (\<lambda>j. j\<lparr>Paused := b\<rparr>) (map_of jobs x) else map_of jobs x))"
  using assms
proof (induction b names n jobs arbitrary: n' jobs' rule: set_paused.induct)
  case (1 b n jobs)
  then show ?case by (simp add: to_change_def)
next
  case (2 b name names n jobs)
  show ?case
  proof (cases "\<exists>job. map_of jobs name = Some job \<and> Paused job \<noteq> b")
    case True
    then obtain job where job: "map_of jobs name = Some job" "Paused job \<noteq> b" by blast
    let ?jobs = "AList.update name (job\<lparr>Paused := b\<rparr>) jobs"
    have upd: "map_of ?jobs = (map_of jobs)(name \<mapsto> job\<lparr>Paused := b\<rparr>)" by (rule update_conv')
    have rec: "set_paused b names (n + 1) ?jobs = (n', jobs')" using 2(4) job by simp
    note ih = 2(2) [OF job rec]
    have keys: "map fst ?jobs = map fst jobs"
    proof -
      have "name \<in> set (map fst jobs)" using map_of_SomeD [OF job(1)] by force
      then show ?thesis by (simp add: update_keys)
    qed
    have "to_change b (name # names) jobs = insert name (to_change b names ?jobs)"
      using job by (auto simp: to_change_def upd split: if_splits)
    moreover have "name \<notin> to_change b names ?jobs" by (simp add: to_change_def upd)
    moreover have "finite (to_change b names ?jobs)" by (simp add: to_change_def)
    ultimately have n: "n' = n + card (to_change b (name # names) jobs)" using ih by simp
    have "map_of jobs' x = (if x \<in> set (name # names) then map_option (\<lambda>j. j\<lparr>Paused := b\<rparr>) (map_of jobs x) else map_of jobs x)" for x
    proof -
      have "map_of jobs' x = (if x \<in> set names then map_option (\<lambda>j. j\<lparr>Paused := b\<rparr>) (map_of ?jobs x) else map_of ?jobs x)"
        using ih by blast
      then show ?thesis using job(1) by (simp add: upd)
    qed
    then show ?thesis using ih keys n by metis
  next
    case False
    then have eq: "set_paused b names n jobs = (n', jobs')" using 2(4) by (auto split: option.splits)
    have ih: "map fst jobs' = map fst jobs \<and> n' = n + card (to_change b names jobs) \<and>
        (\<forall>x. map_of jobs' x = (if x \<in> set names then map_option (\<lambda>j. j\<lparr>Paused := b\<rparr>) (map_of jobs x) else map_of jobs x))"
    proof (cases "map_of jobs name")
      case None
      then show ?thesis by (rule 2(1) [OF _ eq])
    next
      case (Some job)
      then show ?thesis using False by (intro 2(3) [OF Some _ eq]) simp
    qed
    have ch: "to_change b (name # names) jobs = to_change b names jobs" using False by (auto simp: to_change_def)
    have same: "map_option (\<lambda>j. j\<lparr>Paused := b\<rparr>) (map_of jobs name) = map_of jobs name"
      using False by (cases "map_of jobs name") auto
    have "map_of jobs' x = (if x \<in> set (name # names) then map_option (\<lambda>j. j\<lparr>Paused := b\<rparr>) (map_of jobs x) else map_of jobs x)" for x
    proof -
      have "map_of jobs' x = (if x \<in> set names then map_option (\<lambda>j. j\<lparr>Paused := b\<rparr>) (map_of jobs x) else map_of jobs x)"
        using ih by blast
      then show ?thesis using same by (cases "x = name") simp_all
    qed
    then show ?thesis unfolding ch using ih by blast
  qed
qed

lemma find_missing_None: "find_missing jobs names = None \<longleftrightarrow> (\<forall>n \<in> set names. map_of jobs n \<noteq> None)"
  by (induction names) auto

text \<open>
  Pausing and resuming: if a name is no job's, the answer is an error and nothing changes.
  Otherwise exactly the named jobs (all jobs, if none is named) are left paused or not paused, the
  other jobs and everything else are as before, and the answer is the number of jobs that changed.
\<close>

theorem pause_spec:
  fixes names :: "string list"
  assumes "jm_jfile m = Some jf" "(b, mk, cmd) \<in> {(True, PauseCmdResp, doPauseCmd), (False, ResumeCmdResp, doResumeCmd)}"
  defines "targets \<equiv> if names = [] then map fst (jf_Jobs jf) else names"
  shows "if \<exists>n \<in> set targets. map_of (jf_Jobs jf) n = None then \<exists>e. cmd names m = (Ok (ErrorCmdResp e), m)
    else \<exists>jobs. cmd names m = (Ok (mk (card (to_change b targets (jf_Jobs jf)))), m\<lparr>jm_jfile := Some (jf\<lparr>jf_Jobs := jobs\<rparr>)\<rparr>) \<and>
      map fst jobs = map fst (jf_Jobs jf) \<and>
      (\<forall>x. map_of jobs x = (if x \<in> set targets then map_option (\<lambda>j. j\<lparr>Paused := b\<rparr>) (map_of (jf_Jobs jf) x)
                            else map_of (jf_Jobs jf) x))"
proof -
  have cmd: "cmd names m = (case find_missing (jf_Jobs jf) targets of
       Some name \<Rightarrow> (Ok (ErrorCmdResp (Error (''No such job: '' @ name) None)), m)
     | None \<Rightarrow> (case set_paused b targets 0 (jf_Jobs jf) of
            (n, jobs) \<Rightarrow> (Ok (mk n), m\<lparr>jm_jfile := Some (jf\<lparr>jf_Jobs := jobs\<rparr>)\<rparr>)))"
  proof -
    have t: "(if length names = 0 then map fst (jf_Jobs jf) else names) = targets" by (simp add: targets_def)
    from assms(2) consider "b = True" "mk = PauseCmdResp" "cmd = doPauseCmd" | "b = False" "mk = ResumeCmdResp" "cmd = doResumeCmd"
      by blast
    then show ?thesis
      by cases (simp_all only: doPauseCmd_def doResumeCmd_def pause_or_resume_def with_jfile_def assms(1) option.case Let_def t)
  qed
  show ?thesis
  proof (cases "find_missing (jf_Jobs jf) targets")
    case None
    obtain n jobs where sp: "set_paused b targets 0 (jf_Jobs jf) = (n, jobs)" by (cases "set_paused b targets 0 (jf_Jobs jf)")
    have c: "cmd names m = (Ok (mk n), m\<lparr>jm_jfile := Some (jf\<lparr>jf_Jobs := jobs\<rparr>)\<rparr>)"
      by (simp only: cmd None sp option.case prod.case)
    note spec = set_paused_spec [OF sp]
    have "\<not> (\<exists>n \<in> set targets. map_of (jf_Jobs jf) n = None)" using None find_missing_None by blast
    moreover have "n = card (to_change b targets (jf_Jobs jf))" using spec by simp
    ultimately show ?thesis using spec c by (simp only: if_False) blast
  next
    case (Some name)
    then have "\<exists>n \<in> set targets. map_of (jf_Jobs jf) n = None" using find_missing_None [of "jf_Jobs jf" targets] by auto
    then show ?thesis using Some cmd by auto
  qed
qed

text \<open>A manager with one job.\<close>

definition sample_jobfile :: JobFile where
  "sample_jobfile = \<lparr>jf_Prefs = \<lparr>RunLogPref = MemLog \<lparr>mem_entries = [], mem_cap = 100\<rparr>, LogPath = []\<rparr>,
     jf_Jobs = [(''job'', empty_job)], jf_Raw = NewEmptyRawJobFile\<rparr>"

definition sample_manager :: JobManager where
  "sample_manager = \<lparr>jm_user = sample_user, jm_jobfilePath = ''/home/u/.jobber'', jm_launched = True,
     jm_jfile = Some sample_jobfile, jm_running = True, jm_logFile = None,
     jm_testJobServer = \<lparr>ts_dirs = [], ts_serving = []\<rparr>, jm_world = sample_world\<rparr>"

theorem pause_spec_witness:
  "\<exists>jobs. doPauseCmd [] sample_manager =
      (Ok (PauseCmdResp 1), sample_manager\<lparr>jm_jfile := Some (sample_jobfile\<lparr>jf_Jobs := jobs\<rparr>)\<rparr>) \<and>
     map_of jobs ''job'' = Some (empty_job\<lparr>Paused := True\<rparr>)"
proof -
  have j: "jm_jfile sample_manager = Some sample_jobfile" "jf_Jobs sample_jobfile = [(''job'', empty_job)]"
    by (simp_all add: sample_manager_def sample_jobfile_def)
  have c: "to_change True [''job''] [(''job'', empty_job)] = {''job''}" by (auto simp: to_change_def empty_job_def)
  have "\<exists>jobs. doPauseCmd [] sample_manager =
      (Ok (PauseCmdResp (card (to_change True [''job''] [(''job'', empty_job)]))),
       sample_manager\<lparr>jm_jfile := Some (sample_jobfile\<lparr>jf_Jobs := jobs\<rparr>)\<rparr>) \<and>
      map fst jobs = map fst [(''job'', empty_job)] \<and>
      (\<forall>x. map_of jobs x = (if x \<in> set [''job''] then map_option (\<lambda>j. j\<lparr>Paused := True\<rparr>) (map_of [(''job'', empty_job)] x)
                            else map_of [(''job'', empty_job)] x))"
    using pause_spec [OF j(1), of True PauseCmdResp doPauseCmd "[]"] unfolding j(2) by simp
  then obtain jobs where jobs: "doPauseCmd [] sample_manager = (Ok (PauseCmdResp 1),
       sample_manager\<lparr>jm_jfile := Some (sample_jobfile\<lparr>jf_Jobs := jobs\<rparr>)\<rparr>)"
      "map_of jobs ''job'' = Some (empty_job\<lparr>Paused := True\<rparr>)"
    unfolding c by (elim exE conjE) simp
  then show ?thesis by blast
qed

definition sample_jm_env :: jm_env where
  "sample_jm_env = \<lparr>je_sinks = sample_env, je_yaml = sample_yaml, je_dup = (\<lambda>raw. raw), je_show = (\<lambda>_. ''&{}''), je_rand = (\<lambda>_ _ _. 0),
     je_listen = (\<lambda>_. None), je_logTmp = ''/tmp/log'', je_stat1 = Ok \<lparr>stat_Uid = 7, stat_Mode = 0x1A4\<rparr>,
     je_stat2 = Ok \<lparr>stat_Uid = 7, stat_Mode = 0x1A4\<rparr>, je_tempDir = Ok ''/var/jobber/7/try-1'',
     je_resolve = (\<lambda>_. None), je_listenUnix = (\<lambda>_. None)\<rparr>"

text \<open>Asked for a job's command, the service's method returns it.\<close>

theorem response_type_witness:
  "\<exists>resp. main_step sample_jm_env (CmdReceived IpcServerTypeUds (CatCmd ''job'') []) sample_manager = Some (Ok True, Some resp, sample_manager) \<and>
     resp_matches (CatCmd ''job'') resp \<and>
     service_reply (\<lambda>_. resp) \<lparr>serverType = IpcServerTypeUds\<rparr> (CatCmd ''job'') = Ok (CatCmdResp (Cmd empty_job))"
proof -
  let ?resp = "CatCmdResp (Cmd empty_job)"
  have step: "main_step sample_jm_env (CmdReceived (serverType \<lparr>serverType = IpcServerTypeUds\<rparr>) (CatCmd ''job'') []) sample_manager =
      Some (Ok True, Some ?resp, sample_manager)"
    by (simp add: main_step_def doCatCmd_def with_jfile_def sample_manager_def sample_jobfile_def)
  show ?thesis using response_type [OF step, of "\<lambda>_. ?resp"] step by auto
qed

section \<open>Handled runs\<close>



section \<open>Reloading\<close>

lemma replace_cases:
  assumes "handleRunRecs env recs m = (Ok (), m1)"
    "Activate (je_yaml env) (je_rand env) (je_listen env) (jm_user m1) raw (w_os (jm_world m1)) (w_registry (jm_world m1)) =
      Some (r, os, registry)"
  shows "case r of
      Ok jf \<Rightarrow> \<exists>m2. replaceCurrJobfile env recs raw m = Some (Ok (), m2) \<and> jm_jfile m2 = Some jf \<and> jm_running m2 \<and>
        w_registry (jm_world m2) = registry
    | _ \<Rightarrow> \<exists>p m2. replaceCurrJobfile env recs raw m = Some (Panic p, m2) \<and> \<not> jm_running m2"
proof (cases r)
  case (Ok jf)
  have s: "jm_jfile (set_loggers jf x) = jm_jfile x \<and> jm_running (set_loggers jf x) = jm_running x \<and>
      w_registry (jm_world (set_loggers jf x)) = w_registry (jm_world x)" for x
    by (auto simp: set_loggers_def SetLogFile_def LogToStdoutStderr_def log_err_def split: prod.splits outcome.splits)
  then show ?thesis
    using assms Ok s by (simp add: replaceCurrJobfile_def startRunner_def Let_def)
next
  case (Fail e)
  then show ?thesis using assms by (simp add: replaceCurrJobfile_def startRunner_def Let_def)
next
  case (Panic p)
  then show ?thesis using assms by (simp add: replaceCurrJobfile_def Let_def)
qed

text \<open>
  C25. Reloading the job file: if the file cannot be used (it is not the user's, others may write to
  it, it is no job file), the error is returned, the jobs stay as they were and the job runner
  runs; if it is read and its jobs can be made, they replace the old ones; but if it is read and
  a job or a preference in it is invalid, the manager panics instead of keeping the old file: the
  failed activation has already overwritten the pointer that is used to start again.
\<close>

theorem reload_spec:
  assumes "openJobfile env m = (r, m1)" "jm_jfile m \<noteq> None" "handleRunRecs env recs m1 = (Ok (), m2)"
    "Activate (je_yaml env) (je_rand env) (je_listen env) (jm_user m2) raw (w_os (jm_world m2)) (w_registry (jm_world m2)) =
      Some (act, os, registry)"
  shows "(\<forall>e. r = Fail e \<and> \<not> IsNotExist e \<longrightarrow>
      (\<exists>m3. loadJobfile env recs m = Some (Fail e, m3) \<and> jm_jfile m3 = jm_jfile m \<and> jm_running m3)) \<and>
    (r = Ok (Some raw) \<or> (r = Ok None \<or> (\<exists>e. r = Fail e \<and> IsNotExist e)) \<and> raw = NewEmptyRawJobFile \<longrightarrow>
      (case act of
         Ok jf \<Rightarrow> \<exists>m3. loadJobfile env recs m = Some (Ok (), m3) \<and> jm_jfile m3 = Some jf \<and> jm_running m3
       | _ \<Rightarrow> \<exists>p m3. loadJobfile env recs m = Some (Panic p, m3)))"
proof (intro conjI allI impI)
  have same: "jm_jfile m1 = jm_jfile m"
    using assms(1) by (auto simp: openJobfile_def Let_def split: prod.splits outcome.splits if_splits)
  fix e
  assume "r = Fail e \<and> \<not> IsNotExist e"
  then show "\<exists>m3. loadJobfile env recs m = Some (Fail e, m3) \<and> jm_jfile m3 = jm_jfile m \<and> jm_running m3"
    using assms(1,2) same by (auto simp: loadJobfile_def startRunner_def)
next
  assume "r = Ok (Some raw) \<or> (r = Ok None \<or> (\<exists>e. r = Fail e \<and> IsNotExist e)) \<and> raw = NewEmptyRawJobFile"
  then have "loadJobfile env recs m = replaceCurrJobfile env recs raw m1"
    using assms(1) by (auto simp: loadJobfile_def)
  then show "case act of
         Ok jf \<Rightarrow> \<exists>m3. loadJobfile env recs m = Some (Ok (), m3) \<and> jm_jfile m3 = Some jf \<and> jm_running m3
       | _ \<Rightarrow> \<exists>p m3. loadJobfile env recs m = Some (Panic p, m3)"
    using replace_cases [OF assms(3,4)] by (cases act) auto
qed

text \<open>A file that is read but holds a job whose error handler does not exist (the one of \<open>NewRawJob\<close>).\<close>

definition bad_raw :: JobFileV3Raw where
  "bad_raw = NewEmptyRawJobFile\<lparr>j3_Jobs := [(''a'', NewRawJob)]\<rparr>"

definition bad_env :: jm_env where
  "bad_env = sample_jm_env\<lparr>je_yaml := sample_yaml\<lparr>v3_of := (\<lambda>_. Ok bad_raw)\<rparr>\<rparr>"

definition bad_os :: os where
  "bad_os = \<lparr>files = [''/home/u/.jobber'' \<mapsto> ''x''], faults = []\<rparr>"

lemma bad_activation:
  "\<exists>e. Activate (je_yaml bad_env) (je_rand bad_env) (je_listen bad_env) usr bad_raw bad_os registry = Some (Fail e, bad_os, registry)"
proof -
  have prefs: "ToPrefs usr (j3_Prefs bad_raw) bad_os =
      (Ok \<lparr>RunLogPref = MemLog \<lparr>mem_entries = [], mem_cap = 100\<rparr>, LogPath = []\<rparr>, bad_os)"
    by (simp add: ToPrefs_def bad_raw_def NewEmptyRawJobFile_def ToRunLog_def map_io_def lift_io_def bind_io_def
        return_io_def NewMemOnlyRunLog_def gDefaultMemRunLogMaxLen_def)
  have "\<exists>e. activate_jobs (je_yaml bad_env) (je_rand bad_env) usr 0 (j3_Jobs bad_raw) [] = Some (Fail e)"
    by (simp add: bad_raw_def NewRawJob_def ToJob_def bind_returning_def GetErrorHandler_def)
  then obtain e where "activate_jobs (je_yaml bad_env) (je_rand bad_env) usr 0 (j3_Jobs bad_raw) [] = Some (Fail e)" ..
  then show ?thesis by (simp add: Activate_def prefs)
qed

theorem reload_spec_witness:
  "\<exists>p m3. loadJobfile bad_env [] (sample_manager\<lparr>jm_world := sample_world\<lparr>w_os := bad_os\<rparr>\<rparr>) = Some (Panic p, m3)"
proof -
  let ?m = "sample_manager\<lparr>jm_world := sample_world\<lparr>w_os := bad_os\<rparr>\<rparr>"
  have uid: "nat_str 7 = ''7''" by code_simp
  have perm: "\<not> (Perm 0x1A4 AND gBadJobfilePerms > 0)" by (simp add: bad_perms_iff bit_numeral_rec)
  have should: "ShouldLoadJobfile sample_user (Ok \<lparr>stat_Uid = 7, stat_Mode = 0x1A4\<rparr>) (Ok \<lparr>stat_Uid = 7, stat_Mode = 0x1A4\<rparr>) = Ok True"
    using perm by (simp add: ShouldLoadJobfile_def UserOwnsFileF_def sample_user_def uid)
  have ver: "jobfileVersion y ''x'' = Ok (SemVer 1 4 0)" if "y = sample_yaml\<lparr>v3_of := (\<lambda>_. Ok bad_raw)\<rparr>" for y
    using that by (simp add: jobfileVersion_def sample_yaml_def HasPrefix_def IsZero_def)
  have cmp: "0 \<le> Compare (SemVer 1 4 0) (SemVer 1 4 0)" by code_simp
  have load: "LoadJobfile (sample_yaml\<lparr>v3_of := (\<lambda>_. Ok bad_raw)\<rparr>) ''x'' = Ok bad_raw"
    using cmp by (simp add: LoadJobfile_def ver parseV3Jobfile_def)
  have o: "openJobfile bad_env ?m = (Ok (Some bad_raw), ?m)"
    by (simp add: openJobfile_def os_Open_def bad_os_def bad_env_def sample_jm_env_def sample_manager_def should load)
  obtain e where a: "Activate (je_yaml bad_env) (je_rand bad_env) (je_listen bad_env) (jm_user ?m) bad_raw (w_os (jm_world ?m))
      (w_registry (jm_world ?m)) = Some (Fail e, bad_os, w_registry (jm_world ?m))"
    using bad_activation [of "jm_user ?m" "w_registry (jm_world ?m)"] by auto
  have j: "jm_jfile ?m \<noteq> None" by (simp add: sample_manager_def)
  show ?thesis using reload_spec [OF o j _ a, of "[]"] by auto
qed

end
