(* ===== verification/Scheduler.thy ===== *)
theory Scheduler
  imports Job_Queue Job_Manager_Spec
begin

text \<open>
  The scheduler as a whole: the goroutine of \<open>JobRunnerThread.Start\<close>
  (\<open>jobberrunner/job_runner_thread.go\<close>) over the queue (\<open>jobberrunner/queue.go\<close>) and the jobs of the
  current job file, the goroutines that run the jobs and change them when they end, and the main
  thread of the job manager, which pauses and resumes jobs, receives records, and replaces the job
  file. The thread protocol is that of \<open>Job_Runner\<close>; here its steps carry the data they work on.

  The goroutine that schedules is interrupted at its accesses to what it shares: it has asked for
  a job and sleeps on it, it has been given a job and is about to look at its pause flag. Every
  reading of the clock is any time at all, so nothing is assumed of the clock, which may be set
  back. Each access to a job is atomic here; in Go the goroutines race for its fields. The
  activated job file comes from \<open>Activate\<close>; the case that it fails, in which the manager
  dereferences a nil pointer, is treated with the job manager.
\<close>

section \<open>State\<close>

text \<open>
  A start: which job, the run time that was due, the time and status when \<open>Pop\<close> chose the job, and
  the pause flag when it was launched.
\<close>

record start_event =
  st_name :: string
  st_due :: go_time
  st_time :: go_time
  st_status :: JobStatus
  st_paused :: bool

text \<open>Where the loop of the goroutine is, while the thread is \<^const>\<open>Popping\<close>.\<close>

datatype pop_pc = Asking | Sleeping string | Got start_event

datatype run_state = Executing | Ended "error option"

record sched =
  s_runner :: runner
  s_jobs :: jobs
  s_q :: "string list"
  s_pc :: pop_pc
  s_runs :: "(string \<times> run_state) list"
  s_log :: "start_event list"

section \<open>Operations\<close>

text \<open>\<open>Pop\<close> takes the job that is first in the queue.\<close>

definition take_job :: "sched \<Rightarrow> sched outcome" where
  "take_job s =
     (let (n, q1) = heap_Pop (job_less (s_jobs s)) (s_q s) in
      case next_of (s_jobs s) n of
        None \<Rightarrow> Panic ''nil pointer dereference''
      | Some d \<Rightarrow> Ok (s\<lparr>s_q := q1, s_pc := Sleeping n\<rparr>))"

text \<open>\<open>Pop\<close> wakes up at a time \<open>t\<close> when the job is due: it is scheduled anew, and runs or is skipped.\<close>

definition wake_job :: "location \<Rightarrow> go_time \<Rightarrow> string \<Rightarrow> sched \<Rightarrow> sched outcome" where
  "wake_job loc t n s =
     (case s_jobs s n of
        None \<Rightarrow> Panic ''nil pointer dereference''
      | Some job \<Rightarrow>
          bind_outcome (nextRunTime loc job (Add t Second_dur)) (\<lambda>next1.
            let job1 = job\<lparr>NextRunTime := next1\<rparr>;
                jobs1 = (s_jobs s)(n \<mapsto> job1);
                q2 = (if next1 \<noteq> None then heap_Push (job_less jobs1) n (s_q s) else s_q s)
            in Ok (s\<lparr>s_jobs := jobs1(n \<mapsto> snd (ShouldRun job1)), s_q := q2,
                 s_pc := if fst (ShouldRun job1)
                         then Got \<lparr>st_name = n, st_due = the (NextRunTime job), st_time = t, st_status = Status job, st_paused = False\<rparr>
                         else Asking\<rparr>)))"

text \<open>The goroutine looks at the pause flag and launches the run.\<close>

definition launch_job :: "start_event \<Rightarrow> sched \<Rightarrow> sched outcome" where
  "launch_job e s =
     (case s_jobs s (st_name e) of
        None \<Rightarrow> Panic ''nil pointer dereference''
      | Some job \<Rightarrow>
          if Paused job then Ok (s\<lparr>s_pc := Asking\<rparr>)
          else Ok (s\<lparr>s_pc := Asking, s_log := e\<lparr>st_paused := Paused job\<rparr> # s_log s, s_runs := (st_name e, Executing) # s_runs s,
                 s_runner := (s_runner s)\<lparr>active := st_name e # active (s_runner s),
                                           launched := st_name e # launched (s_runner s)\<rparr>\<rparr>))"

text \<open>\<open>Pop\<close> is cancelled while it sleeps: the job goes back into the queue, and the loop ends.\<close>

definition put_back :: "string \<Rightarrow> sched \<Rightarrow> sched" where
  "put_back n s = s\<lparr>s_q := heap_Push (job_less (s_jobs s)) n (s_q s), s_pc := Asking,
     s_runner := (s_runner s)\<lparr>loopAt := Waiting\<rparr>\<rparr>"

text \<open>A run ends and changes its job.\<close>

definition end_run :: "string \<Rightarrow> SubprocFate \<Rightarrow> go_time \<Rightarrow> sched \<Rightarrow> sched outcome" where
  "end_run n fate t s =
     (case s_jobs s n of
        None \<Rightarrow> Panic ''nil pointer dereference''
      | Some job \<Rightarrow> Ok (s\<lparr>s_jobs := (s_jobs s)(n \<mapsto> job_after fate t job)\<rparr>))"

text \<open>The main thread pauses or resumes jobs.\<close>

definition pause_jobs :: "bool \<Rightarrow> string list \<Rightarrow> jobs \<Rightarrow> jobs" where
  "pause_jobs b names jobs = (\<lambda>n. if n \<in> set names then map_option (\<lambda>j. j\<lparr>Paused := b\<rparr>) (jobs n) else jobs n)"

text \<open>The main thread starts the job-runner thread on the jobs of a job file.\<close>

definition start_jobs :: "location \<Rightarrow> go_time \<Rightarrow> string list \<Rightarrow> (string \<times> Job) list \<Rightarrow> sched \<Rightarrow> sched outcome" where
  "start_jobs loc now names al s =
     bind_outcome (Start (s_runner s)) (\<lambda>r.
       bind_outcome (SetJobs loc now names (map_of al)) (\<lambda>(jobs, q).
         Ok \<lparr>s_runner = r\<lparr>mainAt := Serving\<rparr>, s_jobs = jobs, s_q = q, s_pc = Asking, s_runs = [], s_log = []\<rparr>))"

text \<open>
  The steps of the thread and of its user that touch neither the queue nor the jobs: the thread
  waits for its runs and closes the channel, the main thread cancels, drains, and exits.
\<close>

definition plain :: "runner \<Rightarrow> runner outcome \<Rightarrow> bool" where
  "plain s r \<longleftrightarrow>
     (case r of
        Ok s' \<Rightarrow> launched s' = launched s \<and> delivered s' = delivered s \<and> (loopAt s = Popping \<longrightarrow> loopAt s' = Popping) \<and>
          (mainAt s = Starting \<longrightarrow> mainAt s' = Starting)
      | _ \<Rightarrow> mainAt s \<noteq> Starting)"

definition receiving :: "runner \<Rightarrow> bool" where
  "receiving s \<longleftrightarrow> (case mainAt s of Serving \<Rightarrow> True | Draining b \<Rightarrow> True | _ \<Rightarrow> False)"

section \<open>Steps\<close>

inductive sched_step :: "location \<Rightarrow> sched \<Rightarrow> sched outcome \<Rightarrow> bool" for loc where
  ask: "loopAt (s_runner s) = Popping \<Longrightarrow> s_pc s = Asking \<Longrightarrow> s_q s \<noteq> [] \<Longrightarrow> sched_step loc s (take_job s)"
| wake: "loopAt (s_runner s) = Popping \<Longrightarrow> s_pc s = Sleeping n \<Longrightarrow> next_of (s_jobs s) n = Some d \<Longrightarrow> d \<le> t \<Longrightarrow>
    sched_step loc s (wake_job loc t n s)"
| launch: "loopAt (s_runner s) = Popping \<Longrightarrow> s_pc s = Got e \<Longrightarrow> sched_step loc s (launch_job e s)"
| cancelled: "loopAt (s_runner s) = Popping \<Longrightarrow> s_pc s = Sleeping n \<Longrightarrow> ctxDone (s_runner s) \<Longrightarrow>
    sched_step loc s (Ok (put_back n s))"
| empty: "loopAt (s_runner s) = Popping \<Longrightarrow> s_pc s = Asking \<Longrightarrow> s_q s = [] \<Longrightarrow> ctxDone (s_runner s) \<Longrightarrow>
    sched_step loc s (Ok (s\<lparr>s_runner := (s_runner s)\<lparr>loopAt := Waiting\<rparr>\<rparr>))"
| run_ends: "s_runs s = as @ (n, Executing) # bs \<Longrightarrow>
    sched_step loc s (end_run n fate t (s\<lparr>s_runs := as @ (n, Ended None) # bs\<rparr>))"
| run_errs: "s_runs s = as @ (n, Executing) # bs \<Longrightarrow>
    sched_step loc s (Ok (s\<lparr>s_runs := as @ (n, Ended (Some e)) # bs\<rparr>))"
| deliver: "(n, Ended err) \<in> set (s_runs s) \<Longrightarrow> runRecChan (s_runner s) = OpenChan \<Longrightarrow> receiving (s_runner s) \<Longrightarrow>
    sched_step loc s (case err of
      Some e \<Rightarrow> Panic (Error_Error e)
    | None \<Rightarrow> Ok (s\<lparr>s_runs := remove1 (n, Ended None) (s_runs s),
        s_runner := (s_runner s)\<lparr>active := remove1 n (active (s_runner s)), delivered := n # delivered (s_runner s)\<rparr>\<rparr>))"
| thread: "runner_step (s_runner s) r \<Longrightarrow> plain (s_runner s) r \<Longrightarrow>
    sched_step loc s (bind_outcome r (\<lambda>r1. Ok (s\<lparr>s_runner := r1\<rparr>)))"
| pause: "mainAt (s_runner s) = Serving \<Longrightarrow> set names \<subseteq> dom (s_jobs s) \<Longrightarrow>
    sched_step loc s (Ok (s\<lparr>s_jobs := pause_jobs b names (s_jobs s)\<rparr>))"
| start: "mainAt (s_runner s) = Starting \<Longrightarrow>
    Activate yaml rand listen usr raw os registry = Some (Ok jf, os', registry') \<Longrightarrow>
    distinct (map fst (j3_Jobs raw)) \<Longrightarrow> distinct names \<Longrightarrow> set names = fst ` set (jf_Jobs jf) \<Longrightarrow>
    sched_step loc s (start_jobs loc now names (jf_Jobs jf) s)"

inductive_cases sched_stepE: "sched_step loc s r"

definition sched_init :: "main_phase \<Rightarrow> sched" where
  "sched_init ph = \<lparr>s_runner = runner_init ph, s_jobs = Map.empty, s_q = [], s_pc = Asking, s_runs = [], s_log = []\<rparr>"

inductive sched_reaches :: "location \<Rightarrow> sched outcome \<Rightarrow> bool" for loc where
  init_load: "sched_reaches loc (Ok (sched_init (Draining True)))"
| init_error: "sched_reaches loc (Ok (sched_init Starting))"
| step: "sched_reaches loc (Ok s) \<Longrightarrow> sched_step loc s r \<Longrightarrow> sched_reaches loc r"

section \<open>The invariant\<close>

definition store_ok :: "location \<Rightarrow> jobs \<Rightarrow> bool" where
  "store_ok loc jobs \<longleftrightarrow> (\<forall>n job. jobs n = Some job \<longrightarrow> job_inv job \<and> job_ok loc job)"

text \<open>The job that the goroutine holds is the one job with a next run time that is not queued.\<close>

definition held :: "pop_pc \<Rightarrow> string set" where
  "held pc = (case pc of Sleeping n \<Rightarrow> {n} | _ \<Rightarrow> {})"

definition loop_inv :: "location \<Rightarrow> sched \<Rightarrow> bool" where
  "loop_inv loc s \<longleftrightarrow> queue_inv loc (s_jobs s) (s_q s) \<and> held (s_pc s) \<inter> set (s_q s) = {} \<and>
     {n. next_of (s_jobs s) n \<noteq> None} = set (s_q s) \<union> held (s_pc s)"

text \<open>The starts so far, with the one that is about to happen.\<close>

definition pending :: "pop_pc \<Rightarrow> start_event list" where
  "pending pc = (case pc of Got e \<Rightarrow> [e] | _ \<Rightarrow> [])"

lemma pc_simps [simp]:
  "held Asking = {}" "held (Sleeping n) = {n}" "held (Got e) = {}"
  "pending Asking = []" "pending (Sleeping n) = []" "pending (Got e) = [e]"
  by (simp_all add: held_def pending_def)

definition starts :: "sched \<Rightarrow> start_event list" where
  "starts s = pending (s_pc s) @ s_log s"

definition start_ok :: "location \<Rightarrow> jobs \<Rightarrow> start_event \<Rightarrow> bool" where
  "start_ok loc jobs e \<longleftrightarrow> st_due e \<le> st_time e \<and> st_status e \<noteq> JobFailed \<and> \<not> st_paused e \<and>
     (\<exists>job. jobs (st_name e) = Some job \<and> schedule_admits loc (JobTimeSpec job) (st_due e) \<and>
        (\<forall>t. NextRunTime job = Some t \<longrightarrow> st_due e < t))"

definition start_key :: "start_event \<Rightarrow> string \<times> go_time" where
  "start_key e = (st_name e, st_due e)"

definition sched_inv :: "location \<Rightarrow> sched \<Rightarrow> bool" where
  "sched_inv loc s \<longleftrightarrow> runner_inv (s_runner s) \<and> store_ok loc (s_jobs s) \<and>
     mset (map fst (s_runs s)) = mset (active (s_runner s)) \<and> map st_name (s_log s) = launched (s_runner s) \<and>
     fst ` set (s_runs s) \<subseteq> dom (s_jobs s) \<and> (loopAt (s_runner s) = Popping \<longrightarrow> loop_inv loc s) \<and>
     list_all (start_ok loc (s_jobs s)) (starts s) \<and> distinct (map start_key (starts s))"

section \<open>Steps that keep every job's schedule\<close>

text \<open>A change of the jobs that keeps their schedules and their next run times.\<close>

definition quiet :: "jobs \<Rightarrow> jobs \<Rightarrow> bool" where
  "quiet jobs jobs' \<longleftrightarrow> (\<forall>n. rel_option (\<lambda>j j'. NextRunTime j' = NextRunTime j \<and> JobTimeSpec j' = JobTimeSpec j \<and>
     (job_inv j \<longrightarrow> job_inv j')) (jobs n) (jobs' n))"

lemma quiet_Some:
  assumes "quiet jobs jobs'"
  shows "jobs n = Some j \<Longrightarrow> \<exists>j'. jobs' n = Some j' \<and> NextRunTime j' = NextRunTime j \<and> JobTimeSpec j' = JobTimeSpec j \<and> (job_inv j \<longrightarrow> job_inv j')"
    "jobs' n = Some j' \<Longrightarrow> \<exists>j. jobs n = Some j \<and> NextRunTime j' = NextRunTime j \<and> JobTimeSpec j' = JobTimeSpec j \<and> (job_inv j \<longrightarrow> job_inv j')"
  using assms [unfolded quiet_def, rule_format, of n] by (auto simp: option_rel_Some1 option_rel_Some2)

lemma quiet_next_of: "quiet jobs jobs' \<Longrightarrow> next_of jobs' n = next_of jobs n"
  unfolding quiet_def next_of_def by (drule spec [of _ n]) (auto elim: option.rel_cases)

lemma quiet_dom: "quiet jobs jobs' \<Longrightarrow> dom jobs' = dom jobs"
  using quiet_Some by (auto simp: dom_def) blast+

lemma quiet_upd: "jobs n = Some job \<Longrightarrow> NextRunTime job' = NextRunTime job \<Longrightarrow> JobTimeSpec job' = JobTimeSpec job \<Longrightarrow>
    (job_inv job \<Longrightarrow> job_inv job') \<Longrightarrow> quiet jobs (jobs(n \<mapsto> job'))"
  by (auto simp: quiet_def intro: option.rel_refl)

lemma quiet_pause: "quiet jobs (pause_jobs b names jobs)"
  by (auto simp: quiet_def pause_jobs_def option.rel_map job_inv_def intro: option.rel_refl)

lemma job_ok_cong:
  "NextRunTime j' = NextRunTime j \<Longrightarrow> JobTimeSpec j' = JobTimeSpec j \<Longrightarrow> job_ok loc j' = job_ok loc j"
  by (simp add: job_ok_def split: option.split)

lemma quiet_store_ok:
  assumes "quiet jobs jobs'" "store_ok loc jobs"
  shows "store_ok loc jobs'"
  unfolding store_ok_def
proof (intro allI impI)
  fix n j' assume "jobs' n = Some j'"
  from quiet_Some(2) [OF assms(1) this] assms(2) show "job_inv j' \<and> job_ok loc j'"
    unfolding store_ok_def using job_ok_cong by blast
qed

lemma quiet_queue_inv:
  assumes "quiet jobs jobs'" "queue_inv loc jobs q"
  shows "queue_inv loc jobs' q"
proof -
  have "is_heap (job_less jobs') q"
    using assms is_heap_cong [of q "job_less jobs" "job_less jobs'"]
    by (metis job_less_cong quiet_next_of queue_inv_def)
  moreover have "\<exists>job t. jobs' n = Some job \<and> NextRunTime job = Some t \<and> job_ok loc job" if "n \<in> set q" for n
    using assms(2) that quiet_Some(1) [OF assms(1), of n] by (force simp: queue_inv_def job_ok_def)
  ultimately show ?thesis using assms(2) by (simp add: queue_inv_def)
qed

lemma quiet_start_ok: "quiet jobs jobs' \<Longrightarrow> start_ok loc jobs e \<Longrightarrow> start_ok loc jobs' e"
  unfolding start_ok_def using quiet_Some(1) [of jobs jobs' "st_name e"] by fastforce

lemma sched_inv_quiet:
  assumes "sched_inv loc s" "quiet (s_jobs s) jobs'" "map fst runs = map fst (s_runs s)"
  shows "sched_inv loc (s\<lparr>s_runs := runs, s_jobs := jobs'\<rparr>)"
proof -
  have "fst ` set runs = fst ` set (s_runs s)" using assms(3) by (metis set_map)
  moreover have "starts (s\<lparr>s_runs := runs, s_jobs := jobs'\<rparr>) = starts s" by (simp add: starts_def)
  moreover have "list_all (start_ok loc jobs') (starts s)"
    using assms(1) quiet_start_ok [OF assms(2)] by (auto simp: sched_inv_def list_all_iff)
  ultimately show ?thesis
    using assms(1,3) quiet_store_ok [OF assms(2)] quiet_dom [OF assms(2)] quiet_queue_inv [OF assms(2)] quiet_next_of [OF assms(2)]
    by (simp add: sched_inv_def loop_inv_def)
qed

text \<open>The frame of a step in which only the runner changes, and the loop stays where it is or ends.\<close>

lemma sched_inv_runner:
  assumes "sched_inv loc s" "runner_inv r" "active r = active (s_runner s)" "launched r = launched (s_runner s)"
    "loopAt r = Popping \<Longrightarrow> loopAt (s_runner s) = Popping"
  shows "sched_inv loc (s\<lparr>s_runner := r\<rparr>)"
  using assms by (auto simp: sched_inv_def loop_inv_def starts_def)

section \<open>The invariant is kept\<close>

text \<open>Each of the following shows one kind of step.\<close>

lemma take_job_inv:
  assumes inv: "sched_inv loc s" and at: "loopAt (s_runner s) = Popping" "s_pc s = Asking" "s_q s \<noteq> []"
  shows "\<exists>s'. take_job s = Ok s' \<and> sched_inv loc s'"
proof -
  obtain n q1 where pop: "heap_Pop (job_less (s_jobs s)) (s_q s) = (n, q1)" by fastforce
  have loop: "loop_inv loc s" using inv at by (simp add: sched_inv_def)
  then have q: "queue_inv loc (s_jobs s) (s_q s)" by (simp add: loop_inv_def)
  note q1 = heap_Pop_queue_inv [OF q at(3) pop]
  have all: "{m. next_of (s_jobs s) m \<noteq> None} = insert n (set q1)"
    using loop at(2) q1(3) by (simp add: loop_inv_def)
  then obtain d where "next_of (s_jobs s) n = Some d" by blast
  then have "take_job s = Ok (s\<lparr>s_q := q1, s_pc := Sleeping n\<rparr>)" by (simp add: take_job_def pop)
  moreover have "loop_inv loc (s\<lparr>s_q := q1, s_pc := Sleeping n\<rparr>)"
    using q1(1,2) all by (auto simp: loop_inv_def)
  ultimately show ?thesis using inv at by (simp add: sched_inv_def starts_def)
qed

lemma put_back_inv:
  assumes inv: "sched_inv loc s" and at: "loopAt (s_runner s) = Popping" "s_pc s = Sleeping n" "ctxDone (s_runner s)"
  shows "sched_inv loc (put_back n s)"
proof -
  have "runner_inv ((s_runner s)\<lparr>loopAt := Waiting\<rparr>)"
    using runner_inv_step [OF pop_nil [OF at(1,3)]] inv by (simp add: sched_inv_def)
  then show ?thesis using inv at by (simp add: sched_inv_def starts_def put_back_def)
qed

lemma launch_job_inv:
  assumes inv: "sched_inv loc s" and at: "loopAt (s_runner s) = Popping" "s_pc s = Got e"
  shows "\<exists>s'. launch_job e s = Ok s' \<and> sched_inv loc s'"
proof -
  have e: "start_ok loc (s_jobs s) e" using inv at by (simp add: sched_inv_def starts_def)
  then obtain job where job: "s_jobs s (st_name e) = Some job" by (auto simp: start_ok_def)
  have "\<not> st_paused e" using e by (simp add: start_ok_def)
  then have same: "e\<lparr>st_paused := False\<rparr> = e" by (cases e) simp
  have run: "runner_inv ((s_runner s)\<lparr>active := st_name e # active (s_runner s), launched := st_name e # launched (s_runner s)\<rparr>)"
    using runner_inv_step [OF pop_job [OF at(1), of "st_name e"]] inv by (simp add: sched_inv_def)
  show ?thesis
  proof (cases "Paused job")
    case True
    then show ?thesis using inv at job by (simp add: launch_job_def sched_inv_def starts_def loop_inv_def)
  next
    case False
    then show ?thesis using inv at job run
      by (auto simp: launch_job_def sched_inv_def starts_def loop_inv_def same)
  qed
qed

lemma ShouldRun_not_failed: "fst (ShouldRun job) \<Longrightarrow> Status job \<noteq> JobFailed"
  by (auto simp: ShouldRun_def)

text \<open>Waking up: the new run time is after every start of the job.\<close>

lemma wake_job_inv:
  assumes inv: "sched_inv loc s" and at: "loopAt (s_runner s) = Popping" "s_pc s = Sleeping n"
    "next_of (s_jobs s) n = Some d" "d \<le> t"
  shows "\<exists>s'. wake_job loc t n s = Ok s' \<and> sched_inv loc s'"
proof -
  have loop: "queue_inv loc (s_jobs s) (s_q s)" "n \<notin> set (s_q s)"
    "{m. next_of (s_jobs s) m \<noteq> None} = insert n (set (s_q s))"
    using inv at by (simp_all add: sched_inv_def loop_inv_def)
  obtain job where job: "s_jobs s n = Some job" "NextRunTime job = Some d"
    using at(3) by (auto simp: next_of_def bind_eq_Some_conv)
  have ok: "job_inv job" "job_ok loc job" using inv job(1) by (auto simp: sched_inv_def store_ok_def)
  obtain next1 where next1: "nextRunTime loc job (Add t Second_dur) = Ok next1"
      "job_ok loc (job\<lparr>NextRunTime := next1\<rparr>)" "\<And>u. next1 = Some u \<Longrightarrow> Add t Second_dur \<le> u"
    using nextRunTime_ok ok(2) by (metis job_ok_def)
  have later: "d < u" if "next1 = Some u" for u
    using next1(3) [OF that] at(4) by (simp add: Add_def Second_dur_def)
  let ?job1 = "job\<lparr>NextRunTime := next1\<rparr>"
  let ?jobs1 = "(s_jobs s)(n \<mapsto> ?job1)"
  define q2 where "q2 = (if next1 \<noteq> None then heap_Push (job_less ?jobs1) n (s_q s) else s_q s)"
  define jobs2 where "jobs2 = (s_jobs s)(n \<mapsto> snd (ShouldRun ?job1))"
  define pc where "pc = (if fst (ShouldRun ?job1)
    then Got \<lparr>st_name = n, st_due = d, st_time = t, st_status = Status job, st_paused = False\<rparr> else Asking)"
  have res: "wake_job loc t n s = Ok (s\<lparr>s_jobs := jobs2, s_q := q2, s_pc := pc\<rparr>)"
    by (simp add: wake_job_def job next1(1) Let_def jobs2_def q2_def pc_def)
  have "queue_inv loc jobs2 q2"
    using ShouldRun_queue_inv [OF reschedule_inv [OF loop(1,2) next1(2) refl]] by (simp add: jobs2_def q2_def)
  moreover have "{m. next_of jobs2 m \<noteq> None} = set q2"
    using loop(2,3) by (auto simp: jobs2_def q2_def next_of_upd set_eq_iff)
  ultimately have loop2: "loop_inv loc (s\<lparr>s_jobs := jobs2, s_q := q2, s_pc := pc\<rparr>)"
    by (simp add: loop_inv_def pc_def)
  have store: "store_ok loc jobs2"
    using inv next1(2) ShouldRun_inv [of ?job1] ok(1) job_ok_cong [of "snd (ShouldRun ?job1)" ?job1 loc]
    by (auto simp: sched_inv_def store_ok_def jobs2_def ShouldRun_frame job_inv_def)
  have kept: "start_ok loc jobs2 e" if "start_ok loc (s_jobs s) e" for e
  proof (cases "st_name e = n")
    case True
    then have "st_due e < d" using that job by (auto simp: start_ok_def)
    then show ?thesis using that True job later by (force simp: start_ok_def jobs2_def ShouldRun_frame)
  qed (use that in \<open>auto simp: start_ok_def jobs2_def\<close>)
  have log: "list_all (start_ok loc (s_jobs s)) (s_log s)" "distinct (map start_key (s_log s))"
    using inv at by (simp_all add: sched_inv_def starts_def)
  have new: "list_all (start_ok loc jobs2) (pending pc)"
    using at(4) ok(2) job(2) later ShouldRun_not_failed [of ?job1]
    by (auto simp: pc_def start_ok_def jobs2_def ShouldRun_frame job_ok_def)
  have old: "start_key e \<noteq> (n, d)" if "e \<in> set (s_log s)" for e
    using log(1) that job by (auto simp: list_all_iff start_ok_def start_key_def)
  have "distinct (map start_key (pending pc @ s_log s))"
    using log(2) old by (auto simp: pc_def start_key_def)
  moreover have "list_all (start_ok loc jobs2) (pending pc @ s_log s)"
    using log(1) kept new by (auto simp: list_all_iff)
  moreover have "dom jobs2 = dom (s_jobs s)" using job(1) by (auto simp: jobs2_def)
  ultimately show ?thesis using res inv store loop2 at(1) by (simp add: sched_inv_def starts_def)
qed

lemma end_run_inv:
  assumes inv: "sched_inv loc s" and at: "s_runs s = as @ (n, Executing) # bs"
  shows "\<exists>s'. end_run n fate t (s\<lparr>s_runs := as @ (n, Ended None) # bs\<rparr>) = Ok s' \<and> sched_inv loc s'"
proof -
  obtain job where job: "s_jobs s n = Some job" using inv at by (auto simp: sched_inv_def)
  have st: "NextRunTime (job_after fate t job) = NextRunTime job" "JobTimeSpec (job_after fate t job) = JobTimeSpec job"
    using eh.handle_frame [of "JobErrorHandler job" job] by (auto simp: job_after_def split: SubprocFate.splits)
  then have "quiet (s_jobs s) ((s_jobs s)(n \<mapsto> job_after fate t job))"
    by (rule quiet_upd [where jobs = "s_jobs s", OF job]) (rule job_after_inv)
  from sched_inv_quiet [OF inv this, of "as @ (n, Ended None) # bs"] show ?thesis
    using job at by (simp add: end_run_def)
qed

lemma image_remove1: "(n, e) \<in> set xs \<Longrightarrow> mset (map fst (remove1 (n, e) xs)) = mset (remove1 n (map fst xs))"
  by (simp add: image_mset_Diff)

text \<open>A record is received.\<close>

lemma deliver_inv:
  assumes inv: "sched_inv loc s" and at: "(n, Ended None) \<in> set (s_runs s)" "runRecChan (s_runner s) = OpenChan" "receiving (s_runner s)"
  shows "sched_inv loc (s\<lparr>s_runs := remove1 (n, Ended None) (s_runs s),
    s_runner := (s_runner s)\<lparr>active := remove1 n (active (s_runner s)), delivered := n # delivered (s_runner s)\<rparr>\<rparr>)"
proof -
  have ms: "mset (map fst (s_runs s)) = mset (active (s_runner s))" using inv by (simp add: sched_inv_def)
  then have "n \<in> set (active (s_runner s))" using at(1) by (metis fst_conv image_eqI list.set_map set_mset_mset)
  then have "runner_step (s_runner s) (Ok ((s_runner s)\<lparr>active := remove1 n (active (s_runner s)), delivered := n # delivered (s_runner s)\<rparr>))"
    using at by (intro send_rec) (auto simp: receiving_def split: main_phase.splits)
  then have "runner_inv ((s_runner s)\<lparr>active := remove1 n (active (s_runner s)), delivered := n # delivered (s_runner s)\<rparr>)"
    using runner_inv_step inv by (force simp: sched_inv_def)
  moreover have "mset (map fst (remove1 (n, Ended None) (s_runs s))) = mset (remove1 n (active (s_runner s)))"
    using image_remove1 [OF at(1)] ms by simp
  moreover have "fst ` set (remove1 (n, Ended None) (s_runs s)) \<subseteq> dom (s_jobs s)"
    using inv image_mono [OF set_remove1_subset [of "(n, Ended None)" "s_runs s"], of fst] unfolding sched_inv_def by blast
  ultimately show ?thesis using inv by (simp add: sched_inv_def starts_def loop_inv_def)
qed

text \<open>A step of the thread's protocol keeps the runs and cannot start the loop.\<close>

lemma plain_inv:
  assumes inv: "sched_inv loc s" and at: "runner_step (s_runner s) r" "plain (s_runner s) r"
  shows "\<exists>r1. r = Ok r1 \<and> sched_inv loc (s\<lparr>s_runner := r1\<rparr>)"
proof -
  obtain r1 where r1: "r = Ok r1" "runner_inv r1" using runner_inv_step [OF at(1)] inv by (auto simp: sched_inv_def)
  have "active r1 = active (s_runner s) \<and> (loopAt r1 = Popping \<longrightarrow> loopAt (s_runner s) = Popping)"
    using at unfolding r1(1)
    by (cases rule: runner_step.cases) (auto simp: plain_def Cancel_def Start_def split: if_splits)
  then show ?thesis using sched_inv_runner [OF inv r1(2)] at(2) r1(1) by (auto simp: plain_def)
qed

text \<open>The thread is started on an activated job file.\<close>

lemma Activate_jobs_ok:
  assumes "Activate yaml rand listen usr raw os registry = Some (Ok jf, os', registry')" "distinct (map fst (j3_Jobs raw))"
  shows "\<forall>n job. map_of (jf_Jobs jf) n = Some job \<longrightarrow> job_inv job \<and> full_derandomized (JobTimeSpec job)"
proof -
  obtain jobs where jobs: "activate_jobs yaml rand usr 0 (j3_Jobs raw) [] = Some (Ok jobs)" and jf: "jf_Jobs jf = jobs"
    using assms(1) by (auto simp: Activate_def Let_def split: prod.splits outcome.splits option.splits)
  have "list_all2 (\<lambda>(name, raw) (name', job). name' = name \<and> fresh_job usr name raw job) (j3_Jobs raw) (jf_Jobs jf)"
    using activate_jobs_Ok [OF jobs] assms(2) jf by simp
  note all = this
  have "job_inv job \<and> full_derandomized (JobTimeSpec job)" if mem: "(n, job) \<in> set (jf_Jobs jf)" for n job
  proof -
    obtain i where "i < length (jf_Jobs jf)" "jf_Jobs jf ! i = (n, job)" using mem by (auto simp: in_set_conv_nth)
    then show ?thesis using list_all2_nthD2 [OF all, of i] by (auto simp: fresh_job_def)
  qed
  then show ?thesis using map_of_SomeD by fast
qed

lemma start_jobs_inv:
  assumes inv: "runner_inv (s_runner s)" and at: "mainAt (s_runner s) = Starting"
    and jobs: "\<forall>n job. map_of al n = Some job \<longrightarrow> job_inv job \<and> full_derandomized (JobTimeSpec job)"
    and names: "distinct names" "set names = fst ` set al"
  shows "\<exists>s'. start_jobs loc now names al s = Ok s' \<and> sched_inv loc s'"
proof -
  obtain r where r: "Start (s_runner s) = Ok r" "runner_inv (r\<lparr>mainAt := Serving\<rparr>)"
    using runner_inv_step [OF runner_step.start [OF at] inv] by (auto simp: Start_def split: if_splits)
  have dom: "dom (map_of al) = set names" by (simp add: names(2) dom_map_of_conv_image_fst)
  have nil: "queue_inv loc (map_of al) []" by (simp add: queue_inv_def is_heap_def)
  have prem: "\<forall>n \<in> set names. \<exists>job. map_of al n = Some job \<and> full_derandomized (JobTimeSpec job)"
    using dom jobs by blast
  obtain jobs' q where set: "setJobs_loop loc now names (map_of al) [] = Ok (jobs', q)" "queue_inv loc jobs' q"
      "set q = {n \<in> set names. next_of jobs' n \<noteq> None}"
      and jobs': "\<And>n. jobs' n = (if n \<in> set names then map_option (scheduled loc now) (map_of al n) else map_of al n)"
    using setJobs_loop_spec [of loc "map_of al" "[]" names now, OF nil names(1) _ prem] by auto
  have "job_inv job \<and> job_ok loc job" if "jobs' n = Some job" for n job
  proof -
    obtain j where j: "map_of al n = Some j" "job = scheduled loc now j"
      using \<open>jobs' n = Some job\<close> jobs' [of n] dom by (auto split: if_splits)
    moreover obtain nxt where "nextRunTime loc j now = Ok nxt" "job_ok loc (j\<lparr>NextRunTime := nxt\<rparr>)"
      using nextRunTime_ok [of j] jobs j(1) by metis
    ultimately show ?thesis using jobs by (auto simp: scheduled_def job_inv_def)
  qed
  moreover have "next_of jobs' n = None" if "n \<notin> set names" for n
    using that jobs' [of n] dom [symmetric] by (simp add: next_of_def domIff)
  then have "{n. next_of jobs' n \<noteq> None} = set q" using set(3) by auto
  moreover have "active r = [] \<and> launched r = [] \<and> loopAt r = Popping" using r(1) by (auto simp: Start_def split: if_splits)
  ultimately have "sched_inv loc \<lparr>s_runner = r\<lparr>mainAt := Serving\<rparr>, s_jobs = jobs', s_q = q, s_pc = Asking, s_runs = [], s_log = []\<rparr>"
    using r(2) set(2) by (simp add: sched_inv_def store_ok_def loop_inv_def starts_def)
  then show ?thesis using r(1) set(1) by (simp add: start_jobs_def SetJobs_def)
qed

text \<open>A record with an error stops the manager.\<close>

definition run_error :: "sched \<Rightarrow> sched outcome \<Rightarrow> bool" where
  "run_error s r \<longleftrightarrow> (\<exists>n e. (n, Ended (Some e)) \<in> set (s_runs s) \<and> r = Panic (Error_Error e))"

lemma sched_step_inv:
  assumes "sched_step loc s r" "sched_inv loc s"
  shows "run_error s r \<or> (\<exists>s'. r = Ok s' \<and> sched_inv loc s')"
  using assms(1)
proof (cases rule: sched_step.cases)
  case ask
  then show ?thesis using take_job_inv [OF assms(2)] by simp
next
  case (wake n d t)
  then show ?thesis using wake_job_inv [OF assms(2)] by simp
next
  case (launch e)
  then show ?thesis using launch_job_inv [OF assms(2)] by simp
next
  case (cancelled n)
  then show ?thesis using put_back_inv [OF assms(2)] by simp
next
  case empty
  then have "runner_inv ((s_runner s)\<lparr>loopAt := Waiting\<rparr>)"
    using runner_inv_step [OF pop_nil] assms(2) by (auto simp: sched_inv_def)
  then show ?thesis using sched_inv_runner [OF assms(2)] empty by simp
next
  case (run_ends as n bs fate t)
  then show ?thesis using end_run_inv [OF assms(2)] by simp
next
  case (run_errs as n bs e)
  then show ?thesis using sched_inv_quiet [OF assms(2), of "s_jobs s" "as @ (n, Ended (Some e)) # bs"]
    by (simp add: quiet_def option.rel_refl)
next
  case (deliver n err)
  then show ?thesis using deliver_inv [OF assms(2)] by (cases err) (auto simp: run_error_def)
next
  case (thread r1)
  then show ?thesis using plain_inv [OF assms(2)] by fastforce
next
  case (pause names b)
  then show ?thesis using sched_inv_quiet [OF assms(2) quiet_pause, where runs = "s_runs s"] by simp
next
  case (start yaml rand listen usr raw os registry jf os' registry' names now)
  then show ?thesis using start_jobs_inv [OF _ start(2) Activate_jobs_ok [OF start(3,4)] start(5,6)] assms(2)
    by (simp add: sched_inv_def)
qed

lemma sched_init_inv: "ph = Draining True \<or> ph = Starting \<Longrightarrow> sched_inv loc (sched_init ph)"
  by (auto simp: sched_inv_def sched_init_def runner_init_def runner_inv_def store_ok_def starts_def)

lemma sched_reaches_inv:
  assumes "sched_reaches loc r"
  shows "(\<exists>s. sched_reaches loc (Ok s) \<and> run_error s r) \<or> (\<exists>s. r = Ok s \<and> sched_inv loc s)"
  using assms
proof (cases rule: sched_reaches.cases)
  case (step s)
  have "\<exists>s. r = Ok s \<and> sched_inv loc s" if "sched_reaches loc r" "is_Ok r" for r
    using that
    by (induction rule: sched_reaches.induct) (use sched_step_inv sched_init_inv in \<open>fastforce simp: run_error_def\<close>)+
  then show ?thesis using step sched_step_inv by fastforce
qed (use sched_init_inv in auto)

section \<open>Safety\<close>

lemma sched_inv_log:
  assumes "sched_inv loc s"
  shows "\<forall>e \<in> set (s_log s). st_due e \<le> st_time e \<and> st_status e \<noteq> JobFailed \<and> \<not> st_paused e \<and>
      (\<exists>job. s_jobs s (st_name e) = Some job \<and> schedule_admits loc (JobTimeSpec job) (st_due e))"
    "distinct (map start_key (s_log s))"
proof -
  have "start_ok loc (s_jobs s) e" if "e \<in> set (s_log s)" for e
    using assms that by (simp add: sched_inv_def starts_def list_all_iff)
  then show "\<forall>e \<in> set (s_log s). st_due e \<le> st_time e \<and> st_status e \<noteq> JobFailed \<and> \<not> st_paused e \<and>
      (\<exists>job. s_jobs s (st_name e) = Some job \<and> schedule_admits loc (JobTimeSpec job) (st_due e))"
    unfolding start_ok_def by blast
  show "distinct (map start_key (s_log s))" using assms by (simp add: sched_inv_def starts_def)
qed

lemma sched_inv_queue:
  assumes "sched_inv loc s"
  shows "loopAt (s_runner s) = Popping \<Longrightarrow> distinct (s_q s) \<and> set (s_q s) \<inter> held (s_pc s) = {} \<and>
    {n. next_of (s_jobs s) n \<noteq> None} = set (s_q s) \<union> held (s_pc s)"
  using assms by (auto simp: sched_inv_def loop_inv_def queue_inv_def simp del: not_None_eq)

text \<open>
  C1. The scheduler, in every interleaving of the goroutine that schedules, the runs, and the main
  thread, and whatever the clock reads: nothing panics, except that a record with an error stops
  the manager. Every launched run is of a job that was not failed when it was chosen and not
  paused when it was launched, at a time not before the due time, which the job's schedule admits;
  no due time of a job is launched twice. Every job keeps its invariant; and while the loop runs,
  each job that has a next run time is queued exactly once or is the one that the loop holds: no
  job is forgotten.
\<close>

theorem scheduler_safe:
  assumes "sched_reaches loc r"
  shows "(\<exists>s. sched_reaches loc (Ok s) \<and> run_error s r) \<or>
    (\<exists>s. r = Ok s \<and> map st_name (s_log s) = launched (s_runner s) \<and>
      (\<forall>e \<in> set (s_log s). st_due e \<le> st_time e \<and> st_status e \<noteq> JobFailed \<and> \<not> st_paused e \<and>
         (\<exists>job. s_jobs s (st_name e) = Some job \<and> schedule_admits loc (JobTimeSpec job) (st_due e))) \<and>
      distinct (map (\<lambda>e. (st_name e, st_due e)) (s_log s)) \<and>
      (\<forall>n job. s_jobs s n = Some job \<longrightarrow> job_inv job) \<and>
      (loopAt (s_runner s) = Popping \<longrightarrow> distinct (s_q s) \<and> set (s_q s) \<inter> held (s_pc s) = {} \<and>
         {n. next_of (s_jobs s) n \<noteq> None} = set (s_q s) \<union> held (s_pc s)))"
  using sched_reaches_inv [OF assms]
proof (elim disjE exE conjE)
  fix s assume r: "r = Ok s" and inv: "sched_inv loc s"
  have keys: "(\<lambda>e. (st_name e, st_due e)) = start_key" by (simp add: fun_eq_iff start_key_def)
  show ?thesis unfolding keys
    using r inv sched_inv_log [OF inv] sched_inv_queue [OF inv] by (auto simp: sched_inv_def store_ok_def)
qed blast

section \<open>The thread protocol\<close>

text \<open>A step of the scheduler is a step of the thread's protocol, or changes only the data.\<close>

lemma sched_step_runner:
  assumes "sched_step loc s (Ok s')" "sched_inv loc s"
  shows "s_runner s' = s_runner s \<or> runner_step (s_runner s) (Ok (s_runner s'))"
  using assms(1)
proof (cases rule: sched_step.cases)
  case ask
  then show ?thesis by (auto simp: take_job_def split: prod.splits option.splits)
next
  case (wake n d t)
  then show ?thesis
    by (cases "nextRunTime loc (the (s_jobs s n)) (Add t Second_dur)") (auto simp: wake_job_def Let_def split: option.splits)
next
  case (launch e)
  then show ?thesis using pop_job by (auto simp: launch_job_def split: option.splits if_splits)
next
  case (cancelled n)
  then show ?thesis using pop_nil by (simp add: put_back_def)
next
  case empty
  then show ?thesis using pop_nil by simp
next
  case (run_ends as n bs fate t)
  then show ?thesis by (auto simp: end_run_def split: option.splits)
next
  case (run_errs as n bs e)
  then show ?thesis by simp
next
  case (deliver n err)
  have "mset (map fst (s_runs s)) = mset (active (s_runner s))" using assms(2) by (simp add: sched_inv_def)
  then have "n \<in> set (active (s_runner s))" using deliver(2) by (metis fst_conv image_eqI list.set_map set_mset_mset)
  then show ?thesis using deliver send_rec [of n "s_runner s"]
    by (cases err) (auto simp: receiving_def split: main_phase.splits)
next
  case (thread r)
  then show ?thesis by (cases r) auto
next
  case (pause names b)
  then show ?thesis by simp
next
  case (start yaml rand listen usr raw os registry jf os' registry' names now)
  then show ?thesis using runner_step.start [OF start(2)]
    by (cases "Start (s_runner s)"; cases "SetJobs loc now names (map_of (jf_Jobs jf))") (auto simp: start_jobs_def)
qed

lemma sched_reaches_runner:
  assumes "sched_reaches loc r" "r = Ok s"
  shows "runner_reaches (Ok (s_runner s)) \<and> sched_inv loc s"
  using assms
proof (induction arbitrary: s rule: sched_reaches.induct)
  case (step s0 r)
  then have prev: "runner_reaches (Ok (s_runner s0))" "sched_inv loc s0" by simp_all
  have st: "sched_step loc s0 (Ok s)" using step by simp
  then have "sched_inv loc s" using sched_step_inv [OF st prev(2)] by (auto simp: run_error_def)
  moreover have "runner_reaches (Ok (s_runner s))"
    using sched_step_runner [OF st prev(2)] prev(1) runner_reaches.step by metis
  ultimately show ?case by simp
qed (use sched_init_inv runner_reaches.init_load runner_reaches.init_error in \<open>auto simp: sched_init_def\<close>)

text \<open>
  C19. The scheduler refines the protocol of the job-runner thread: what it reaches, the protocol
  reaches. So when the channel of run records is closed, which is when the manager replaces the job
  file, no run is left that could change a job, and each launched run has delivered its record.
\<close>

theorem scheduler_refines:
  assumes "sched_reaches loc (Ok s)"
  shows "runner_reaches (Ok (s_runner s)) \<and>
    (RunRecChan (s_runner s) = ClosedChan \<longrightarrow>
       s_runs s = [] \<and> mset (delivered (s_runner s)) = mset (map st_name (s_log s)))"
proof -
  note r = sched_reaches_runner [OF assms refl]
  have runs: "mset (map fst (s_runs s)) = mset (active (s_runner s))" "map st_name (s_log s) = launched (s_runner s)"
    using r by (simp_all add: sched_inv_def)
  have "active (s_runner s) = [] \<and> mset (launched (s_runner s)) = mset (delivered (s_runner s))"
    if "RunRecChan (s_runner s) = ClosedChan"
    using r that by (auto simp: sched_inv_def runner_inv_def RunRecChan_def split: if_splits)
  then show ?thesis using r runs by auto
qed

section \<open>The steps of one call of Pop\<close>

abbreviation sched_steps :: "location \<Rightarrow> sched \<Rightarrow> sched \<Rightarrow> bool" where
  "sched_steps loc \<equiv> (\<lambda>s s'. sched_step loc s (Ok s'))\<^sup>*\<^sup>*"

lemma two_steps: "sched_step loc s (Ok s1) \<Longrightarrow> sched_step loc s1 (Ok s2) \<Longrightarrow> sched_steps loc s s2"
  by (rule converse_rtranclp_into_rtranclp, assumption, rule r_into_rtranclp)

text \<open>Where a call of \<open>Pop\<close> that returned has left the scheduler.\<close>

definition pop_leaves :: "sched \<Rightarrow> string option \<Rightarrow> jobs \<Rightarrow> string list \<Rightarrow> sched \<Rightarrow> bool" where
  "pop_leaves s res jobs q s' \<longleftrightarrow> s_jobs s' = jobs \<and> s_q s' = q \<and> s_runs s' = s_runs s \<and> s_log s' = s_log s \<and>
     (case res of
        Some n \<Rightarrow> s_runner s' = s_runner s \<and> (\<exists>e. s_pc s' = Got e \<and> st_name e = n)
      | None \<Rightarrow> s_runner s' = (s_runner s)\<lparr>loopAt := Waiting\<rparr> \<and> s_pc s' = Asking)"

text \<open>Taking a job and waking up when it is due.\<close>

lemma due_steps:
  assumes at: "loopAt (s_runner s) = Popping" "s_pc s = Asking" "s_q s \<noteq> []"
    and pop: "heap_Pop (job_less (s_jobs s)) (s_q s) = (n, q1)"
    and job: "s_jobs s n = Some job" "NextRunTime job = Some d" "d \<le> t"
    and next1: "nextRunTime loc job (Add t Second_dur) = Ok next1"
  obtains s' where "sched_steps loc s s'" "wake_job loc t n (s\<lparr>s_q := q1, s_pc := Sleeping n\<rparr>) = Ok s'"
proof -
  let ?s1 = "s\<lparr>s_q := q1, s_pc := Sleeping n\<rparr>"
  have nx: "next_of (s_jobs s) n = Some d" using job by (simp add: next_of_def)
  obtain s' where s': "wake_job loc t n ?s1 = Ok s'" by (simp add: wake_job_def job next1 Let_def)
  have "sched_step loc s (Ok ?s1)" using ask [OF at, of loc] nx by (simp add: take_job_def pop)
  moreover have "sched_step loc ?s1 (wake_job loc t n ?s1)" using at nx job(3) by (intro wake) simp_all
  ultimately have "sched_steps loc s s'" unfolding s' by (rule two_steps)
  then show ?thesis using s' by (rule that)
qed

text \<open>One activation of \<open>Pop\<close> as steps: on an empty queue, cancelled, and on a job that is due.\<close>

definition pop_step_ok :: "location \<Rightarrow> wake list \<Rightarrow> sched \<Rightarrow> pop_step \<Rightarrow> bool" where
  "pop_step_ok loc events s r \<longleftrightarrow>
     (case r of
        Done r \<Rightarrow> (\<forall>res jobs' q' now' es. r = Ok (Returned res jobs' q' now' es) \<longrightarrow>
          (\<exists>s'. sched_steps loc s s' \<and> pop_leaves s res jobs' q' s'))
      | Skip jobs2 q2 now1 es \<Rightarrow> \<exists>s'. sched_steps loc s s' \<and> s_jobs s' = jobs2 \<and> s_q s' = q2 \<and> s_pc s' = Asking \<and>
          s_runs s' = s_runs s \<and> s_log s' = s_log s \<and> s_runner s' = s_runner s \<and> set es \<subseteq> set events)"

lemma pop_step_ok_simps:
  "pop_step_ok loc events s (Done (Ok Blocked))" "pop_step_ok loc events s (Done (Fail e))" "pop_step_ok loc events s (Done (Panic p))"
  "sched_steps loc s s' \<Longrightarrow> pop_leaves s res jobs' q' s' \<Longrightarrow> pop_step_ok loc events s (Done (Ok (Returned res jobs' q' now' es)))"
  by (auto simp: pop_step_ok_def)

lemma pop_empty_ok:
  assumes at: "loopAt (s_runner s) = Popping" "s_pc s = Asking" "Cancelled \<in> set events \<longrightarrow> ctxDone (s_runner s)" "s_q s = []"
  shows "pop_step_ok loc events s (JobQueue_Pop_body loc (s_jobs s) (s_q s) now events)"
proof (cases "dropWhile (\<lambda>e. e \<noteq> Cancelled) events")
  case Nil
  have "JobQueue_Pop_body loc (s_jobs s) (s_q s) now events = Done (Ok Blocked)"
    unfolding JobQueue_Pop_body_def Nil using at by (simp add: Empty_def)
  then show ?thesis by (simp add: pop_step_ok_simps)
next
  case (Cons e es)
  have "Cancelled \<in> set events"
  proof (rule ccontr)
    assume "Cancelled \<notin> set events"
    then have "dropWhile (\<lambda>e. e \<noteq> Cancelled) events = []" by (induction events) auto
    with Cons show False by (metis list.distinct(1))
  qed
  then have "sched_step loc s (Ok (s\<lparr>s_runner := (s_runner s)\<lparr>loopAt := Waiting\<rparr>\<rparr>))"
    using at by (intro empty) simp_all
  then have st: "sched_steps loc s (s\<lparr>s_runner := (s_runner s)\<lparr>loopAt := Waiting\<rparr>\<rparr>)" by (rule r_into_rtranclp)
  have body: "JobQueue_Pop_body loc (s_jobs s) (s_q s) now events = Done (Ok (Returned None (s_jobs s) (s_q s) now es))"
    unfolding JobQueue_Pop_body_def Cons using at by (simp add: Empty_def)
  show ?thesis unfolding body by (rule pop_step_ok_simps(4) [OF st]) (use at in \<open>simp add: pop_leaves_def\<close>)
qed

lemma pop_cancel_ok:
  assumes at: "loopAt (s_runner s) = Popping" "s_pc s = Asking" "ctxDone (s_runner s)"
    and first: "sched_step loc s (Ok (s\<lparr>s_q := q1, s_pc := Sleeping n\<rparr>))"
  shows "pop_step_ok loc events s (Done (Ok (Returned None (s_jobs s) (heap_Push (job_less (s_jobs s)) n q1) now es)))"
proof -
  let ?s1 = "s\<lparr>s_q := q1, s_pc := Sleeping n\<rparr>"
  have "sched_step loc ?s1 (Ok (put_back n ?s1))" using at by (intro cancelled) simp_all
  then have "sched_steps loc s (put_back n ?s1)" by (rule two_steps [OF first])
  then show ?thesis by (rule pop_step_ok_simps(4)) (simp add: pop_leaves_def put_back_def)
qed

lemma pop_due_ok:
  assumes st: "sched_steps loc s s'" "wake_job loc now1 n (s\<lparr>s_q := q1, s_pc := Sleeping n\<rparr>) = Ok s'"
    and job: "s_jobs s n = Some job" "nextRunTime loc job (Add now1 Second_dur) = Ok next1" "set es \<subseteq> set events"
  defines "job1 \<equiv> job\<lparr>NextRunTime := next1\<rparr>"
  defines "jobs2 \<equiv> (s_jobs s)(n \<mapsto> snd (ShouldRun job1))"
  defines "q2 \<equiv> if next1 \<noteq> None then heap_Push (job_less ((s_jobs s)(n \<mapsto> job1))) n q1 else q1"
  shows "pop_step_ok loc events s (if fst (ShouldRun job1) then Done (Ok (Returned (Some n) jobs2 q2 now1 es)) else Skip jobs2 q2 now1 es)"
proof -
  have s': "s' = s\<lparr>s_jobs := jobs2, s_q := q2,
      s_pc := if fst (ShouldRun job1)
        then Got \<lparr>st_name = n, st_due = the (NextRunTime job), st_time = now1, st_status = Status job, st_paused = False\<rparr> else Asking\<rparr>"
    using st(2) job by (auto simp: wake_job_def Let_def job1_def jobs2_def q2_def simp del: not_None_eq split del: if_split cong: if_cong)
  show ?thesis
  proof (cases "fst (ShouldRun job1)")
    case True
    have "pop_leaves s (Some n) jobs2 q2 s'" unfolding s' using True by (simp add: pop_leaves_def)
    then show ?thesis using pop_step_ok_simps(4) [OF st(1)] True by simp
  next
    case False
    have "s_jobs s' = jobs2 \<and> s_q s' = q2 \<and> s_pc s' = Asking \<and> s_runs s' = s_runs s \<and> s_log s' = s_log s \<and> s_runner s' = s_runner s"
      unfolding s' using False by simp
    then have "pop_step_ok loc events s (Skip jobs2 q2 now1 es)"
      unfolding pop_step_ok_def using st(1) job(3) by (simp only: pop_step.case) blast
    then show ?thesis using False by simp
  qed
qed

lemma pop_body_steps:
  assumes at: "loopAt (s_runner s) = Popping" "s_pc s = Asking" "Cancelled \<in> set events \<longrightarrow> ctxDone (s_runner s)"
  shows "pop_step_ok loc events s (JobQueue_Pop_body loc (s_jobs s) (s_q s) now events)"
proof (cases "s_q s = []")
  case ne: False
  obtain n q1 where pop: "heap_Pop (job_less (s_jobs s)) (s_q s) = (n, q1)" by fastforce
  show ?thesis
  proof (cases "next_of (s_jobs s) n")
    case None
    then show ?thesis using ne pop
      by (cases "s_jobs s n") (simp_all add: JobQueue_Pop_body_def Empty_def next_of_def pop_step_ok_simps)
  next
    case (Some d)
    then obtain job where job: "s_jobs s n = Some job" "NextRunTime job = Some d" by (auto simp: next_of_def bind_eq_Some_conv)
    have first: "sched_step loc s (Ok (s\<lparr>s_q := q1, s_pc := Sleeping n\<rparr>))"
      using ask [OF at(1,2) ne, of loc] Some by (simp add: take_job_def pop)
    consider (block) "sleep_till d now events = None" | (cancel) es where "sleep_till d now events = Some (Inl es)"
      | (due) now1 es where "sleep_till d now events = Some (Inr (now1, es))"
      by (metis option.exhaust sum.exhaust surj_pair)
    then show ?thesis
    proof cases
      case block
      then show ?thesis using ne pop job by (simp add: JobQueue_Pop_body_def Empty_def pop_step_ok_simps)
    next
      case cancel
      have "ctxDone (s_runner s)" using sleep_till_Inl [OF cancel] at(3) by simp
      then show ?thesis using ne pop job cancel pop_cancel_ok [OF at(1,2) _ first] by (simp add: JobQueue_Pop_body_def Empty_def)
    next
      case due
      show ?thesis
      proof (cases "nextRunTime loc job (Add now1 Second_dur)")
        case (Ok next1)
        obtain s' where st: "sched_steps loc s s'" "wake_job loc now1 n (s\<lparr>s_q := q1, s_pc := Sleeping n\<rparr>) = Ok s'"
          using due_steps [OF at(1,2) ne pop job _ Ok] sleep_till_Inr [OF due] by blast
        let ?job1 = "job\<lparr>NextRunTime := next1\<rparr>"
        let ?jobs2 = "(s_jobs s)(n \<mapsto> snd (ShouldRun ?job1))"
        let ?q2 = "if next1 \<noteq> None then heap_Push (job_less ((s_jobs s)(n \<mapsto> ?job1))) n q1 else q1"
        have body: "JobQueue_Pop_body loc (s_jobs s) (s_q s) now events =
            (if fst (ShouldRun ?job1) then Done (Ok (Returned (Some n) ?jobs2 ?q2 now1 es)) else Skip ?jobs2 ?q2 now1 es)"
          using ne pop job due Ok by (simp add: JobQueue_Pop_body_def Empty_def Let_def)
        show ?thesis unfolding body by (rule pop_due_ok [OF st job(1) Ok sleep_till_sub [OF due]])
      qed (use ne pop job due in \<open>simp_all add: JobQueue_Pop_body_def Empty_def pop_step_ok_simps\<close>)
    qed
  qed
qed (use pop_empty_ok at in blast)

text \<open>
  C20. One call of \<open>Pop\<close>, undisturbed, is a sequence of the scheduler's steps: if the call returns,
  and its context is cancelled when it observes a cancellation, then the steps lead to the jobs
  and the queue that the call leaves, with the job it returned in hand, or with the loop ended.
\<close>

theorem Pop_refines:
  assumes "JobQueue_Pop loc (s_jobs s) (s_q s) now events = Ok (Returned res jobs' q' now' es)"
    "loopAt (s_runner s) = Popping" "s_pc s = Asking" "Cancelled \<in> set events \<longrightarrow> ctxDone (s_runner s)"
  shows "\<exists>s'. sched_steps loc s s' \<and> pop_leaves s res jobs' q' s'"
  using assms
proof (induction loc "s_jobs s" "s_q s" now events arbitrary: s rule: JobQueue_Pop.induct)
  case (1 loc now events)
  note ok = pop_body_steps [OF "1.prems"(2-4), of loc now]
  show ?case
  proof (cases "JobQueue_Pop_body loc (s_jobs s) (s_q s) now events")
    case (Done r)
    then show ?thesis
      using ok "1.prems"(1) by (simp add: JobQueue_Pop.simps [of loc "s_jobs s" "s_q s" now events] pop_step_ok_def)
  next
    case (Skip jobs2 q2 now1 es1)
    then obtain s1 where s1: "sched_steps loc s s1" "s_jobs s1 = jobs2" "s_q s1 = q2" "s_pc s1 = Asking" "s_runs s1 = s_runs s"
        "s_log s1 = s_log s" "s_runner s1 = s_runner s" "set es1 \<subseteq> set events"
      using ok by (auto simp: pop_step_ok_def)
    have "JobQueue_Pop loc (s_jobs s1) (s_q s1) now1 es1 = Ok (Returned res jobs' q' now' es)"
      using "1.prems"(1) Skip s1 by (simp add: JobQueue_Pop.simps [of loc "s_jobs s" "s_q s" now events])
    then obtain s' where s': "sched_steps loc s1 s'" "pop_leaves s1 res jobs' q' s'"
      using "1.hyps" [OF Skip [folded s1(2,3)]] s1 "1.prems"(2-4) by auto
    have "pop_leaves s res jobs' q' s'" using s'(2) s1 by (cases res) (simp_all add: pop_leaves_def)
    then show ?thesis using rtranclp_trans [OF s1(1) s'(1)] by blast
  qed
qed

section \<open>An execution\<close>

text \<open>A job that runs every second and stops at its first failure.\<close>

definition tick_raw :: JobFileV3Raw where
  "tick_raw = NewEmptyRawJobFile\<lparr>j3_Jobs := [(''a'', \<lparr>r_Cmd = ''true'', r_Time = ''* * * * * *'', r_OnError = Some ''Stop'',
     r_NotifyOnSuccess = [], r_NotifyOnError = [], r_NotifyOnFailure = []\<rparr>)]\<rparr>"

definition tick_job :: Job where
  "tick_job = (new_job ''a'')\<lparr>Cmd := ''true'', JobUser := ''u'', JobErrorHandler := StopErrorHandler,
     JobTimeSpec := \<lparr>SecSpec = WildcardTimeSpec, MinSpec = WildcardTimeSpec, HourSpec = WildcardTimeSpec,
       MdaySpec = WildcardTimeSpec, MonSpec = WildcardTimeSpec, WdaySpec = WildcardTimeSpec\<rparr>\<rparr>"

lemma tick_activates:
  "\<exists>jf. Activate yaml rand listen sample_user tick_raw \<lparr>files = fs, faults = []\<rparr> [] =
     Some (Ok jf, \<lparr>files = fs, faults = []\<rparr>, []) \<and> jf_Jobs jf = [(''a'', tick_job)] \<and> jf_Raw jf = tick_raw \<and>
     LogPath (jf_Prefs jf) = []"
proof -
  let ?raw = "\<lparr>r_Cmd = ''true'', r_Time = ''* * * * * *'', r_OnError = Some ''Stop'',
     r_NotifyOnSuccess = [], r_NotifyOnError = [], r_NotifyOnFailure = []\<rparr>"
  have p: "ParseFullTimeSpec ''* * * * * *'' = Some (Ok
      \<lparr>SecSpec = WildcardTimeSpec, MinSpec = WildcardTimeSpec, HourSpec = WildcardTimeSpec,
       MdaySpec = WildcardTimeSpec, MonSpec = WildcardTimeSpec, WdaySpec = WildcardTimeSpec\<rparr>)"
    by code_simp
  have job: "ToJob yaml intn sample_user ?raw (new_job ''a'') = Some (Ok tick_job)" for intn
    by (simp add: ToJob_def sinksOf_def sample_user_def p bind_returning_def normalizeResultSinkArray_def GetErrorHandler_def
        FullTimeSpec_Derandomize_def new_job_def tick_job_def)
  have prefs: "ToPrefs sample_user (j3_Prefs NewEmptyRawJobFile) \<lparr>files = fs, faults = []\<rparr> =
      (Ok \<lparr>RunLogPref = MemLog \<lparr>mem_entries = [], mem_cap = 100\<rparr>, LogPath = []\<rparr>, \<lparr>files = fs, faults = []\<rparr>)"
    by (simp add: ToPrefs_def NewEmptyRawJobFile_def ToRunLog_def map_io_def lift_io_def bind_io_def
        return_io_def NewMemOnlyRunLog_def gDefaultMemRunLogMaxLen_def)
  have nj: "NotifyOnError tick_job = []" "NotifyOnFailure tick_job = []" "NotifyOnSuccess tick_job = []"
    by (simp_all add: tick_job_def new_job_def)
  show ?thesis
    by (simp add: Activate_def tick_raw_def prefs job bind_returning_def job_sinks_def socket_sinks_def
        List.map_filter_def SetServers_def Let_def nj)
qed

text \<open>The scheduler while the job runs, after the starts \<open>log\<close>, with the runs \<open>runs\<close>.\<close>

definition tick_state :: "JobStatus \<Rightarrow> go_time \<Rightarrow> go_time \<Rightarrow> (string \<times> run_state) list \<Rightarrow> start_event list \<Rightarrow> sched" where
  "tick_state status nxt lastRun runs log =
     \<lparr>s_runner = \<lparr>Running = True, runRecChan = OpenChan, ctxDone = False, hasCancel = True, loopAt = Popping, mainAt = Serving,
        active = map fst runs, launched = map st_name log, delivered = []\<rparr>,
      s_jobs = [''a'' \<mapsto> tick_job\<lparr>NextRunTime := Some nxt, Status := status, LastRunTime := lastRun\<rparr>],
      s_q = [''a''], s_pc = Asking, s_runs = runs, s_log = log\<rparr>"

definition tick_start :: "go_time \<Rightarrow> start_event" where
  "tick_start t = \<lparr>st_name = ''a'', st_due = t, st_time = t, st_status = JobGood, st_paused = False\<rparr>"

lemma tick_next: "JobTimeSpec job = JobTimeSpec tick_job \<Longrightarrow> nextRunTime loc job t = Ok (Some t)"
proof -
  assume spec: "JobTimeSpec job = JobTimeSpec tick_job"
  have "FullTimeSpec_Satisfied loc (JobTimeSpec job) t = Ok True"
    by (simp add: spec FullTimeSpec_Satisfied_def tick_job_def)
  then show ?thesis
    by (simp add: nextRunTime_def Let_def next_loop.simps [of _ t] Before_def Add_def Hour_dur_def Second_dur_def)
qed

lemma heap_one: "heap_Push lt x [] = [x]" "heap_Pop lt [x] = (x, [])"
proof -
  show "heap_Push lt x [] = [x]" by (simp add: heap_Push_def heap_up.simps)
  obtain y h where "heap_Pop lt [x] = (y, h)" by fastforce
  with heap_Pop_contents [OF _ this] show "heap_Pop lt [x] = (x, [])" by simp
qed

lemma tick_reached: "sched_reaches loc (Ok (tick_state JobGood 0 zero_time [] []))"
proof -
  obtain jf where act: "Activate sample_yaml (\<lambda>_ _ _. 0) (\<lambda>_. None) sample_user tick_raw \<lparr>files = Map.empty, faults = []\<rparr> [] =
     Some (Ok jf, \<lparr>files = Map.empty, faults = []\<rparr>, [])" and jobs: "jf_Jobs jf = [(''a'', tick_job)]"
    using tick_activates by blast
  have "sched_step loc (sched_init Starting) (start_jobs loc 0 [''a''] (jf_Jobs jf) (sched_init Starting))"
    by (rule start [OF _ act]) (simp_all add: sched_init_def runner_init_def tick_raw_def jobs)
  moreover have "tick_job\<lparr>NextRunTime := Some 0\<rparr> = tick_job\<lparr>NextRunTime := Some 0, Status := JobGood, LastRunTime := zero_time\<rparr>"
    by (simp add: tick_job_def new_job_def)
  then have "start_jobs loc 0 [''a''] (jf_Jobs jf) (sched_init Starting) = Ok (tick_state JobGood 0 zero_time [] [])"
    by (simp add: start_jobs_def jobs Start_def sched_init_def runner_init_def SetJobs_def tick_next Let_def heap_one tick_state_def)
  ultimately show ?thesis using step [OF init_error] by metis
qed

text \<open>The next due time comes, and the job is launched, in three steps; a run ends.\<close>

definition tick_asleep :: "sched \<Rightarrow> sched" where
  "tick_asleep s = s\<lparr>s_q := [], s_pc := Sleeping ''a''\<rparr>"

definition tick_got :: "go_time \<Rightarrow> go_time \<Rightarrow> (string \<times> run_state) list \<Rightarrow> start_event list \<Rightarrow> sched" where
  "tick_got nxt l runs log = (tick_state JobGood (nxt + Second_dur) l runs log)\<lparr>s_pc := Got (tick_start nxt)\<rparr>"

lemma tick_ask:
  fixes nxt l :: go_time and runs :: "(string \<times> run_state) list" and log :: "start_event list"
  defines "s \<equiv> tick_state JobGood nxt l runs log"
  shows "take_job s = Ok (tick_asleep s)" "sched_step loc s (Ok (tick_asleep s))"
proof -
  have at: "loopAt (s_runner s) = Popping" "s_pc s = Asking" "s_q s \<noteq> []" by (simp_all add: s_def tick_state_def)
  show t: "take_job s = Ok (tick_asleep s)"
    by (simp add: take_job_def s_def tick_state_def heap_one next_of_def tick_asleep_def)
  show "sched_step loc s (Ok (tick_asleep s))" using ask [OF at, of loc] unfolding t .
qed

lemma tick_wake:
  fixes nxt l :: go_time and runs :: "(string \<times> run_state) list" and log :: "start_event list"
  defines "s \<equiv> tick_asleep (tick_state JobGood nxt l runs log)"
  shows "wake_job loc nxt ''a'' s = Ok (tick_got nxt l runs log)" "sched_step loc s (Ok (tick_got nxt l runs log))"
proof -
  let ?job = "tick_job\<lparr>NextRunTime := Some nxt, Status := JobGood, LastRunTime := l\<rparr>"
  have n: "nextRunTime loc ?job (Add nxt Second_dur) = Ok (Some (nxt + Second_dur))"
    using tick_next [of ?job] by (simp add: Add_def)
  show w: "wake_job loc nxt ''a'' s = Ok (tick_got nxt l runs log)"
    using n by (simp add: s_def tick_asleep_def wake_job_def tick_state_def Let_def heap_one tick_start_def ShouldRun_def
        tick_job_def new_job_def tick_got_def)
  have "sched_step loc s (wake_job loc nxt ''a'' s)"
    by (rule wake [OF _ _ _ order_refl]) (simp_all add: s_def tick_asleep_def tick_state_def next_of_def)
  then show "sched_step loc s (Ok (tick_got nxt l runs log))" unfolding w .
qed

lemma tick_run:
  fixes nxt l :: go_time and runs :: "(string \<times> run_state) list" and log :: "start_event list"
  defines "s \<equiv> tick_got nxt l runs log"
    and "s' \<equiv> tick_state JobGood (nxt + Second_dur) l ((''a'', Executing) # runs) (tick_start nxt # log)"
  shows "launch_job (tick_start nxt) s = Ok s'" "sched_step loc s (Ok s')"
proof -
  show r: "launch_job (tick_start nxt) s = Ok s'"
    by (simp add: s_def s'_def tick_got_def launch_job_def tick_state_def tick_start_def tick_job_def new_job_def)
  have "sched_step loc s (launch_job (tick_start nxt) s)"
    by (rule launch) (simp_all add: s_def tick_got_def tick_state_def)
  then show "sched_step loc s (Ok s')" unfolding r .
qed

lemma tick_launch:
  "sched_steps loc (tick_state JobGood nxt l runs log)
     (tick_state JobGood (nxt + Second_dur) l ((''a'', Executing) # runs) (tick_start nxt # log))"
  using rtranclp.rtrancl_into_rtrancl [OF two_steps [OF tick_ask(2) tick_wake(2)] tick_run(2)] .

lemma tick_end:
  defines "after \<equiv> \<lambda>status fate. case fate of SubprocFateSucceeded \<Rightarrow> JobGood | SubprocFateFailed \<Rightarrow> JobFailed | SubprocFateCancelled \<Rightarrow> status"
  defines "s \<equiv> \<lambda>status nxt l as bs log. tick_state status nxt l (as @ (''a'', Executing) # bs) log"
  shows "end_run ''a'' fate t ((s status nxt l as bs log)\<lparr>s_runs := as @ (''a'', Ended None) # bs\<rparr>) =
      Ok (tick_state (after status fate) nxt t (as @ (''a'', Ended None) # bs) log)"
    "sched_step loc (s status nxt l as bs log)
      (Ok (tick_state (after status fate) nxt t (as @ (''a'', Ended None) # bs) log))"
proof -
  let ?s = "s status nxt l as bs log"
  show e: "end_run ''a'' fate t (?s\<lparr>s_runs := as @ (''a'', Ended None) # bs\<rparr>) =
      Ok (tick_state (after status fate) nxt t (as @ (''a'', Ended None) # bs) log)"
    by (cases fate) (simp_all add: s_def after_def end_run_def tick_state_def job_after_def StopErrorHandler_Handle_def tick_job_def)
  have "sched_step loc ?s (end_run ''a'' fate t (?s\<lparr>s_runs := as @ (''a'', Ended None) # bs\<rparr>))"
    by (rule run_ends) (simp add: s_def tick_state_def)
  then show "sched_step loc ?s (Ok (tick_state (after status fate) nxt t (as @ (''a'', Ended None) # bs) log))" unfolding e .
qed

abbreviation "tick_log3 \<equiv> [tick_start (2 * Second_dur), tick_start Second_dur, tick_start 0]"

text \<open>Two runs overlap; the first fails, the second succeeds; then the job runs a third time.\<close>

definition tick_at :: "nat \<Rightarrow> sched" where
  "tick_at i =
     [tick_state JobGood 0 zero_time [] [],
      tick_state JobGood (2 * Second_dur) zero_time [(''a'', Executing), (''a'', Executing)] [tick_start Second_dur, tick_start 0],
      tick_state JobFailed (2 * Second_dur) 0 [(''a'', Executing), (''a'', Ended None)] [tick_start Second_dur, tick_start 0],
      tick_state JobGood (2 * Second_dur) Second_dur [(''a'', Ended None), (''a'', Ended None)] [tick_start Second_dur, tick_start 0],
      tick_state JobGood (3 * Second_dur) Second_dur [(''a'', Executing), (''a'', Ended None), (''a'', Ended None)] tick_log3] ! i"

lemma tick_steps:
  "sched_steps loc (tick_at 0) (tick_at 1)" "sched_steps loc (tick_at 1) (tick_at 2)"
  "sched_steps loc (tick_at 2) (tick_at 3)" "sched_steps loc (tick_at 3) (tick_at 4)"
proof -
  have "sched_steps loc (tick_state JobGood 0 zero_time [] [])
      (tick_state JobGood (2 * Second_dur) zero_time [(''a'', Executing), (''a'', Executing)] [tick_start Second_dur, tick_start 0])"
    using rtranclp_trans [OF tick_launch [of loc 0 zero_time "[]" "[]"] tick_launch] by simp
  then show "sched_steps loc (tick_at 0) (tick_at 1)" by (simp add: tick_at_def)
  show "sched_steps loc (tick_at 1) (tick_at 2)"
    using tick_end(2) [of loc JobGood "2 * Second_dur" zero_time "[(''a'', Executing)]" "[]" _ SubprocFateFailed 0]
    by (intro r_into_rtranclp) (simp add: tick_at_def)
  show "sched_steps loc (tick_at 2) (tick_at 3)"
    using tick_end(2) [of loc JobFailed "2 * Second_dur" 0 "[]" "[(''a'', Ended None)]" _ SubprocFateSucceeded Second_dur]
    by (intro r_into_rtranclp) (simp add: tick_at_def)
  show "sched_steps loc (tick_at 3) (tick_at 4)"
    using tick_launch [of loc "2 * Second_dur"] by (simp add: tick_at_def numeral_eq_Suc algebra_simps)
qed

lemma sched_reaches_steps: "sched_steps loc s s' \<Longrightarrow> sched_reaches loc (Ok s) \<Longrightarrow> sched_reaches loc (Ok s')"
  by (induction rule: rtranclp_induct) (auto intro: step)

lemma tick_reaches: "i \<in> {0, 1, 2, 3, 4} \<Longrightarrow> sched_reaches loc (Ok (tick_at i))"
proof -
  have 0: "sched_reaches loc (Ok (tick_at 0))" using tick_reached by (simp add: tick_at_def)
  note 1 = sched_reaches_steps [OF tick_steps(1) 0]
  note 2 = sched_reaches_steps [OF tick_steps(2) 1]
  note 3 = sched_reaches_steps [OF tick_steps(3) 2]
  note 4 = sched_reaches_steps [OF tick_steps(4) 3]
  show "i \<in> {0, 1, 2, 3, 4} \<Longrightarrow> ?thesis" using 0 1 2 3 4 by blast
qed

theorem scheduler_safe_witness:
  "sched_reaches (\<lambda>_. 0) (Ok (tick_at 4)) \<and> st_due (tick_start Second_dur) \<le> st_time (tick_start Second_dur) \<and>
   distinct (map (\<lambda>e. (st_name e, st_due e)) tick_log3)"
proof -
  have log: "s_log (tick_at 4) = tick_log3" by (simp add: tick_at_def tick_state_def)
  have r: "sched_reaches (\<lambda>_. 0) (Ok (tick_at 4))" using tick_reaches by simp
  have "(\<forall>e \<in> set (s_log (tick_at 4)). st_due e \<le> st_time e) \<and> distinct (map (\<lambda>e. (st_name e, st_due e)) (s_log (tick_at 4)))"
    using scheduler_safe [OF r] by (auto simp: run_error_def)
  then show ?thesis using r unfolding log by simp
qed

theorem scheduler_refines_witness:
  "sched_reaches (\<lambda>_. 0) (Ok (tick_at 2)) \<and> runner_reaches (Ok (s_runner (tick_at 2)))"
  using scheduler_refines [OF tick_reaches] tick_reaches by simp

theorem Pop_refines_witness:
  "\<exists>s'. sched_steps (\<lambda>_. 0) (tick_at 0) s' \<and> s_q s' = [''a''] \<and> (\<exists>e. s_pc s' = Got e \<and> st_name e = ''a'')"
proof -
  let ?job = "tick_job\<lparr>NextRunTime := Some 0, Status := JobGood, LastRunTime := zero_time\<rparr>"
  let ?jobs = "[''a'' \<mapsto> tick_job\<lparr>NextRunTime := Some Second_dur, Status := JobGood, LastRunTime := zero_time\<rparr>]"
  have at: "s_jobs (tick_at 0) = [''a'' \<mapsto> ?job]" "s_q (tick_at 0) = [''a'']" "loopAt (s_runner (tick_at 0)) = Popping"
    "s_pc (tick_at 0) = Asking"
    by (simp_all add: tick_at_def tick_state_def)
  have n: "nextRunTime (\<lambda>_. 0) ?job (Add 0 Second_dur) = Ok (Some Second_dur)"
    using tick_next [of ?job] by (simp add: Add_def)
  have "JobQueue_Pop_body (\<lambda>_. 0) (s_jobs (tick_at 0)) (s_q (tick_at 0)) 0 [] = Done (Ok (Returned (Some ''a'') ?jobs [''a''] 0 []))"
    using n by (simp add: at JobQueue_Pop_body_def Empty_def heap_one Let_def ShouldRun_def tick_job_def new_job_def)
  then have "JobQueue_Pop (\<lambda>_. 0) (s_jobs (tick_at 0)) (s_q (tick_at 0)) 0 [] = Ok (Returned (Some ''a'') ?jobs [''a''] 0 [])"
    by (subst JobQueue_Pop.simps) simp
  from Pop_refines [OF this at(3,4)] show ?thesis by (auto simp: pop_leaves_def)
qed

text \<open>
  C21. A stopped job can start again by itself. The error handler \<open>Stop\<close> leaves a job failed for
  good; but when two of its runs overlap, the first to end fails, and the job is stopped, and the other
  one then succeeds, the job is good again, and \<open>Pop\<close> takes it, finds that it should run, and it is launched
  at its next due time. These are five consecutive steps of the scheduler, none of which loads a job file.
\<close>

theorem stopped_job_revived:
  "\<exists>s0 s1 s2 s3 s4 s5 job t1 t2 t3 e. sched_reaches loc (Ok s0) \<and>
     s_runs s0 = [(''a'', Executing), (''a'', Executing)] \<and>
     s_jobs s0 ''a'' = Some job \<and> JobErrorHandler job = StopErrorHandler \<and> Status job = JobGood \<and>
     end_run ''a'' SubprocFateFailed t1 (s0\<lparr>s_runs := [(''a'', Executing), (''a'', Ended None)]\<rparr>) = Ok s1 \<and>
     sched_step loc s0 (Ok s1) \<and> map_option Status (s_jobs s1 ''a'') = Some JobFailed \<and>
     end_run ''a'' SubprocFateSucceeded t2 (s1\<lparr>s_runs := [(''a'', Ended None), (''a'', Ended None)]\<rparr>) = Ok s2 \<and>
     sched_step loc s1 (Ok s2) \<and> map_option Status (s_jobs s2 ''a'') = Some JobGood \<and>
     take_job s2 = Ok s3 \<and> sched_step loc s2 (Ok s3) \<and>
     wake_job loc t3 ''a'' s3 = Ok s4 \<and> sched_step loc s3 (Ok s4) \<and>
     launch_job e s4 = Ok s5 \<and> sched_step loc s4 (Ok s5) \<and>
     s_log s5 = e # s_log s0 \<and> st_name e = ''a'' \<and> st_status e = JobGood"
proof -
  let ?log = "[tick_start Second_dur, tick_start 0]" and ?t = "2 * Second_dur"
  let ?s0 = "tick_state JobGood ?t zero_time [(''a'', Executing), (''a'', Executing)] ?log"
  let ?s1 = "tick_state JobFailed ?t 0 [(''a'', Executing), (''a'', Ended None)] ?log"
  let ?s2 = "tick_state JobGood ?t Second_dur [(''a'', Ended None), (''a'', Ended None)] ?log"
  let ?s4 = "tick_got ?t Second_dur [(''a'', Ended None), (''a'', Ended None)] ?log"
  let ?s5 = "tick_state JobGood (?t + Second_dur) Second_dur [(''a'', Executing), (''a'', Ended None), (''a'', Ended None)] (tick_start ?t # ?log)"
  let ?job = "tick_job\<lparr>NextRunTime := Some ?t, Status := JobGood, LastRunTime := zero_time\<rparr>"
  have r: "sched_reaches loc (Ok ?s0)" using tick_reaches [of 1 loc] by (simp add: tick_at_def)
  have job: "s_jobs ?s0 ''a'' = Some ?job" "JobErrorHandler ?job = StopErrorHandler" "Status ?job = JobGood"
    by (simp_all add: tick_state_def tick_job_def)
  have fail: "end_run ''a'' SubprocFateFailed 0 (?s0\<lparr>s_runs := [(''a'', Executing), (''a'', Ended None)]\<rparr>) = Ok ?s1"
    "sched_step loc ?s0 (Ok ?s1)"
    using tick_end [where fate = SubprocFateFailed and t = 0 and status = JobGood and nxt = ?t and l = zero_time
        and as = "[(''a'', Executing)]" and bs = "[]" and log = ?log] by simp_all
  have good: "end_run ''a'' SubprocFateSucceeded Second_dur (?s1\<lparr>s_runs := [(''a'', Ended None), (''a'', Ended None)]\<rparr>) = Ok ?s2"
    "sched_step loc ?s1 (Ok ?s2)"
    using tick_end [where fate = SubprocFateSucceeded and t = Second_dur and status = JobFailed and nxt = ?t and l = 0
        and as = "[]" and bs = "[(''a'', Ended None)]" and log = ?log] by simp_all
  have statuses: "s_runs ?s0 = [(''a'', Executing), (''a'', Executing)]" "map_option Status (s_jobs ?s1 ''a'') = Some JobFailed"
    "map_option Status (s_jobs ?s2 ''a'') = Some JobGood"
    "s_log ?s5 = tick_start ?t # s_log ?s0" "st_name (tick_start ?t) = ''a''" "st_status (tick_start ?t) = JobGood"
    by (simp_all add: tick_state_def tick_start_def)
  show ?thesis
    by (rule exI [of _ ?s0], rule exI [of _ ?s1], rule exI [of _ ?s2], rule exI [of _ "tick_asleep ?s2"], rule exI [of _ ?s4],
        rule exI [of _ ?s5], rule exI [of _ ?job], rule exI [of _ 0], rule exI [of _ Second_dur], rule exI [of _ ?t],
        rule exI [of _ "tick_start ?t"], intro conjI)
      (rule r job fail good statuses tick_ask tick_wake tick_run)+
qed

end
