(* ===== verification/Manager_Inv.thy ===== *)
theory Manager_Inv
  imports Scheduler
begin

text \<open>
  The invariant of the job manager's state, over every sequence of commands, run records, and
  changes that the job-runner thread makes to the jobs it shares with the manager.
\<close>

section \<open>What never changes in a job\<close>

definition frozen :: "Job \<Rightarrow> Job" where
  "frozen job = job\<lparr>Status := JobGood, LastRunTime := 0, NextRunTime := None, backoffLevel := 0, skipsLeft := 0, Paused := False\<rparr>"

text \<open>A job has the name, command, user, schedule, handler and sinks that a job of the file gives it.\<close>

definition runs_as :: "user \<Rightarrow> string \<Rightarrow> JobV3Raw \<Rightarrow> Job \<Rightarrow> bool" where
  "runs_as usr name raw job \<longleftrightarrow> job_inv job \<and> (\<exists>job0. fresh_job usr name raw job0 \<and> frozen job = frozen job0)"

lemma frozen_static: "frozen job = frozen job' \<longleftrightarrow>
    frozen (static_part job) = frozen (static_part job')"
  by (simp add: frozen_def static_part_def)

lemma frozen_job_after: "frozen (job_after fate t job) = frozen job"
  unfolding frozen_static [of "job_after fate t job"] job_after_static by (simp add: frozen_def)

lemma frozen_ShouldRun: "frozen (snd (ShouldRun job)) = frozen job"
  by (simp add: frozen_def ShouldRun_def Let_def split: JobStatus.split)

lemma runs_as_keep:
  "runs_as usr name raw job \<Longrightarrow> frozen job' = frozen job \<Longrightarrow> (job_inv job \<Longrightarrow> job_inv job') \<Longrightarrow> runs_as usr name raw job'"
  unfolding runs_as_def by metis

lemma runs_as_change: "runs_as usr name raw job \<Longrightarrow> runs_as usr name raw (change_job ch job)"
proof (cases ch)
  case (NextRunSet t)
  moreover have "frozen (job\<lparr>NextRunTime := t\<rparr>) = frozen job" by (simp add: frozen_def)
  ultimately show "runs_as usr name raw job \<Longrightarrow> ?thesis"
    using runs_as_keep [of usr name raw job "job\<lparr>NextRunTime := t\<rparr>"] by (simp add: change_job_def job_inv_def)
next
  case AskedToRun
  then show "runs_as usr name raw job \<Longrightarrow> ?thesis"
    using runs_as_keep [OF _ frozen_ShouldRun ShouldRun_inv] by (simp add: change_job_def)
next
  case (RunEnded fate t)
  then show "runs_as usr name raw job \<Longrightarrow> ?thesis"
    using runs_as_keep [OF _ frozen_job_after job_after_inv] by (simp add: change_job_def)
qed

lemma runs_as_pause: "runs_as usr name raw job \<Longrightarrow> runs_as usr name raw (job\<lparr>Paused := b\<rparr>)"
  by (erule runs_as_keep) (simp_all add: frozen_def job_inv_def)

section \<open>The invariant\<close>

definition jobs_loaded :: "user \<Rightarrow> JobFileV3Raw \<Rightarrow> (string \<times> Job) list \<Rightarrow> bool" where
  "jobs_loaded usr raw jobs \<longleftrightarrow> distinct (map fst (j3_Jobs raw)) \<and>
     list_all2 (\<lambda>(name, r) (name', job). name' = name \<and> runs_as usr name r job) (j3_Jobs raw) jobs"

definition jfile_ok :: "user \<Rightarrow> JobFile option \<Rightarrow> bool" where
  "jfile_ok usr jfile \<longleftrightarrow> (\<exists>jf. jfile = Some jf \<and> jobs_loaded usr (jf_Raw jf) (jf_Jobs jf))"

text \<open>The manager has a job file, whose jobs are those of its text, and the job-runner thread runs on them.\<close>

definition manager_ok :: "user \<Rightarrow> JobManager \<Rightarrow> bool" where
  "manager_ok usr m \<longleftrightarrow> jm_user m = usr \<and> jm_running m \<and> jfile_ok usr (jm_jfile m)"

text \<open>Maps that come from YAML, or from a copy through it, have different keys.\<close>

definition keys_ok :: "jm_env \<Rightarrow> bool" where
  "keys_ok env \<longleftrightarrow> (\<forall>txt raw. v3_of (je_yaml env) txt = Ok raw \<longrightarrow> distinct (map fst (j3_Jobs raw))) \<and>
     (\<forall>raw. distinct (map fst (j3_Jobs raw)) \<longrightarrow> distinct (map fst (j3_Jobs (je_dup env raw))))"

lemma jobs_loaded_map:
  assumes "jobs_loaded usr raw jobs" "\<And>name r job. runs_as usr name r job \<Longrightarrow> runs_as usr name r (f name job)"
  shows "jobs_loaded usr raw (map (\<lambda>(name, job). (name, f name job)) jobs)"
  using assms by (auto simp: jobs_loaded_def list.rel_map elim!: list.rel_mono_strong)

lemma jobs_loaded_update:
  assumes "jobs_loaded usr raw jobs" "map_of jobs name = Some job" "\<And>r. runs_as usr name r job \<Longrightarrow> runs_as usr name r job'"
  shows "jobs_loaded usr raw (AList.update name job' jobs)"
proof -
  have "list_all2 (\<lambda>(n, r) (n', j). n' = n \<and> runs_as usr n r j) raws (AList.update name job' js)"
    if "list_all2 (\<lambda>(n, r) (n', j). n' = n \<and> runs_as usr n r j) raws js" "map_of js name = Some job" for raws js
    using that assms(3) by (induction rule: list_all2_induct) (auto split: if_splits)
  then show ?thesis using assms(1,2) by (simp add: jobs_loaded_def)
qed

lemma set_paused_loaded:
  "set_paused b names n jobs = (n', jobs') \<Longrightarrow> jobs_loaded usr raw jobs \<Longrightarrow> jobs_loaded usr raw jobs'"
proof (induction b names n jobs arbitrary: n' jobs' rule: set_paused.induct)
  case (2 b name names n jobs)
  show ?case
  proof (cases "map_of jobs name")
    case None
    then show ?thesis using "2.IH"(1) "2.prems" by simp
  next
    case (Some job)
    have "jobs_loaded usr raw (AList.update name (job\<lparr>Paused := b\<rparr>) jobs)"
      using "2.prems"(2) Some by (rule jobs_loaded_update) (rule runs_as_pause)
    then show ?thesis using "2.IH"(2,3) [OF Some] "2.prems" Some by (cases "Paused job \<noteq> b") simp_all
  qed
qed simp

lemma Activate_loaded:
  assumes "Activate yaml rand listen usr raw os registry = Some (Ok jf, os', registry')" "distinct (map fst (j3_Jobs raw))"
  shows "jf_Raw jf = raw \<and> jobs_loaded usr (jf_Raw jf) (jf_Jobs jf)"
proof -
  obtain jobs where jobs: "activate_jobs yaml rand usr 0 (j3_Jobs raw) [] = Some (Ok jobs)" and jf: "jf_Jobs jf = jobs" "jf_Raw jf = raw"
    using assms(1) by (auto simp: Activate_def Let_def split: prod.splits outcome.splits option.splits)
  have "list_all2 (\<lambda>(name, r) (name', job). name' = name \<and> fresh_job usr name r job) (j3_Jobs raw) (jf_Jobs jf)"
    using activate_jobs_Ok [OF jobs] assms(2) jf by simp
  then have "list_all2 (\<lambda>(name, r) (name', job). name' = name \<and> runs_as usr name r job) (j3_Jobs raw) (jf_Jobs jf)"
    by (rule list.rel_mono_strong) (auto simp: runs_as_def fresh_job_def)
  then show ?thesis using assms(2) jf by (simp add: jobs_loaded_def)
qed

section \<open>Every operation keeps it\<close>

lemma handleRunRec_keeps:
  assumes "handleRunRec env rec m = (r, m')"
  shows "jm_user m' = jm_user m" "jm_running m' = jm_running m" "jfile_ok usr (jm_jfile m) \<Longrightarrow> jfile_ok usr (jm_jfile m')"
  using assms by (auto simp: handleRunRec_def Let_def jfile_ok_def with_log_def split: option.splits prod.splits if_splits)

lemma handleRunRecs_keeps:
  assumes "handleRunRecs env recs m = (r, m')"
  shows "jm_user m' = jm_user m \<and> jm_running m' = jm_running m \<and> (jfile_ok usr (jm_jfile m) \<longrightarrow> jfile_ok usr (jm_jfile m'))"
  using assms
proof (induction recs arbitrary: m)
  case (Cons rec recs)
  obtain r1 m1 where 1: "handleRunRec env rec m = (r1, m1)" by fastforce
  show ?case
  proof (cases r1)
    case (Ok u)
    then have "handleRunRecs env recs m1 = (r, m')" using Cons.prems 1 by (simp add: bind_io_def)
    from Cons.IH [OF this] show ?thesis using handleRunRec_keeps [OF 1] by metis
  qed (use Cons.prems 1 handleRunRec_keeps [OF 1] in \<open>auto simp: bind_io_def\<close>)
qed simp

lemma startRunner_keeps:
  assumes "startRunner m = (r, m')" "\<not> is_Panic r"
  shows "jm_running m'" "jm_user m' = jm_user m" "jm_jfile m' = jm_jfile m"
  using assms by (auto simp: startRunner_def is_Panic_def split: if_splits)

lemma set_loggers_keeps:
  "jm_user (set_loggers jf m) = jm_user m" "jm_jfile (set_loggers jf m) = jm_jfile m"
  by (auto simp: set_loggers_def SetLogFile_def LogToStdoutStderr_def split: prod.splits outcome.splits)

text \<open>Handling records returns or panics; so does replacing the job file.\<close>

lemma handleRunRecs_ends:
  assumes "handleRunRecs env recs m = (r, m')"
  shows "is_Ok r \<or> is_Panic r"
proof -
  have n: "is_Ok (fst (notify e rec sinks w)) \<or> is_Panic (fst (notify e rec sinks w))" for e rec sinks w
    by (induction e rec sinks w rule: notify.induct) (auto simp: is_Ok_def is_Panic_def split: prod.splits outcome.splits)
  have h: "is_Ok (fst (handleRunRec env rec m)) \<or> is_Panic (fst (handleRunRec env rec m))" for rec m
    using n by (auto simp: handleRunRec_def Let_def is_Panic_def split: option.splits prod.splits) (metis fst_conv)+
  show ?thesis using assms
  proof (induction recs arbitrary: m)
    case (Cons rec recs)
    then show ?case using h [of rec m]
      by (auto simp: bind_io_def is_Panic_def split: prod.splits outcome.splits)
  qed auto
qed

lemma replace_keeps:
  assumes "replaceCurrJobfile env recs raw m = Some (r, m')" "\<not> is_Panic r"
    "distinct (map fst (j3_Jobs raw))" "jm_user m = usr"
  shows "is_Ok r \<and> manager_ok usr m'"
proof -
  obtain r1 m1 where 1: "handleRunRecs env recs m = (r1, m1)" by fastforce
  then obtain u where Ok: "r1 = Ok u"
    using assms(1,2) handleRunRecs_ends [OF 1] by (auto simp: replaceCurrJobfile_def is_Ok_iff is_Panic_def split: outcome.splits)
  have usr: "jm_user m1 = usr" using handleRunRecs_keeps [OF 1] assms(4) by simp
  obtain act os registry where a: "Activate (je_yaml env) (je_rand env) (je_listen env) usr raw (w_os (jm_world m1))
      (w_registry (jm_world m1)) = Some (act, os, registry)"
    using assms(1) 1 Ok usr by (auto simp: replaceCurrJobfile_def split: option.splits)
  show ?thesis
  proof (cases act)
    case ok: (Ok jf)
    have jf: "jfile_ok usr (Some jf)"
      using Activate_loaded [OF a [unfolded ok] assms(3)] unfolding jfile_ok_def by blast
    let ?m2 = "set_loggers jf (m1\<lparr>jm_running := False, jm_world := (jm_world m1)\<lparr>w_os := os, w_registry := registry\<rparr>,
      jm_jfile := Some jf\<rparr>)"
    have s: "startRunner ?m2 = (r, m')"
      using assms(1) 1 Ok a ok usr by (simp add: replaceCurrJobfile_def Let_def)
    then have "is_Ok r" using assms(2) by (auto simp: startRunner_def is_Panic_def split: if_splits)
    then show ?thesis
      using startRunner_keeps [OF s assms(2)] set_loggers_keeps usr jf by (simp add: manager_ok_def)
  qed (use assms(1,2) 1 Ok a usr in \<open>auto simp: replaceCurrJobfile_def Let_def startRunner_def is_Panic_def\<close>)
qed

lemma openJobfile_keeps:
  assumes "openJobfile env m = (r, m')"
  shows "jm_user m' = jm_user m" "jm_running m' = jm_running m" "jm_jfile m' = jm_jfile m"
    "r = Ok (Some raw) \<Longrightarrow> \<exists>txt. LoadJobfile (je_yaml env) txt = Ok raw"
  using assms by (auto simp: openJobfile_def Let_def split: prod.splits outcome.splits if_splits)

text \<open>An old job file names its jobs in a list; a name that comes twice is an error.\<close>

lemma v1v2Jobs_distinct:
  "v1v2Jobs sinks raws jobs = Ok jobs' \<Longrightarrow> distinct (map fst jobs) \<Longrightarrow> distinct (map fst jobs')"
  by (induction sinks raws jobs rule: v1v2Jobs.induct) (auto simp: map_of_eq_None_iff split: if_splits option.splits)

lemma v1v2ToV3_distinct: "v1v2ToV3 raw = Ok v3 \<Longrightarrow> distinct (map fst (j3_Jobs v3))"
  by (auto simp: v1v2ToV3_def Let_def bind_outcome_Ok_iff dest: v1v2Jobs_distinct)

lemma LoadJobfile_distinct:
  assumes "LoadJobfile (je_yaml env) txt = Ok raw" "keys_ok env"
  shows "distinct (map fst (j3_Jobs raw))"
  using assms
  by (auto simp: LoadJobfile_def parseV3Jobfile_def parseV1V2Jobfile_def bind_outcome_Ok_iff keys_ok_def
      intro: v1v2ToV3_distinct split: if_splits option.splits)

lemma loadJobfile_keeps:
  assumes "loadJobfile env recs m = Some (r, m')" "\<not> is_Panic r" "keys_ok env" "jm_user m = usr" "jfile_ok usr (jm_jfile m)"
  shows "manager_ok usr m'"
proof -
  obtain r1 m1 where 1: "openJobfile env m = (r1, m1)" by fastforce
  note keep = openJobfile_keeps [OF 1]
  have empty: "distinct (map fst (j3_Jobs NewEmptyRawJobFile))" by (simp add: NewEmptyRawJobFile_def)
  show ?thesis
  proof (cases r1)
    case (Ok jfile)
    let ?raw = "case jfile of None \<Rightarrow> NewEmptyRawJobFile | Some raw \<Rightarrow> raw"
    have "distinct (map fst (j3_Jobs ?raw))"
      using Ok keep(4) LoadJobfile_distinct assms(3) empty by (cases jfile) (simp, force)
    moreover have "replaceCurrJobfile env recs ?raw m1 = Some (r, m')" using assms(1) 1 Ok by (simp add: loadJobfile_def)
    ultimately show ?thesis using replace_keeps assms(2,4) keep(1) by blast
  next
    case (Fail e)
    show ?thesis
    proof (cases "IsNotExist e")
      case True
      then have "replaceCurrJobfile env recs NewEmptyRawJobFile m1 = Some (r, m')" using assms(1) 1 Fail by (simp add: loadJobfile_def)
      then show ?thesis using replace_keeps assms(2,4) keep(1) empty by blast
    next
      case False
      then show ?thesis
        using assms 1 Fail keep(1-3) by (auto simp: loadJobfile_def startRunner_def manager_ok_def is_Panic_def split: if_splits)
    qed
  next
    case (Panic p)
    then show ?thesis using assms(1,2) 1 by (auto simp: loadJobfile_def is_Panic_def)
  qed
qed

section \<open>Commands and the main loop\<close>

lemma after_replace_keeps:
  assumes "after_replace x f = Some (Ok resp, m')" "\<And>r m1. x = Some (r, m1) \<Longrightarrow> \<not> is_Panic r \<Longrightarrow> manager_ok usr m1"
  shows "manager_ok usr m'"
  using assms by (auto simp: after_replace_def is_Panic_def split: option.splits prod.splits outcome.splits)

lemma distinct_filter_keys: "distinct (map fst xs) \<Longrightarrow> distinct (map fst (filter P xs))"
  by (rule distinct_map_filter)

text \<open>The commands that only look at the jobs or write files.\<close>

lemma with_jfile_Ok:
  "with_jfile f m = (Ok resp, m') \<Longrightarrow> \<exists>jf. jm_jfile m = Some jf \<and> f jf = (Ok resp, m')"
  by (auto simp: with_jfile_def split: option.splits)

lemma manager_ok_world: "manager_ok usr (m\<lparr>jm_world := w\<rparr>) \<longleftrightarrow> manager_ok usr m"
  "manager_ok usr (m\<lparr>jm_testJobServer := t\<rparr>) \<longleftrightarrow> manager_ok usr m"
  by (simp_all add: manager_ok_def)

lemma pause_keeps:
  assumes "pause_or_resume b resp names m = (Ok x, m')" "manager_ok usr m"
  shows "manager_ok usr m'"
proof -
  obtain jf where jf: "jm_jfile m = Some jf" using assms(1) by (auto simp: pause_or_resume_def dest: with_jfile_Ok)
  let ?names = "if length names = 0 then map fst (jf_Jobs jf) else names"
  obtain n jobs where sp: "set_paused b ?names 0 (jf_Jobs jf) = (n, jobs)" by fastforce
  have l: "jobs_loaded usr (jf_Raw jf) (jf_Jobs jf)" using assms(2) jf by (auto simp: manager_ok_def jfile_ok_def)
  have l2: "jobs_loaded usr (jf_Raw jf) jobs" using set_paused_loaded [OF sp l] .
  have "m' = m \<or> m' = m\<lparr>jm_jfile := Some (jf\<lparr>jf_Jobs := jobs\<rparr>)\<rparr>"
    using assms(1) jf sp by (auto simp: pause_or_resume_def with_jfile_def Let_def split: option.splits)
  then show ?thesis using assms(2) l2 by (auto simp: manager_ok_def jfile_ok_def)
qed

lemma doCmd_keeps:
  assumes "doCmd env recs t cmd m = Some (Ok resp, m')" "manager_ok usr m" "keys_ok env"
  shows "manager_ok usr m'"
proof -
  obtain jf where jf: "jm_jfile m = Some jf" "distinct (map fst (j3_Jobs (jf_Raw jf)))" and usr: "jm_user m = usr"
    using assms(2) by (auto simp: manager_ok_def jfile_ok_def jobs_loaded_def)
  show ?thesis
  proof (cases cmd)
    case ReloadCmd
    have "manager_ok usr m1" if "loadJobfile env recs m = Some (r, m1)" "\<not> is_Panic r" for r m1
      using loadJobfile_keeps [OF that assms(3) usr] assms(2) by (simp add: manager_ok_def [of _ m])
    then show ?thesis
      using assms(1) ReloadCmd by (auto simp: doReloadCmd_def intro: after_replace_keeps)
  next
    case (SetJobCmd j raw)
    have "distinct (map fst (j3_Jobs (je_dup env (jf_Raw jf))))" using assms(3) jf(2) by (simp add: keys_ok_def)
    then have d: "distinct (map fst (AList.update j raw (j3_Jobs (je_dup env (jf_Raw jf)))))" by (rule distinct_update)
    let ?raw = "(je_dup env (jf_Raw jf))\<lparr>j3_Jobs := AList.update j raw (j3_Jobs (je_dup env (jf_Raw jf)))\<rparr>"
    let ?m2 = "log_line ''Before replaceCurrJobfile'' (log_line (''After dup: '' @ je_show env (je_dup env (jf_Raw jf)))
      (log_line ''doSetJobCmd'' m))"
    obtain r m3 where r: "replaceCurrJobfile env recs ?raw ?m2 = Some (r, m3)" "\<not> is_Panic r" and m': "m' = log_line ''After replaceCurrJobfile'' m3"
      using assms(1) SetJobCmd jf(1)
      by (auto simp: doSetJobCmd_def Let_def is_Panic_def log_line_def split: option.splits prod.splits outcome.splits)
    have "manager_ok usr m3" using replace_keeps [OF r, of usr] d usr by (simp add: log_line_def)
    then show ?thesis unfolding m' by (simp add: log_line_def manager_ok_world)
  next
    case (DeleteJobCmd j)
    have "after_replace (replaceCurrJobfile env recs
             \<lparr>j3_Version = SemVer_zero, j3_Prefs = j3_Prefs (jf_Raw jf),
              j3_Jobs = filter (\<lambda>(name, job). name \<noteq> j) (j3_Jobs (jf_Raw jf))\<rparr> m) (\<lambda>_. Ok (DeleteJobCmdResp True)) = Some (Ok resp, m')"
      using assms(1) DeleteJobCmd jf(1) by (simp add: doDeleteJobCmd_def)
    then show ?thesis
      by (rule after_replace_keeps) (rule replace_keeps [THEN conjunct2], assumption+, use jf(2) usr in \<open>simp_all add: distinct_filter_keys\<close>)
  next
    case LogCmd
    then show ?thesis using assms(1,2)
      by (auto simp: doLogCmd_def manager_ok_world dest!: with_jfile_Ok split: prod.splits)
  next
    case InitCmd
    then show ?thesis using assms(1,2)
      by (auto simp: doInitCmd_def manager_ok_world split: prod.splits outcome.splits)
  next
    case (TestCmd j)
    then show ?thesis using assms(1,2)
      by (auto simp: doTestCmd_def manager_ok_world dest!: with_jfile_Ok split: if_splits option.splits prod.splits)
  next
    case (PauseCmd names)
    then show ?thesis using assms(1,2) pause_keeps by (auto simp: doPauseCmd_def)
  next
    case (ResumeCmd names)
    then show ?thesis using assms(1,2) pause_keeps by (auto simp: doResumeCmd_def)
  qed (use assms(1,2) in \<open>auto simp: doListJobsCmd_def doCatCmd_def dest!: with_jfile_Ok\<close>)
qed

lemma change_jobs_keeps:
  assumes "manager_ok usr m"
  shows "manager_ok usr (change_jobs name ch m)"
proof -
  obtain jf where jf: "jm_jfile m = Some jf" "jobs_loaded usr (jf_Raw jf) (jf_Jobs jf)"
    using assms by (auto simp: manager_ok_def jfile_ok_def)
  have "runs_as usr n r (if n = name then change_job ch job else job)" if "runs_as usr n r job" for n r job
    using that by (cases "n = name") (simp_all add: runs_as_change)
  from jobs_loaded_map [OF jf(2), of "\<lambda>n job. if n = name then change_job ch job else job", OF this]
  have "jobs_loaded usr (jf_Raw jf) (map (\<lambda>(n, job). (n, if n = name then change_job ch job else job)) (jf_Jobs jf))"
    by simp
  then show ?thesis using assms jf by (simp add: change_jobs_def manager_ok_def jfile_ok_def)
qed

lemma main_step_keeps:
  assumes "main_step env ev m = Some (Ok b, resp, m')" "manager_ok usr m" "keys_ok env"
  shows "manager_ok usr m'"
proof (cases ev)
  case (RecReceived rec)
  obtain r m1 where 1: "handleRunRec env rec m = (r, m1)" by fastforce
  have "m' = m1" using assms(1) 1 RecReceived by (auto simp: main_step_def split: outcome.splits)
  then show ?thesis using handleRunRec_keeps [OF 1] assms(2) by (auto simp: manager_ok_def)
next
  case (CmdReceived t cmd recs)
  then show ?thesis using assms doCmd_keeps by (auto simp: main_step_def split: option.splits prod.splits outcome.splits)
qed (use assms in \<open>auto simp: main_step_def manager_ok_world change_jobs_keeps\<close>)

lemma main_loop_keeps:
  assumes "main_loop env evs m = Some (Ok b, resps, m')" "manager_ok usr m" "keys_ok env"
  shows "manager_ok usr m'"
  using assms(1,2)
proof (induction evs arbitrary: m b resps)
  case (Cons ev evs)
  obtain r resp m1 where 1: "main_step env ev m = Some (r, resp, m1)"
    using Cons.prems(1) by (auto split: option.splits)
  show ?case
  proof (cases r)
    case (Ok b1)
    have ok: "manager_ok usr m1" using main_step_keeps [OF 1 [unfolded Ok] Cons.prems(2) assms(3)] .
    show ?thesis
      using Cons.IH [OF _ ok] Cons.prems(1) 1 Ok ok by (cases b1) auto
  qed (use Cons.prems(1) 1 in auto)
qed simp

section \<open>The answers\<close>

lemma jobs_loaded_map_of:
  assumes "jobs_loaded usr raw jobs"
  shows "rel_option (\<lambda>r job. runs_as usr n r job) (map_of (j3_Jobs raw) n) (map_of jobs n)" "map fst jobs = map fst (j3_Jobs raw)"
proof -
  have "rel_option (\<lambda>r job. runs_as usr n r job) (map_of raws n) (map_of js n) \<and> map fst js = map fst raws"
    if "list_all2 (\<lambda>(name, r) (name', job). name' = name \<and> runs_as usr name r job) raws js" for raws js
    using that by (induction rule: list_all2_induct) auto
  then show "rel_option (\<lambda>r job. runs_as usr n r job) (map_of (j3_Jobs raw) n) (map_of jobs n)" "map fst jobs = map fst (j3_Jobs raw)"
    using assms by (auto simp: jobs_loaded_def)
qed

lemma runs_as_static:
  assumes "runs_as usr name raw job"
  shows "Name job = name" "Cmd job = r_Cmd raw"
proof -
  obtain job0 where "fresh_job usr name raw job0" and f: "frozen job = frozen job0" using assms by (auto simp: runs_as_def)
  moreover have "Name job = Name (frozen job)" "Cmd job = Cmd (frozen job)" by (simp_all add: frozen_def)
  ultimately show "Name job = name" "Cmd job = r_Cmd raw" unfolding f by (simp_all add: fresh_job_def frozen_def)
qed

lemma list_names:
  assumes "jobs_loaded usr raw jobs"
  shows "map jd_Name (map (\<lambda>(name, j). jobDesc j) jobs) = map fst (j3_Jobs raw)"
proof -
  have "map (\<lambda>(name, j). Name j) js = map fst raws"
    if "list_all2 (\<lambda>(name, r) (name', job). name' = name \<and> runs_as usr name r job) raws js" for raws js
    using that by (induction rule: list_all2_induct) (auto simp: runs_as_static)
  then show ?thesis using assms by (simp add: jobs_loaded_def comp_def case_prod_beta' jobDesc_def)
qed

text \<open>
  C23. The state of the job manager, from its start and through any sequence of commands, run records,
  and changes that the job-runner thread makes to the jobs: as long as it has not panicked, it has a
  job file and a running job-runner thread, and the jobs are exactly those of the last job file that
  could be loaded or that a command has edited, each with the command, user, schedule, error handler
  and sinks that the file gives it, and in a state that its error handler can be in. So \<open>list\<close> lists
  the jobs of that file, and \<open>cat\<close> prints the command that it gives.
\<close>

theorem manager_keeps_jobs:
  assumes "keys_ok env" "NewJobManager env usr jobfilePath w = Some (Ok m0)" "Launch m0 = Ok m1"
    "loadJobfile env recs m1 = Some (r, m2)" "\<not> is_Panic r"
    "main_loop env evs (m2\<lparr>jm_world := w2\<rparr>) = Some (Ok b, resps, m)"
  shows "\<exists>jf. jm_jfile m = Some jf \<and> jm_running m \<and> jobs_loaded usr (jf_Raw jf) (jf_Jobs jf) \<and>
    (\<exists>ds. doListJobsCmd m = (Ok (ListJobsCmdResp ds), m) \<and> map jd_Name ds = map fst (j3_Jobs (jf_Raw jf))) \<and>
    doCatCmd name m = (Ok (case map_of (j3_Jobs (jf_Raw jf)) name of
      None \<Rightarrow> ErrorCmdResp (Error ''No such job.'' None) | Some jobRaw \<Rightarrow> CatCmdResp (r_Cmd jobRaw)), m)"
proof -
  have "distinct (map fst (j3_Jobs NewEmptyRawJobFile))" by (simp add: NewEmptyRawJobFile_def)
  then have a: "jfile_ok usr (Some jf)" if "Activate yaml rand listen usr NewEmptyRawJobFile os registry = Some (Ok jf, os', registry')"
    for yaml rand listen os registry jf os' registry'
    using Activate_loaded [OF that] unfolding jfile_ok_def by blast
  have "jm_user m1 = usr \<and> jfile_ok usr (jm_jfile m1)"
    using assms(2,3) a by (auto simp: NewJobManager_def Launch_def split: option.splits prod.splits outcome.splits if_splits)
  then have "manager_ok usr m2" using loadJobfile_keeps [OF assms(4,5,1)] by blast
  then have "manager_ok usr m" using main_loop_keeps [OF assms(6) _ assms(1)] manager_ok_world(1) by blast
  then obtain jf where jf: "jm_jfile m = Some jf" "jm_running m" and l: "jobs_loaded usr (jf_Raw jf) (jf_Jobs jf)"
    by (auto simp: manager_ok_def jfile_ok_def)
  show ?thesis
    using jf l list_names [OF l] jobs_loaded_map_of(1) [OF l, of name]
    by (auto simp: doListJobsCmd_def doCatCmd_def with_jfile_def runs_as_static elim!: option.rel_cases)
qed

text \<open>A file with one job, which fails; it is paused, and its command can still be asked for.\<close>

definition tick_env :: jm_env where
  "tick_env = sample_jm_env\<lparr>je_yaml := sample_yaml\<lparr>v3_of := (\<lambda>_. Ok tick_raw)\<rparr>\<rparr>"

definition tick_world :: world where
  "tick_world = sample_world\<lparr>w_os := \<lparr>files = [''/home/u/.jobber'' \<mapsto> ''x''], faults = []\<rparr>\<rparr>"

lemma tick_load: "LoadJobfile (je_yaml tick_env) ''x'' = Ok tick_raw"
proof -
  have "jobfileVersion (je_yaml tick_env) ''x'' = Ok (SemVer 1 4 0)"
    by (simp add: tick_env_def jobfileVersion_def sample_yaml_def sample_jm_env_def HasPrefix_def IsZero_def)
  moreover have "0 \<le> Compare (SemVer 1 4 0) (SemVer 1 4 0)" by code_simp
  ultimately show ?thesis by (simp add: LoadJobfile_def parseV3Jobfile_def tick_env_def)
qed

lemma tick_may_load:
  "ShouldLoadJobfile sample_user (Ok \<lparr>stat_Uid = 7, stat_Mode = 0x1A4\<rparr>) (Ok \<lparr>stat_Uid = 7, stat_Mode = 0x1A4\<rparr>) = Ok True"
proof -
  have "nat_str 7 = ''7''" by code_simp
  moreover have "\<not> (Perm 0x1A4 AND gBadJobfilePerms > 0)" by (simp add: bad_perms_iff bit_numeral_rec)
  ultimately show ?thesis by (simp add: ShouldLoadJobfile_def UserOwnsFileF_def sample_user_def)
qed

lemma empty_activates:
  "\<exists>jf. Activate yaml rand listen usr NewEmptyRawJobFile \<lparr>files = fs, faults = []\<rparr> [] = Some (Ok jf, \<lparr>files = fs, faults = []\<rparr>, [])"
proof -
  have "ToPrefs usr (j3_Prefs NewEmptyRawJobFile) \<lparr>files = fs, faults = []\<rparr> =
      (Ok \<lparr>RunLogPref = MemLog \<lparr>mem_entries = [], mem_cap = 100\<rparr>, LogPath = []\<rparr>, \<lparr>files = fs, faults = []\<rparr>)"
    by (simp add: ToPrefs_def NewEmptyRawJobFile_def ToRunLog_def map_io_def lift_io_def bind_io_def
        return_io_def NewMemOnlyRunLog_def gDefaultMemRunLogMaxLen_def)
  then show ?thesis
    by (simp add: Activate_def NewEmptyRawJobFile_def socket_sinks_def List.map_filter_def SetServers_def Let_def)
qed

text \<open>The manager has started, and has loaded the file.\<close>

lemma tick_started:
  obtains m0 m1 m2 jf where "NewJobManager tick_env sample_user ''/home/u/.jobber'' tick_world = Some (Ok m0)" "Launch m0 = Ok m1"
    "loadJobfile tick_env [] m1 = Some (Ok (), m2)" "jm_jfile m2 = Some jf" "jf_Jobs jf = [(''a'', tick_job)]" "jf_Raw jf = tick_raw"
proof -
  have os: "w_os tick_world = \<lparr>files = [''/home/u/.jobber'' \<mapsto> ''x''], faults = []\<rparr>" "w_registry tick_world = []"
    by (simp_all add: tick_world_def sample_world_def)
  from empty_activates [of "je_yaml tick_env" "je_rand tick_env" "je_listen tick_env" sample_user "[''/home/u/.jobber'' \<mapsto> ''x'']"]
  obtain jf0 where "Activate (je_yaml tick_env) (je_rand tick_env) (je_listen tick_env) sample_user NewEmptyRawJobFile
      (w_os tick_world) (w_registry tick_world) = Some (Ok jf0, w_os tick_world, [])" unfolding os by blast
  then obtain m0 where m0: "NewJobManager tick_env sample_user ''/home/u/.jobber'' tick_world = Some (Ok m0)" "\<not> jm_launched m0"
      "jm_user m0 = sample_user" "jm_jobfilePath m0 = ''/home/u/.jobber''" "jm_world m0 = tick_world"
    by (simp add: NewJobManager_def os(2) [symmetric])
  define m1 where "m1 = m0\<lparr>jm_launched := True\<rparr>"
  have o: "openJobfile tick_env m1 = (Ok (Some tick_raw), m1)"
    using tick_load tick_may_load m0(3-5) os
    by (simp add: openJobfile_def os_Open_def m1_def tick_env_def sample_jm_env_def)
  from tick_activates [of "je_yaml tick_env" "je_rand tick_env" "je_listen tick_env" "[''/home/u/.jobber'' \<mapsto> ''x'']"]
  obtain jf where a: "Activate (je_yaml tick_env) (je_rand tick_env) (je_listen tick_env) (jm_user m1) tick_raw (w_os (jm_world m1))
      (w_registry (jm_world m1)) = Some (Ok jf, w_os tick_world, [])"
      and jf: "jf_Jobs jf = [(''a'', tick_job)]" "jf_Raw jf = tick_raw"
    using m0(3,5) os by (auto simp: m1_def)
  have "handleRunRecs tick_env [] m1 = (Ok (), m1)" by simp
  from replace_cases [OF this a] obtain m2 where "replaceCurrJobfile tick_env [] tick_raw m1 = Some (Ok (), m2)" "jm_jfile m2 = Some jf"
    by auto
  then show thesis
    using that [OF m0(1), of m1 m2 jf] m0(2) o jf by (simp add: Launch_def m1_def loadJobfile_def)
qed

theorem manager_keeps_jobs_witness:
  "\<exists>m2 w2 m. main_loop tick_env [CmdReceived IpcServerTypeUds (PauseCmd [''a'']) [], JobChanged ''a'' (RunEnded SubprocFateFailed 5)]
      (m2\<lparr>jm_world := w2\<rparr>) = Some (Ok True, [PauseCmdResp 1], m) \<and> doCatCmd ''a'' m = (Ok (CatCmdResp ''true''), m)"
proof -
  obtain m0 m1 m2 jf where m: "NewJobManager tick_env sample_user ''/home/u/.jobber'' tick_world = Some (Ok m0)" "Launch m0 = Ok m1"
    "loadJobfile tick_env [] m1 = Some (Ok (), m2)" and jf: "jm_jfile m2 = Some jf" "jf_Jobs jf = [(''a'', tick_job)]" "jf_Raw jf = tick_raw"
    by (rule tick_started)
  have k: "keys_ok tick_env" by (simp add: keys_ok_def tick_env_def sample_jm_env_def tick_raw_def)
  have p: "Paused tick_job = False" by (simp add: tick_job_def new_job_def)
  obtain m where loop: "main_loop tick_env [CmdReceived IpcServerTypeUds (PauseCmd [''a'']) [], JobChanged ''a'' (RunEnded SubprocFateFailed 5)]
      (m2\<lparr>jm_world := tick_world\<rparr>) = Some (Ok True, [PauseCmdResp 1], m)"
    and raw: "\<exists>jf'. jm_jfile m = Some jf' \<and> jf_Raw jf' = tick_raw"
    using jf p by (simp add: main_step_def doPauseCmd_def pause_or_resume_def with_jfile_def change_jobs_def Let_def)
  have "doCatCmd ''a'' m = (Ok (CatCmdResp ''true''), m)"
    using manager_keeps_jobs [OF k m(1,2,3) _ loop, of "''a''"] raw by (auto simp: is_Panic_def tick_raw_def)
  then show ?thesis using loop by blast
qed

end
