(* ===== verification/Logging.thy ===== *)
theory Logging
  imports Job_Manager
begin

text \<open>
  The two loggers of a process with their targets and their open files (\<open>common/logging.go\<close>). The
  files opened by the package have numbers, which stand for the \<open>os.File\<close> values; a closed file
  cannot be written to. What the job manager uses of this package is \<open>set_loggers\<close> in \<open>Job_Manager\<close>,
  which keeps only the path of the file that is logged to.
\<close>

section \<open>State\<close>

datatype log_target = ToStdout | ToStderr | ToFile nat | ToSyslog nat

record logging =
  lg_Logger :: "log_target list"
  lg_ErrLogger :: "log_target list"
  gLogFileHandles :: "nat list"
  lg_opened :: "string list"
  lg_open :: "nat set"
  lg_written :: "(log_target \<times> string) list"
  lg_os :: os

definition logging_init :: "os \<Rightarrow> logging" where
  "logging_init os = \<lparr>lg_Logger = [ToStdout], lg_ErrLogger = [ToStderr], gLogFileHandles = [], lg_opened = [], lg_open = {},
     lg_written = [], lg_os = os\<rparr>"

section \<open>Operations\<close>

text \<open>A logger writes a line to its targets in turn, and stops at the first that fails.\<close>

definition log_line :: "string \<Rightarrow> string" where
  "log_line msg = (if msg \<noteq> [] \<and> last msg = CHR 0x0A then msg else msg @ [CHR 0x0A])"

fun write_targets :: "string \<Rightarrow> log_target list \<Rightarrow> logging \<Rightarrow> logging" where
  "write_targets line [] s = s"
| "write_targets line (ToFile h # targets) s =
     (if h \<in> lg_open s then write_targets line targets (s\<lparr>lg_written := (ToFile h, line) # lg_written s\<rparr>) else s)"
| "write_targets line (t # targets) s = write_targets line targets (s\<lparr>lg_written := (t, line) # lg_written s\<rparr>)"

definition Logger_print :: "string \<Rightarrow> logging \<Rightarrow> logging" where
  "Logger_print msg s = write_targets (log_line msg) (lg_Logger s) s"

definition ErrLogger_print :: "string \<Rightarrow> logging \<Rightarrow> logging" where
  "ErrLogger_print msg s = write_targets (log_line msg) (lg_ErrLogger s) s"

definition saveLogFileHandles :: "nat list \<Rightarrow> logging \<Rightarrow> logging" where
  "saveLogFileHandles handles s = s\<lparr>lg_open := lg_open s - set (gLogFileHandles s), gLogFileHandles := handles\<rparr>"

definition LogAllToStderr :: "logging \<Rightarrow> logging" where
  "LogAllToStderr s = (saveLogFileHandles [] s)\<lparr>lg_Logger := [ToStderr], lg_ErrLogger := [ToStderr]\<rparr>"

definition LogToStdoutStderr_all :: "logging \<Rightarrow> logging" where
  "LogToStdoutStderr_all s = (saveLogFileHandles [] s)\<lparr>lg_Logger := [ToStdout], lg_ErrLogger := [ToStderr]\<rparr>"

text \<open>The priorities of the two loggers are \<open>LOG_INFO\<close> and \<open>LOG_ERR\<close>; either connection may fail.\<close>

definition UseSyslog :: "error option \<Rightarrow> error option \<Rightarrow> logging \<Rightarrow> unit outcome \<times> logging" where
  "UseSyslog infoErr errErr s =
     (case infoErr of
        Some e \<Rightarrow> (Fail e, s)
      | None \<Rightarrow>
          (case errErr of
             Some e \<Rightarrow> (Fail e, s)
           | None \<Rightarrow> (Ok (), (saveLogFileHandles [] s)\<lparr>lg_Logger := [ToSyslog 6], lg_ErrLogger := [ToSyslog 3]\<rparr>)))"

definition open_log :: "string \<Rightarrow> logging \<Rightarrow> nat outcome \<times> logging" where
  "open_log p s =
     (case os_OpenAppend p (lg_os s) of
        (Ok _, os) \<Rightarrow> (Ok (length (lg_opened s)),
           s\<lparr>lg_opened := lg_opened s @ [p], lg_open := insert (length (lg_opened s)) (lg_open s), lg_os := os\<rparr>)
      | (Fail e, os) \<Rightarrow> (Fail e, s\<lparr>lg_os := os\<rparr>)
      | (Panic e, os) \<Rightarrow> (Panic e, s\<lparr>lg_os := os\<rparr>))"

definition close_log :: "nat \<Rightarrow> logging \<Rightarrow> logging" where
  "close_log h s = s\<lparr>lg_open := lg_open s - {h}\<rparr>"

definition open_failed :: "string \<Rightarrow> logging \<Rightarrow> logging" where
  "open_failed p = ErrLogger_print (''Failed to open log file '' @ p)"

definition use_files :: "nat \<Rightarrow> nat \<Rightarrow> logging \<Rightarrow> logging" where
  "use_files outF errF s = s\<lparr>lg_Logger := [ToStdout, ToFile outF], lg_ErrLogger := [ToStderr, ToFile errF]\<rparr>"

fun SetLogFiles :: "string list \<Rightarrow> logging \<Rightarrow> unit outcome \<times> logging" where
  "SetLogFiles [p] s =
     (case open_log p s of
        (Ok f, s1) \<Rightarrow> (Ok (), use_files f f (saveLogFileHandles [f] s1))
      | (_, s1) \<Rightarrow> (Ok (), open_failed p s1))"
| "SetLogFiles [p, q] s =
     (case open_log p s of
        (Ok outF, s1) \<Rightarrow>
          (case open_log q s1 of
             (Ok errF, s2) \<Rightarrow> (Ok (), use_files outF errF (saveLogFileHandles [outF, errF] s2))
           | (_, s2) \<Rightarrow> (Ok (), open_failed q (close_log outF s2)))
      | (_, s1) \<Rightarrow> (Ok (), open_failed p s1))"
| "SetLogFiles paths s = (Panic ''Invalid paths arg'', s)"

section \<open>What holds after every operation\<close>

text \<open>
  Every file that a logger writes to is open, and the open files are those whose handles are saved:
  no line is lost on a closed file, and no file stays open for ever.
\<close>

definition targets_ok :: "log_target list \<Rightarrow> nat set \<Rightarrow> bool" where
  "targets_ok ts hs \<longleftrightarrow> (\<forall>h. ToFile h \<in> set ts \<longrightarrow> h \<in> hs)"

definition handles_ok :: "nat list \<Rightarrow> nat set \<Rightarrow> nat \<Rightarrow> bool" where
  "handles_ok saved hs n \<longleftrightarrow> hs = set saved \<and> hs \<subseteq> {..<n}"

definition logging_inv :: "logging \<Rightarrow> bool" where
  "logging_inv s \<longleftrightarrow> handles_ok (gLogFileHandles s) (lg_open s) (length (lg_opened s)) \<and>
     targets_ok (lg_Logger s) (lg_open s) \<and> targets_ok (lg_ErrLogger s) (lg_open s)"

lemma write_targets_frame:
  "lg_Logger (write_targets line ts s) = lg_Logger s" "lg_ErrLogger (write_targets line ts s) = lg_ErrLogger s"
  "gLogFileHandles (write_targets line ts s) = gLogFileHandles s" "lg_opened (write_targets line ts s) = lg_opened s"
  "lg_open (write_targets line ts s) = lg_open s" "lg_os (write_targets line ts s) = lg_os s"
  by (induction line ts s rule: write_targets.induct) simp_all

text \<open>On open files a logger leaves its line on every target.\<close>

lemma write_targets_all:
  "targets_ok ts (lg_open s) \<Longrightarrow>
     lg_written (write_targets line ts s) = rev (map (\<lambda>t. (t, line)) ts) @ lg_written s"
  by (induction line ts s rule: write_targets.induct) (simp_all add: targets_ok_def)

lemma print_inv:
  "logging_inv s \<Longrightarrow> logging_inv (Logger_print msg s)" "logging_inv s \<Longrightarrow> logging_inv (ErrLogger_print msg s)"
  "logging_inv s \<Longrightarrow> logging_inv (open_failed p s)"
  by (simp_all add: logging_inv_def Logger_print_def ErrLogger_print_def open_failed_def write_targets_frame)

text \<open>Opening a file: the invariant holds again once its handle is saved, or once it is closed.\<close>

lemma open_log_Ok:
  assumes "open_log p s = (Ok f, s1)"
  shows "f = length (lg_opened s)" "lg_open s1 = insert f (lg_open s)" "lg_opened s1 = lg_opened s @ [p]"
    "gLogFileHandles s1 = gLogFileHandles s" "lg_Logger s1 = lg_Logger s" "lg_ErrLogger s1 = lg_ErrLogger s"
    "lg_written s1 = lg_written s"
  using assms by (auto simp: open_log_def split: prod.splits outcome.splits)

lemma open_log_error:
  assumes "open_log p s = (r, s1)" "\<not> is_Ok r"
  shows "s1 = s\<lparr>lg_os := lg_os s1\<rparr>"
  using assms by (auto simp: open_log_def split: prod.splits outcome.splits)

lemma open_log_error_inv: "open_log p s = (r, s1) \<Longrightarrow> \<not> is_Ok r \<Longrightarrow> logging_inv s \<Longrightarrow> logging_inv s1"
  by (drule (1) open_log_error, erule ssubst) (simp add: logging_inv_def)

lemma close_log_inv:
  assumes "open_log p s = (Ok f, s1)" "logging_inv s"
  shows "logging_inv (close_log f s1)"
proof -
  note o = open_log_Ok [OF assms(1)]
  have "lg_open (close_log f s1) = lg_open s"
    using assms(2) o(1,2) by (auto simp: close_log_def logging_inv_def handles_ok_def)
  then show ?thesis
    using assms(2) o by (auto simp: logging_inv_def close_log_def handles_ok_def)
qed

lemma close_error_inv:
  "open_log p s = (r, s1) \<Longrightarrow> \<not> is_Ok r \<Longrightarrow> logging_inv (close_log f s) \<Longrightarrow> logging_inv (close_log f s1)"
  by (drule (1) open_log_error, erule ssubst) (simp add: logging_inv_def close_log_def)

lemma targets_inv:
  assumes "targets_ok ts {}" "targets_ok us {}"
  shows "logging_inv s \<Longrightarrow> logging_inv ((saveLogFileHandles [] s)\<lparr>lg_Logger := ts, lg_ErrLogger := us\<rparr>)"
  using assms by (simp add: logging_inv_def saveLogFileHandles_def handles_ok_def)

lemma use_files_inv:
  assumes "lg_open s = set fs \<union> set (gLogFileHandles s)" "set fs \<inter> set (gLogFileHandles s) = {}"
    "lg_open s \<subseteq> {..<length (lg_opened s)}" "outF \<in> set fs" "errF \<in> set fs"
  shows "logging_inv (use_files outF errF (saveLogFileHandles fs s))"
proof -
  have "lg_open s - set (gLogFileHandles s) = set fs" using assms(1,2) by blast
  then show ?thesis
    using assms by (auto simp: logging_inv_def use_files_def saveLogFileHandles_def handles_ok_def targets_ok_def)
qed

lemma SetLogFiles_inv:
  assumes "logging_inv s"
  shows "logging_inv (snd (SetLogFiles paths s))"
proof (cases "(paths, s)" rule: SetLogFiles.cases)
  case (1 p s0)
  obtain r s1 where o: "open_log p s = (r, s1)" by fastforce
  show ?thesis
  proof (cases r)
    case (Ok f)
    note f = open_log_Ok [OF o [unfolded Ok]]
    have "logging_inv (use_files f f (saveLogFileHandles [f] s1))"
      using assms f by (intro use_files_inv) (auto simp: logging_inv_def handles_ok_def)
    then show ?thesis using 1 o Ok by simp
  qed (use 1 o open_log_error_inv [OF o _ assms] in \<open>simp_all add: print_inv\<close>)
next
  case (2 p q s0)
  obtain r s1 where o: "open_log p s = (r, s1)" by fastforce
  show ?thesis
  proof (cases r)
    case (Ok f)
    obtain r' s2 where o2: "open_log q s1 = (r', s2)" by fastforce
    note f = open_log_Ok [OF o [unfolded Ok]]
    show ?thesis
    proof (cases r')
      case ok2: (Ok g)
      note g = open_log_Ok [OF o2 [unfolded ok2]]
      have "logging_inv (use_files f g (saveLogFileHandles [f, g] s2))"
        using assms f g by (intro use_files_inv) (auto simp: logging_inv_def handles_ok_def)
      then show ?thesis using 2 o Ok o2 ok2 by simp
    qed (use 2 o Ok o2 close_error_inv [OF o2 _ close_log_inv [OF o [unfolded Ok] assms]] in \<open>simp_all add: print_inv(3)\<close>)
  qed (use 2 o open_log_error_inv [OF o _ assms] in \<open>simp_all add: print_inv\<close>)
qed (use assms in simp_all)

section \<open>Sequences of operations\<close>

datatype log_op =
    OpSetLogFile "string list"
  | OpToStdoutStderr
  | OpAllToStderr
  | OpUseSyslog "error option" "error option"
  | OpPrint string
  | OpErrPrint string

fun log_step :: "log_op \<Rightarrow> logging \<Rightarrow> unit outcome \<times> logging" where
  "log_step (OpSetLogFile paths) s = SetLogFiles paths s"
| "log_step OpToStdoutStderr s = (Ok (), LogToStdoutStderr_all s)"
| "log_step OpAllToStderr s = (Ok (), LogAllToStderr s)"
| "log_step (OpUseSyslog e1 e2) s = UseSyslog e1 e2 s"
| "log_step (OpPrint msg) s = (Ok (), Logger_print msg s)"
| "log_step (OpErrPrint msg) s = (Ok (), ErrLogger_print msg s)"

lemma log_step_inv: "logging_inv s \<Longrightarrow> logging_inv (snd (log_step op s))"
  by (cases op) (auto simp: SetLogFiles_inv print_inv LogToStdoutStderr_all_def LogAllToStderr_def UseSyslog_def targets_ok_def
      intro: targets_inv split: option.splits)

lemma logging_init_inv: "logging_inv (logging_init os)"
  by (simp add: logging_inv_def logging_init_def handles_ok_def targets_ok_def)

text \<open>
  Logging, after any sequence of changes of the loggers and of messages, with any failures: the open
  files are exactly those of the saved handles, so none is leaked, and a message reaches every target
  of its logger, so none is written to a closed file.
\<close>

theorem logging_complete:
  defines "after \<equiv> \<lambda>ops os. fold (\<lambda>op s. snd (log_step op s)) ops (logging_init os)"
  shows "lg_open (after ops os) = set (gLogFileHandles (after ops os)) \<and>
    lg_written (Logger_print msg (after ops os)) =
      rev (map (\<lambda>t. (t, log_line msg)) (lg_Logger (after ops os))) @ lg_written (after ops os) \<and>
    lg_written (ErrLogger_print msg (after ops os)) =
      rev (map (\<lambda>t. (t, log_line msg)) (lg_ErrLogger (after ops os))) @ lg_written (after ops os)"
proof -
  have "logging_inv (after ops os)" unfolding after_def
    using logging_init_inv by (induction ops rule: rev_induct) (simp_all add: log_step_inv)
  then have "lg_open (after ops os) = set (gLogFileHandles (after ops os))"
    "targets_ok (lg_Logger (after ops os)) (lg_open (after ops os))"
    "targets_ok (lg_ErrLogger (after ops os)) (lg_open (after ops os))"
    unfolding logging_inv_def handles_ok_def by blast+
  then show ?thesis
    unfolding Logger_print_def ErrLogger_print_def by (intro conjI write_targets_all)
qed

text \<open>What \<open>set_loggers\<close> of the job manager abstracts from: its choice of a file leaves these loggers.\<close>

lemma set_loggers_targets:
  assumes "lg_os s = w_os (jm_world m)" "LogPath (jf_Prefs jf) \<noteq> []"
  defines "s1 \<equiv> snd (SetLogFiles [LogPath (jf_Prefs jf)] s)" and "m1 \<equiv> set_loggers jf m"
  shows "lg_os s1 = w_os (jm_world m1)"
    "is_Ok (fst (os_OpenAppend (LogPath (jf_Prefs jf)) (lg_os s))) \<Longrightarrow>
       jm_logFile m1 = Some (LogPath (jf_Prefs jf)) \<and>
       (\<exists>f. lg_opened s1 ! f = LogPath (jf_Prefs jf) \<and> lg_Logger s1 = [ToStdout, ToFile f] \<and> lg_ErrLogger s1 = [ToStderr, ToFile f])"
    "\<not> is_Ok (fst (os_OpenAppend (LogPath (jf_Prefs jf)) (lg_os s))) \<Longrightarrow>
       jm_logFile m1 = jm_logFile m \<and> lg_Logger s1 = lg_Logger s \<and> lg_ErrLogger s1 = lg_ErrLogger s"
  using assms(1,2)
  by (auto simp: s1_def m1_def set_loggers_def SetLogFile_def open_log_def use_files_def saveLogFileHandles_def open_failed_def
      ErrLogger_print_def write_targets_frame log_err_def split: prod.splits outcome.splits)

end
