(* ===== verification/Test_Run.thy ===== *)
theory Test_Run
  imports Job_Manager
begin

text \<open>
  A test run (\<open>jobberrunner/testjob\<close>) in every interleaving of its goroutines: the one that serves
  the socket (\<open>serve\<close>), the one that accepts a connection (\<open>makeConnChan\<close>), the one that watches the
  connection (\<open>callWhenConnClosed\<close>), the one that runs the job (\<open>runThread\<close>), and the client at the
  other end. The channels have no buffers, so a send and its receive are one step. Of what the
  server writes to the connection, the state keeps the outcome, not the output of the job before it.

  The contexts are numbered as \<open>context.WithCancel\<close> makes them, in \<open>NewJobManager\<close> and then in
  \<open>runMainThread\<close>; \<open>JobManager.Cancel\<close> cancels the one that the manager holds.
\<close>

section \<open>State\<close>

text \<open>
  Where \<open>serve\<close> is: the last four are its deferred calls, first the one that closes the connection
  and cancels the contexts, then \<open>waitGroup.Done\<close>, the listener's \<open>Close\<close>, and \<open>RemoveAll\<close>.
\<close>

datatype serve_at = AwaitConn | AwaitResult | Leaving | Signalled | ListenerClosed | ServeReturned

datatype acceptor_at = Accepting | Offering | AcceptorDone

datatype subproc = NotStarted | RunningProc | KilledProc | ExitedProc bool

datatype thread_at = ThreadNone | AwaitExit | Reporting SubprocFate | ThreadDone

record test_run =
  tr_serve :: serve_at
  tr_acceptor :: acceptor_at
  tr_dialled :: bool
  tr_clientOpen :: bool
  tr_serverOpen :: bool
  tr_taken :: bool
  tr_timeout :: bool
  tr_watching :: bool
  tr_subCtx :: bool
  tr_proc :: subproc
  tr_thread :: thread_at
  tr_sent :: "string list"
  tr_waitDone :: bool
  tr_listening :: bool
  tr_dir :: bool
  tr_serverCtx :: nat
  tr_mainCtx :: nat
  tr_cancelled :: "nat set"

definition fate_msg :: "SubprocFate \<Rightarrow> string" where
  "fate_msg fate =
     (case fate of
        SubprocFateSucceeded \<Rightarrow> ''Job succeeded'' | SubprocFateFailed \<Rightarrow> ''Job failed'' | SubprocFateCancelled \<Rightarrow> ''Job was cancelled'') @
     [CHR 0x0A]"

text \<open>The contexts of the job manager and of its server of test runs; \<open>made\<close> is how many there are.\<close>

record manager_ctxs =
  mainThreadCtx :: nat
  testJobServerCtx :: nat
  made :: nat

definition NewJobManager_ctxs :: manager_ctxs where
  "NewJobManager_ctxs = (let ctx = 0 in \<lparr>mainThreadCtx = ctx, testJobServerCtx = ctx, made = 1\<rparr>)"

definition runMainThread_ctxs :: "manager_ctxs \<Rightarrow> manager_ctxs" where
  "runMainThread_ctxs self = self\<lparr>mainThreadCtx := made self, made := made self + 1\<rparr>"

definition launched_ctxs :: manager_ctxs where
  "launched_ctxs = runMainThread_ctxs NewJobManager_ctxs"

lemma launched_ctxs [simp]: "mainThreadCtx launched_ctxs = 1" "testJobServerCtx launched_ctxs = 0"
  by (simp_all add: launched_ctxs_def runMainThread_ctxs_def NewJobManager_ctxs_def)

text \<open>After \<open>Launch\<close>: the socket is there, and \<open>serve\<close> and the accepting goroutine run.\<close>

definition test_init :: test_run where
  "test_init = \<lparr>tr_serve = AwaitConn, tr_acceptor = Accepting, tr_dialled = False, tr_clientOpen = False, tr_serverOpen = False,
     tr_taken = False, tr_timeout = False, tr_watching = False, tr_subCtx = False, tr_proc = NotStarted, tr_thread = ThreadNone,
     tr_sent = [], tr_waitDone = False, tr_listening = True, tr_dir = True,
     tr_serverCtx = testJobServerCtx launched_ctxs, tr_mainCtx = mainThreadCtx launched_ctxs, tr_cancelled = {}\<rparr>"

definition ctx_cancelled :: "test_run \<Rightarrow> bool" where
  "ctx_cancelled s \<longleftrightarrow> tr_serverCtx s \<in> tr_cancelled s"

section \<open>Steps\<close>

inductive test_step :: "test_run \<Rightarrow> test_run \<Rightarrow> bool" where
  dial: "tr_listening s \<Longrightarrow> \<not> tr_dialled s \<Longrightarrow> test_step s (s\<lparr>tr_dialled := True, tr_clientOpen := True\<rparr>)"
| hang_up: "tr_clientOpen s \<Longrightarrow> test_step s (s\<lparr>tr_clientOpen := False\<rparr>)"
| accept: "tr_acceptor s = Accepting \<Longrightarrow> tr_listening s \<Longrightarrow> tr_dialled s \<Longrightarrow>
    test_step s (s\<lparr>tr_acceptor := Offering, tr_serverOpen := True\<rparr>)"
| accept_error: "tr_acceptor s = Accepting \<Longrightarrow> test_step s (s\<lparr>tr_acceptor := AcceptorDone\<rparr>)"
| take_conn: "tr_serve s = AwaitConn \<Longrightarrow> tr_acceptor s = Offering \<Longrightarrow>
    test_step s (s\<lparr>tr_serve := AwaitResult, tr_acceptor := AcceptorDone, tr_taken := True, tr_watching := True,
      tr_proc := RunningProc, tr_thread := AwaitExit\<rparr>)"
| start_fails: "tr_serve s = AwaitConn \<Longrightarrow> tr_acceptor s = Offering \<Longrightarrow>
    test_step s (s\<lparr>tr_serve := Leaving, tr_acceptor := AcceptorDone, tr_taken := True, tr_watching := True,
      tr_sent := [''Failed to launch thread: '' @ Error_Error e @ [CHR 0x0A]]\<rparr>)"
| chan_closed: "tr_serve s = AwaitConn \<Longrightarrow> tr_acceptor s = AcceptorDone \<Longrightarrow> test_step s (s\<lparr>tr_serve := Leaving\<rparr>)"
| timer: "test_step s (s\<lparr>tr_timeout := True\<rparr>)"
| give_up: "tr_serve s = AwaitConn \<Longrightarrow> tr_timeout s \<or> ctx_cancelled s \<Longrightarrow> test_step s (s\<lparr>tr_serve := Leaving\<rparr>)"
| conn_read_error: "tr_watching s \<Longrightarrow> \<not> tr_clientOpen s \<or> \<not> tr_serverOpen s \<Longrightarrow>
    test_step s (s\<lparr>tr_watching := False, tr_subCtx := True\<rparr>)"
| parent_cancelled: "ctx_cancelled s \<Longrightarrow> tr_taken s \<Longrightarrow> test_step s (s\<lparr>tr_subCtx := True\<rparr>)"
| kill: "tr_proc s = RunningProc \<Longrightarrow> tr_subCtx s \<Longrightarrow> test_step s (s\<lparr>tr_proc := KilledProc\<rparr>)"
| exit: "tr_proc s = RunningProc \<Longrightarrow> test_step s (s\<lparr>tr_proc := ExitedProc ok\<rparr>)"
| reap: "tr_thread s = AwaitExit \<Longrightarrow> tr_proc s \<noteq> RunningProc \<Longrightarrow>
    test_step s (s\<lparr>tr_thread := Reporting (test_fate (tr_proc s = ExitedProc True) (tr_subCtx s))\<rparr>)"
| result: "tr_serve s = AwaitResult \<Longrightarrow> tr_thread s = Reporting fate \<Longrightarrow>
    test_step s (s\<lparr>tr_serve := Leaving, tr_thread := ThreadDone, tr_sent := [fate_msg fate]\<rparr>)"
| leave: "tr_serve s = Leaving \<Longrightarrow>
    test_step s (s\<lparr>tr_serve := Signalled, tr_waitDone := True, tr_subCtx := tr_subCtx s \<or> tr_taken s,
      tr_serverOpen := tr_serverOpen s \<and> \<not> tr_taken s\<rparr>)"
| close_listener: "tr_serve s = Signalled \<Longrightarrow> test_step s (s\<lparr>tr_serve := ListenerClosed, tr_listening := False\<rparr>)"
| remove_dir: "tr_serve s = ListenerClosed \<Longrightarrow> test_step s (s\<lparr>tr_serve := ServeReturned, tr_dir := False\<rparr>)"
| cancel_manager: "test_step s (s\<lparr>tr_cancelled := insert (tr_mainCtx s) (tr_cancelled s)\<rparr>)"

inductive test_reaches :: "test_run \<Rightarrow> bool" where
  init: "test_reaches test_init"
| step: "test_reaches s \<Longrightarrow> test_step s s' \<Longrightarrow> test_reaches s'"

section \<open>What holds in every state\<close>

definition outcome_msgs :: "string set" where
  "outcome_msgs = range fate_msg \<union> {''Failed to launch thread: '' @ Error_Error e @ [CHR 0x0A] | e. True}"

definition serve_inv :: "test_run \<Rightarrow> bool" where
  "serve_inv s \<longleftrightarrow>
     (tr_waitDone s \<longleftrightarrow> tr_serve s \<in> {Signalled, ListenerClosed, ServeReturned}) \<and>
     (tr_listening s \<longleftrightarrow> tr_serve s \<notin> {ListenerClosed, ServeReturned}) \<and>
     (tr_dir s \<longleftrightarrow> tr_serve s \<noteq> ServeReturned)"

definition ctx_inv :: "test_run \<Rightarrow> bool" where
  "ctx_inv s \<longleftrightarrow> tr_serverCtx s = 0 \<and> tr_mainCtx s = 1 \<and> tr_cancelled s \<subseteq> {1}"

definition untaken_inv :: "test_run \<Rightarrow> bool" where
  "untaken_inv s \<longleftrightarrow>
     (tr_serve s = AwaitConn \<longrightarrow> \<not> tr_taken s) \<and>
     (tr_serve s = AwaitResult \<longrightarrow> tr_taken s) \<and>
     (\<not> tr_taken s \<longrightarrow> tr_sent s = [] \<and> tr_thread s = ThreadNone \<and> tr_proc s = NotStarted)"

definition result_inv :: "test_run \<Rightarrow> bool" where
  "result_inv s \<longleftrightarrow>
     (tr_proc s = RunningProc \<longrightarrow> tr_thread s = AwaitExit) \<and>
     (tr_thread s \<noteq> ThreadNone \<and> tr_thread s \<noteq> ThreadDone \<longrightarrow> tr_serve s = AwaitResult)"

definition sent_inv :: "test_run \<Rightarrow> bool" where
  "sent_inv s \<longleftrightarrow> (tr_taken s \<and> tr_serve s \<noteq> AwaitResult \<longrightarrow> (\<exists>msg. msg \<in> outcome_msgs \<and> tr_sent s = [msg]))"

definition conn_inv :: "test_run \<Rightarrow> bool" where
  "conn_inv s \<longleftrightarrow> (tr_taken s \<longrightarrow> tr_acceptor s = AcceptorDone) \<and> (tr_waitDone s \<and> tr_taken s \<longrightarrow> \<not> tr_serverOpen s)"

definition test_inv :: "test_run \<Rightarrow> bool" where
  "test_inv s \<longleftrightarrow> serve_inv s \<and> ctx_inv s \<and> untaken_inv s \<and> result_inv s \<and> sent_inv s \<and> conn_inv s"

lemma outcome_msgs_intros [simp, intro]:
  "fate_msg fate \<in> outcome_msgs"
  "''Failed to launch thread: '' @ Error_Error e @ [CHR 0x0A] \<in> outcome_msgs"
  unfolding outcome_msgs_def by blast+

lemma serve_inv_step: "test_step s s' \<Longrightarrow> serve_inv s \<Longrightarrow> serve_inv s'"
  by (erule test_step.cases; simp add: serve_inv_def)

lemma ctx_inv_step: "test_step s s' \<Longrightarrow> ctx_inv s \<Longrightarrow> ctx_inv s'"
  by (erule test_step.cases; simp add: ctx_inv_def)

lemma untaken_inv_step: "test_step s s' \<Longrightarrow> untaken_inv s \<Longrightarrow> untaken_inv s'"
  by (erule test_step.cases; auto simp: untaken_inv_def)

lemma result_inv_step: "test_step s s' \<Longrightarrow> untaken_inv s \<Longrightarrow> result_inv s \<Longrightarrow> result_inv s'"
  by (induction rule: test_step.induct) (simp_all add: result_inv_def)

lemma sent_inv_step: "test_step s s' \<Longrightarrow> untaken_inv s \<Longrightarrow> sent_inv s \<Longrightarrow> sent_inv s'"
  by (erule test_step.cases; simp add: untaken_inv_def sent_inv_def del: append.simps)

lemma conn_inv_step: "test_step s s' \<Longrightarrow> serve_inv s \<Longrightarrow> untaken_inv s \<Longrightarrow> conn_inv s \<Longrightarrow> conn_inv s'"
  by (erule test_step.cases; simp add: serve_inv_def untaken_inv_def conn_inv_def)

lemma test_step_inv: "test_step s s' \<Longrightarrow> test_inv s \<Longrightarrow> test_inv s'"
  unfolding test_inv_def
  by (blast intro: serve_inv_step ctx_inv_step untaken_inv_step result_inv_step sent_inv_step conn_inv_step)

lemma test_init_inv: "test_inv test_init"
  by (simp add: test_inv_def serve_inv_def ctx_inv_def untaken_inv_def result_inv_def sent_inv_def conn_inv_def test_init_def)

lemma test_reaches_inv: "test_reaches s \<Longrightarrow> test_inv s"
  by (induction rule: test_reaches.induct) (simp add: test_init_inv, rule test_step_inv)

text \<open>
  C34. A test run, in every interleaving: when the manager's wait for it is over, the job's process
  does not run, and a client whose connection was taken has been sent exactly one outcome and its
  connection is closed; when \<open>serve\<close> has returned, the socket and its directory are gone. But the
  context that the run watches is never the one that the manager cancels: cancelling the manager
  does not end a test run.
\<close>

theorem test_run_spec:
  assumes "test_reaches s"
  shows "\<not> ctx_cancelled s \<and>
    (if tr_waitDone s then tr_proc s \<noteq> RunningProc \<and>
       (if tr_taken s then (\<exists>msg \<in> outcome_msgs. tr_sent s = [msg]) \<and> \<not> tr_serverOpen s else tr_sent s = [])
     else tr_listening s \<and> tr_dir s) \<and>
    (tr_serve s = ServeReturned \<longleftrightarrow> \<not> tr_dir s) \<and> (tr_dir s \<or> \<not> tr_listening s)"
  proof -
  have inv: "serve_inv s" "ctx_inv s" "untaken_inv s" "result_inv s" "sent_inv s" "conn_inv s"
    using test_reaches_inv [OF assms] by (simp_all add: test_inv_def)
  have ctx: "\<not> ctx_cancelled s"
    using inv(2) by (auto simp: ctx_inv_def ctx_cancelled_def)
  have dir: "tr_serve s = ServeReturned \<longleftrightarrow> \<not> tr_dir s" "tr_dir s \<or> \<not> tr_listening s" "\<not> tr_waitDone s \<Longrightarrow> tr_listening s \<and> tr_dir s"
    using inv(1) by (auto simp: serve_inv_def)
  have wait: "tr_serve s \<noteq> AwaitResult" if "tr_waitDone s"
    using inv(1) that by (auto simp: serve_inv_def)
  then have proc: "tr_proc s \<noteq> RunningProc" if "tr_waitDone s"
    using inv(4) that by (auto simp: result_inv_def)
  have taken: "(\<exists>msg. msg \<in> outcome_msgs \<and> tr_sent s = [msg]) \<and> \<not> tr_serverOpen s" if "tr_waitDone s" "tr_taken s"
    using inv(5,6) wait that by (simp add: sent_inv_def conn_inv_def)
  have untaken: "tr_sent s = []" if "\<not> tr_taken s"
    using inv(3) that by (simp add: untaken_inv_def)
  show ?thesis
    using ctx dir proc taken untaken by (simp add: Bex_def)
qed

text \<open>Connecting, and the time-out while the accepted connection is offered.\<close>

abbreviation hung :: "bool \<Rightarrow> nat set \<Rightarrow> test_run" where
  "hung clientOpen cancelled \<equiv> test_init\<lparr>tr_serve := ServeReturned, tr_acceptor := Offering, tr_dialled := True, tr_clientOpen := clientOpen,
     tr_serverOpen := True, tr_timeout := True, tr_waitDone := True, tr_listening := False, tr_dir := False, tr_cancelled := cancelled\<rparr>"

lemma hung_reached: "test_reaches (hung True {})"
proof -
  have "test_reaches (test_init\<lparr>tr_dialled := True, tr_clientOpen := True\<rparr>)"
    by (rule step [OF init dial]) (simp_all add: test_init_def)
  then have "test_reaches (test_init\<lparr>tr_acceptor := Offering, tr_dialled := True, tr_clientOpen := True, tr_serverOpen := True\<rparr>)"
    by (rule step) (use accept [of "test_init\<lparr>tr_dialled := True, tr_clientOpen := True\<rparr>"] in \<open>simp add: test_init_def\<close>)
  then have 1: "test_reaches (test_init\<lparr>tr_acceptor := Offering, tr_dialled := True, tr_clientOpen := True, tr_serverOpen := True, tr_timeout := True\<rparr>)"
    by (rule step) (use timer [of "test_init\<lparr>tr_acceptor := Offering, tr_dialled := True, tr_clientOpen := True, tr_serverOpen := True\<rparr>"] in \<open>simp add: test_init_def\<close>)
  let ?s = "\<lambda>sv wd ls. test_init\<lparr>tr_serve := sv, tr_acceptor := Offering, tr_dialled := True, tr_clientOpen := True, tr_serverOpen := True,
      tr_timeout := True, tr_waitDone := wd, tr_listening := ls\<rparr>"
  have "test_reaches (?s Leaving False True)"
    using 1 by (rule step) (use give_up [of "?s AwaitConn False True"] in \<open>simp add: test_init_def\<close>)
  then have "test_reaches (?s Signalled True True)"
    by (rule step) (use leave [of "?s Leaving False True"] in \<open>simp add: test_init_def\<close>)
  then have "test_reaches (?s ListenerClosed True False)"
    by (rule step) (use close_listener [of "?s Signalled True True"] in \<open>simp add: test_init_def\<close>)
  then show ?thesis
    by (rule step) (use remove_dir [of "?s ListenerClosed True False"] in \<open>simp add: test_init_def\<close>)
qed

theorem test_run_spec_witness:
  "test_reaches (hung True {}) \<and> tr_proc (hung True {}) \<noteq> RunningProc \<and> tr_sent (hung True {}) = []"
proof -
  have "tr_waitDone (hung True {})" "\<not> tr_taken (hung True {})" by (simp_all add: test_init_def)
  then show ?thesis using test_run_spec [OF hung_reached] hung_reached by (simp only: if_True if_False) simp
qed

text \<open>The states after the server has returned with an offered connection.\<close>

definition stuck :: "test_run \<Rightarrow> bool" where
  "stuck s \<longleftrightarrow> tr_serve s = ServeReturned \<and> tr_acceptor s = Offering \<and> tr_serverOpen s \<and> tr_sent s = [] \<and> \<not> tr_listening s \<and>
     tr_dialled s \<and> tr_thread s = ThreadNone \<and> tr_proc s = NotStarted \<and> \<not> tr_watching s"

lemma stuck_step: "test_step s s' \<Longrightarrow> stuck s \<Longrightarrow> stuck s'"
  by (cases rule: test_step.cases) (auto simp: stuck_def)

text \<open>
  C35. A client can be left waiting for ever: if the wait for a connection times out just when the
  connection has been accepted, \<open>serve\<close> returns, and from then on, whatever happens, the accepting
  goroutine stays blocked, the connection stays open, and nothing is sent on it.
\<close>

theorem test_client_hangs:
  "\<exists>s. test_reaches s \<and> tr_clientOpen s \<and> tr_serve s = ServeReturned \<and>
     {s'. test_step\<^sup>*\<^sup>* s s'} \<subseteq> {s'. tr_acceptor s' = Offering \<and> tr_serverOpen s' \<and> tr_sent s' = []}"
proof -
  have "stuck s'" if "test_step\<^sup>*\<^sup>* (hung True {}) s'" for s'
    using that by (induction rule: rtranclp_induct) (auto simp: stuck_def test_init_def dest: stuck_step [unfolded stuck_def])
  then show ?thesis using hung_reached by (intro exI [of _ "hung True {}"]) (auto simp: stuck_def test_init_def)
qed

end
