(* ===== verification/Go_Match.thy ===== *)
theory Go_Match
  imports Go_Encoding
begin

text \<open>
  \<open>filepath.Match\<close> on Unix, as it is in the Go releases that the module names (before 1.16, which
  checks the rest of a pattern after a mismatch). A chunk is the part of a pattern up to the next
  star; \<open>matchChunk\<close> gives the rest of the name, nothing if the chunk does not match, or the error
  for a malformed pattern.
\<close>

definition ErrBadPattern :: error where
  "ErrBadPattern = Errno ''syntax error in pattern''"

text \<open>\<open>utf8.DecodeRuneInString\<close>: the rune and its length; a byte that begins no rune is U+FFFD.\<close>

definition DecodeRune :: "string \<Rightarrow> nat \<times> nat" where
  "DecodeRune s =
     (let b = (\<lambda>i. byte_of (s ! i)); n = utf8_len s in
      if s = [] then (0xFFFD, 0)
      else if n = 1 then (b 0, 1)
      else if n = 2 then ((b 0 mod 32) * 64 + b 1 mod 64, 2)
      else if n = 3 then ((b 0 mod 16) * 4096 + (b 1 mod 64) * 64 + b 2 mod 64, 3)
      else if n = 4 then ((b 0 mod 8) * 262144 + (b 1 mod 64) * 4096 + (b 2 mod 64) * 64 + b 3 mod 64, 4)
      else (0xFFFD, 1))"

lemma DecodeRune_pos: "s \<noteq> [] \<Longrightarrow> 0 < snd (DecodeRune s)"
  by (simp add: DecodeRune_def Let_def)

definition getEsc :: "string \<Rightarrow> (nat \<times> string) outcome" where
  "getEsc chunk =
     (if chunk = [] \<or> hd chunk = CHR ''-'' \<or> hd chunk = CHR '']'' then Fail ErrBadPattern
      else let chunk1 = (if hd chunk = backslash then tl chunk else chunk) in
        if chunk1 = [] then Fail ErrBadPattern
        else let (r, n) = DecodeRune chunk1; nchunk = drop n chunk1 in
          if (r = 0xFFFD \<and> n = 1) \<or> nchunk = [] then Fail ErrBadPattern else Ok (r, nchunk))"

lemma getEsc_shorter:
  assumes "getEsc chunk = Ok (r, c)"
  shows "length c < length chunk \<and> c \<noteq> []"
proof -
  define chunk1 where "chunk1 = (if hd chunk = backslash then tl chunk else chunk)"
  have ne: "chunk1 \<noteq> []" and c: "c = drop (snd (DecodeRune chunk1)) chunk1" "c \<noteq> []"
    using assms by (auto simp: getEsc_def chunk1_def [symmetric] Let_def split: if_splits prod.splits)
  have "length chunk1 \<le> length chunk" by (simp add: chunk1_def)
  then show ?thesis using c DecodeRune_pos [OF ne] ne by (cases chunk1) (auto simp: less_Suc_eq_le)
qed

text \<open>The ranges of a character class, up to its closing bracket: whether \<open>r\<close> is in one of them.\<close>

function class_ranges :: "nat \<Rightarrow> string \<Rightarrow> bool \<Rightarrow> nat \<Rightarrow> (bool \<times> string) outcome" where
  "class_ranges r chunk matched nrange =
     (if chunk \<noteq> [] \<and> hd chunk = CHR '']'' \<and> nrange > 0 then Ok (matched, tl chunk)
      else case getEsc chunk of
          Fail e \<Rightarrow> Fail e
        | Panic p \<Rightarrow> Panic p
        | Ok (lo, c1) \<Rightarrow>
            (case (if hd c1 = CHR ''-'' then getEsc (tl c1) else Ok (lo, c1)) of
               Fail e \<Rightarrow> Fail e
             | Panic p \<Rightarrow> Panic p
             | Ok (hi, c2) \<Rightarrow> class_ranges r c2 (matched \<or> lo \<le> r \<and> r \<le> hi) (nrange + 1)))"
  by pat_completeness auto
termination
proof (relation "measure (\<lambda>(r, chunk, matched, nrange). length chunk)", goal_cases)
  case (2 r chunk matched nrange x lo c1 y hi c2)
  then have "length c1 < length chunk" "length c2 \<le> length c1"
    using getEsc_shorter [of chunk lo c1] getEsc_shorter [of "tl c1" hi c2] by (auto split: if_splits)
  then show ?case by simp
qed simp

declare class_ranges.simps [simp del]

lemma class_ranges_shorter: "class_ranges r chunk matched nrange = Ok (m, rest) \<Longrightarrow> length rest < length chunk"
proof (induction r chunk matched nrange rule: class_ranges.induct)
  case (1 r chunk matched nrange)
  show ?case
  proof (cases "chunk \<noteq> [] \<and> hd chunk = CHR '']'' \<and> nrange > 0")
    case True
    then have "class_ranges r chunk matched nrange = Ok (matched, tl chunk)" by (simp add: class_ranges.simps [of r chunk])
    then show ?thesis using 1(2) True by (cases chunk) auto
  next
    case False
    then obtain lo c1 where lo: "getEsc chunk = Ok (lo, c1)"
      using 1(2) by (auto simp: class_ranges.simps [of r chunk] split: outcome.splits)
    then obtain hi c2 where hi: "(if hd c1 = CHR ''-'' then getEsc (tl c1) else Ok (lo, c1)) = Ok (hi, c2)"
      using 1(2) False by (auto simp: class_ranges.simps [of r chunk] split: outcome.splits)
    have "class_ranges r c2 (matched \<or> lo \<le> r \<and> r \<le> hi) (nrange + 1) = Ok (m, rest)"
      using 1(2) False lo hi by (simp add: class_ranges.simps [of r chunk])
    then have "length rest < length c2" using 1(1) [OF False lo _ hi] by simp
    moreover have "length c2 \<le> length c1"
      using hi getEsc_shorter [of "tl c1" hi c2] by (auto split: if_splits)
    ultimately show ?thesis using getEsc_shorter [OF lo] by simp
  qed
qed

text \<open>A class, after its opening bracket, against the rune \<open>r\<close>.\<close>

definition match_class :: "nat \<Rightarrow> string \<Rightarrow> (bool \<times> string) outcome" where
  "match_class r chunk =
     (if chunk = [] then Fail ErrBadPattern
      else if hd chunk = CHR 0x5E
      then (case class_ranges r (tl chunk) False 0 of
              Ok (m, rest) \<Rightarrow> Ok (\<not> m, rest) | Fail e \<Rightarrow> Fail e | Panic p \<Rightarrow> Panic p)
      else class_ranges r chunk False 0)"

lemma match_class_shorter: "match_class r chunk = Ok (m, rest) \<Longrightarrow> length rest < length chunk"
  by (auto simp: match_class_def split: if_splits outcome.splits prod.splits dest!: class_ranges_shorter)

function matchChunk :: "string \<Rightarrow> string \<Rightarrow> string option outcome" where
  "matchChunk [] s = Ok (Some s)"
| "matchChunk (c # chunk) [] = Ok None"
| "matchChunk (c # chunk) (x # s) =
     (if c = CHR ''['' then
        (let (r, n) = DecodeRune (x # s) in
         case match_class r chunk of
           Fail e \<Rightarrow> Fail e
         | Panic p \<Rightarrow> Panic p
         | Ok (matched, rest) \<Rightarrow> if matched then matchChunk rest (drop n (x # s)) else Ok None)
      else if c = CHR ''?'' then
        (if x = CHR ''/'' then Ok None else matchChunk chunk (drop (snd (DecodeRune (x # s))) (x # s)))
      else if c = backslash then
        (if chunk = [] then Fail ErrBadPattern
         else if hd chunk = x then matchChunk (tl chunk) s else Ok None)
      else if c = x then matchChunk chunk s else Ok None)"
  by pat_completeness auto
termination
  by (relation "measure (\<lambda>(chunk, s). length chunk)") (auto dest: match_class_shorter)

text \<open>\<open>scanChunk\<close>: the length of the chunk, up to the next star that is in no class.\<close>

fun chunk_len :: "bool \<Rightarrow> string \<Rightarrow> nat" where
  "chunk_len inrange [] = 0"
| "chunk_len inrange (c # p) =
     (if c = backslash then (case p of [] \<Rightarrow> 1 | d # p1 \<Rightarrow> 2 + chunk_len inrange p1)
      else if c = CHR ''['' then 1 + chunk_len True p
      else if c = CHR '']'' then 1 + chunk_len False p
      else if c = CHR ''*'' \<and> \<not> inrange then 0
      else 1 + chunk_len inrange p)"

definition scanChunk :: "string \<Rightarrow> bool \<times> string \<times> string" where
  "scanChunk pat =
     (let p = dropWhile (\<lambda>c. c = CHR ''*'') pat; n = chunk_len False p in (p \<noteq> pat, take n p, drop n p))"

text \<open>
  The search for a chunk after a star: it skips one character after the other, but no slash.
  \<open>lastChunk\<close>: the chunk is the last one and has to reach the end of the name.
\<close>

fun star_loop :: "bool \<Rightarrow> string \<Rightarrow> string \<Rightarrow> string option outcome" where
  "star_loop lastChunk chunk [] = Ok None"
| "star_loop lastChunk chunk (c # s) =
     (if c = CHR ''/'' then Ok None
      else case matchChunk chunk s of
          Fail e \<Rightarrow> Fail e
        | Panic p \<Rightarrow> Panic p
        | Ok None \<Rightarrow> star_loop lastChunk chunk s
        | Ok (Some t) \<Rightarrow> if lastChunk \<and> t \<noteq> [] then star_loop lastChunk chunk s else Ok (Some t))"

lemma chunk_len_pos: "p \<noteq> [] \<Longrightarrow> hd p \<noteq> CHR ''*'' \<Longrightarrow> 0 < chunk_len False p"
  by (cases p) (auto split: list.splits)

lemma scanChunk_shorter:
  assumes "scanChunk pat = (star, chunk, rest)" "pat \<noteq> []"
  shows "length rest < length pat"
proof -
  define p where "p = dropWhile (\<lambda>c. c = CHR ''*'') pat"
  have rest: "rest = drop (chunk_len False p) p" using assms(1) by (simp add: scanChunk_def p_def Let_def)
  have le: "length p \<le> length pat" by (simp add: p_def length_dropWhile_le)
  show ?thesis
  proof (cases "p = []")
    case True
    then show ?thesis using rest assms(2) by simp
  next
    case False
    then have "hd p \<noteq> CHR ''*''" using hd_dropWhile [of "\<lambda>c. c = CHR ''*''" pat] by (simp add: p_def)
    then show ?thesis using chunk_len_pos [OF False] False rest le by (cases p) auto
  qed
qed

function Match :: "string \<Rightarrow> string \<Rightarrow> bool outcome" where
  "Match pat name =
     (if pat = [] then Ok (name = [])
      else case scanChunk pat of (star, chunk, rest) \<Rightarrow>
        if star \<and> chunk = [] then Ok (CHR ''/'' \<notin> set name)
        else (case matchChunk chunk name of
            Fail e \<Rightarrow> Fail e
          | Panic p \<Rightarrow> Panic p
          | Ok r \<Rightarrow>
              (case r of
                 Some t \<Rightarrow> if t = [] \<or> rest \<noteq> [] then Match rest t
                   else if star then
                     (case star_loop (rest = []) chunk name of
                        Fail e \<Rightarrow> Fail e | Panic p \<Rightarrow> Panic p
                      | Ok None \<Rightarrow> Ok False | Ok (Some t1) \<Rightarrow> Match rest t1)
                   else Ok False
               | None \<Rightarrow>
                   if star then
                     (case star_loop (rest = []) chunk name of
                        Fail e \<Rightarrow> Fail e | Panic p \<Rightarrow> Panic p
                      | Ok None \<Rightarrow> Ok False | Ok (Some t1) \<Rightarrow> Match rest t1)
                   else Ok False)))"
  by pat_completeness auto
termination
  by (relation "measure (\<lambda>(pat, name). length pat)") (auto dest: scanChunk_shorter [OF sym])

declare Match.simps [simp del]

end
