(* ===== verification/Settings.thy ===== *)
theory Settings
  imports Run_Record Go_Match
begin

text \<open>
  The settings of the installation (\<open>common/settings.go\<close>): the four directories with where their
  values come from, the preferences file, and which users jobs are run for.

  The package's variables are the record \<open>globals\<close>. The compile-time values and \<open>os.TempDir\<close> are
  arguments. Decoding YAML is an argument: the preferences that a text decodes to.
\<close>

section \<open>Settings\<close>

record setting =
  set_origin :: string
  set_value :: "string option"
  set_def :: string

definition setting_clear :: "setting \<Rightarrow> setting" where
  "setting_clear self = self\<lparr>set_origin := ''default''\<rparr>"

definition newSetting :: "string \<Rightarrow> setting" where
  "newSetting def = setting_clear \<lparr>set_origin = [], set_value = None, set_def = def\<rparr>"

definition setting_get :: "setting \<Rightarrow> string \<times> string" where
  "setting_get self = (case set_value self of None \<Rightarrow> (set_def self, set_origin self) | Some v \<Rightarrow> (v, set_origin self))"

definition setting_set :: "string \<Rightarrow> string \<Rightarrow> setting \<Rightarrow> setting" where
  "setting_set val origin self = self\<lparr>set_origin := origin, set_value := Some val\<rparr>"

definition setting_String :: "setting \<Rightarrow> string" where
  "setting_String self = (case setting_get self of (v, o1) \<Rightarrow> v @ '' ('' @ o1 @ '')'')"

record UserSpec =
  us_Username :: string
  us_Home :: string

record prefs =
  VarDir :: "string option"
  LibexecDir :: "string option"
  TempDir :: "string option"
  UsersInclude :: "UserSpec list"
  UsersExclude :: "UserSpec list"

definition no_prefs :: prefs where
  "no_prefs = \<lparr>VarDir = None, LibexecDir = None, TempDir = None, UsersInclude = [], UsersExclude = []\<rparr>"

record globals =
  gVarDir :: setting
  gLibexecDir :: setting
  gTempDir :: setting
  gEtcDir :: setting
  gPrfs :: prefs

definition init_globals :: "string \<Rightarrow> string \<Rightarrow> globals" where
  "init_globals tempDir etcDirPath =
     \<lparr>gVarDir = newSetting ''/var'', gLibexecDir = newSetting ''/usr/libexec'', gTempDir = newSetting tempDir,
      gEtcDir = newSetting etcDirPath, gPrfs = no_prefs\<rparr>"

record InitSettingsParams =
  p_VarDir :: "string option"
  p_LibexecDir :: "string option"
  p_TempDir :: "string option"
  p_EtcDir :: "string option"

section \<open>Paths\<close>

definition VarDirPath :: "globals \<Rightarrow> string" where
  "VarDirPath g = filepath_Join [fst (setting_get (gVarDir g)), ''jobber'']"

definition LibexecDirPath :: "globals \<Rightarrow> string" where
  "LibexecDirPath g = fst (setting_get (gLibexecDir g))"

definition EtcDirPath :: "globals \<Rightarrow> string" where
  "EtcDirPath g = fst (setting_get (gEtcDir g))"

definition TempDirPath :: "globals \<Rightarrow> string" where
  "TempDirPath g = fst (setting_get (gTempDir g))"

definition PerUserDirPath :: "globals \<Rightarrow> user \<Rightarrow> string" where
  "PerUserDirPath g usr = filepath_Join [VarDirPath g, Uid usr]"

definition CmdSocketPath :: "globals \<Rightarrow> user \<Rightarrow> string" where
  "CmdSocketPath g usr = filepath_Join [PerUserDirPath g usr, ''cmd.sock'']"

definition LibexecProgramPath :: "globals \<Rightarrow> string \<Rightarrow> string" where
  "LibexecProgramPath g name = filepath_Join [LibexecDirPath g, name]"

text \<open>
  The directory's entries are names, with whether each is a directory; \<open>lookupId\<close> is the user
  database.
\<close>

definition AllUsersWithSockets ::
    "(string \<Rightarrow> user outcome) \<Rightarrow> (string \<Rightarrow> (string \<times> bool) list outcome) \<Rightarrow> globals \<Rightarrow> user list outcome" where
  "AllUsersWithSockets lookupId readDir g =
     bind_outcome (readDir (VarDirPath g)) (\<lambda>entries.
       Ok (List.map_filter (\<lambda>(name, isDir).
         if isDir then (case lookupId name of Ok usr \<Rightarrow> Some usr | _ \<Rightarrow> None) else None) entries))"

definition PrintPaths :: "globals \<Rightarrow> string" where
  "PrintPaths g = concat (map (\<lambda>(name, s). name @ '': '' @ setting_String s @ [CHR 0x0A])
     [(''var'', gVarDir g), (''libexec'', gLibexecDir g), (''etc'', gEtcDir g), (''temp'', gTempDir g)])"

section \<open>The preferences file\<close>

definition gDefaultPrefsStr :: string where
  "gDefaultPrefsStr = concat (map (\<lambda>l. l @ [CHR 0x0A])
     [''## Here, you can control which users can use Jobber to run jobs.  You'',
      ''## can either specify which users should be able to use Jobber, or'',
      ''## which users should NOT be able to use Jobber --- not both.'',
      ''##'',
      ''## NOTE: Users without home directories, or who do not own their home'',
      ''## directories, will not be able to use Jobber, no matter what you'',
      ''## specify in this file.'',
      [],
      ''## EXAMPLE: With the following, the only users that can use jobber are'',
      ''## (1) root and (2) all users whose home directories are in'',
      ''## /home/svcusers.'',
      ''#users-include:'',
      ''#    - username: root'',
      ''#    - home: /home/svcusers/*'',
      [],
      ''## EXAMPLE: With the following, the users postfix and mysql and all'',
      ''## users whose usernames end with '' @ [CHR 0x22] @ ''nobody'' @ [CHR 0x22] @ '' cannot use Jobber.  (In the'',
      ''## last rule, '' @ [CHR 0x22] @ ''*nobody'' @ [CHR 0x22] @ '' is quoted because '' @ [CHR 0x22] @ ''*'' @ [CHR 0x22] @ '' has a special meaning in'',
      ''## YAML when unquoted.)'',
      ''#users-exclude:'',
      ''#    - username: postfix'',
      ''#    - username: mysql'',
      ''#    - username: '' @ [CHR 0x27] @ ''*nobody'' @ [CHR 0x27]])"

definition MakeDefaultPrefs :: "InitSettingsParams \<Rightarrow> string" where
  "MakeDefaultPrefs params =
     (let line = (\<lambda>key v. case v of None \<Rightarrow> [] | Some p \<Rightarrow> [key @ '': '' @ p]);
          paths = line ''var-dir'' (p_VarDir params) @ line ''libexec-dir'' (p_LibexecDir params) @
                  line ''temp-dir'' (p_TempDir params)
      in Join paths [CHR 0x0A] @ [CHR 0x0A, CHR 0x0A] @ gDefaultPrefsStr)"

definition spec_patterns :: "UserSpec list \<Rightarrow> string list" where
  "spec_patterns specs = concat (map (\<lambda>spec.
     (if length (us_Username spec) > 0 then [us_Username spec] else []) @
     (if length (us_Home spec) > 0 then [us_Home spec] else [])) specs)"

text \<open>The first error of matching a pattern against a fixed word.\<close>

fun check_patterns :: "string list \<Rightarrow> unit outcome" where
  "check_patterns [] = Ok ()"
| "check_patterns (p # ps) =
     (case Match p ''something'' of Ok _ \<Rightarrow> check_patterns ps | Fail e \<Rightarrow> Fail e | Panic x \<Rightarrow> Panic x)"

text \<open>\<open>_loadPrefs\<close>, for the file's contents.\<close>

definition parsePrefs :: "(string \<Rightarrow> prefs outcome) \<Rightarrow> string \<Rightarrow> prefs outcome" where
  "parsePrefs yaml bytes =
     (let starter = gYamlStarter @ [CHR 0x0A];
          contents = (if HasPrefix bytes starter then bytes else starter @ bytes)
      in bind_outcome (yaml contents) (\<lambda>prfs.
        if length (UsersInclude prfs) > 0 \<and> length (UsersExclude prfs) > 0
        then Fail (Error (''Cannot use both '' @ quoted ''users-include'' @ '' and '' @ quoted ''users-include'' @ '' in prefs.'') None)
        else bind_outcome (check_patterns (spec_patterns (UsersInclude prfs @ UsersExclude prfs))) (\<lambda>_. Ok prfs)))"

definition gPrefsFileName :: string where
  "gPrefsFileName = ''jobber.conf''"

definition loadPrefs :: "(string \<Rightarrow> prefs outcome) \<Rightarrow> globals \<Rightarrow> world \<Rightarrow> prefs outcome \<times> world" where
  "loadPrefs yaml g w =
     (let p = filepath_Join [EtcDirPath g, gPrefsFileName] in
      case os_Open p (w_os w) of
        (Ok _, os) \<Rightarrow>
          (parsePrefs yaml (case files os p of Some c \<Rightarrow> c | None \<Rightarrow> []), w\<lparr>w_os := os\<rparr>)
      | (Fail e, os) \<Rightarrow>
          (Fail e, (if IsNotExist e then log_out ''No prefs file.  Using defaults.'' else id) (w\<lparr>w_os := os\<rparr>))
      | (Panic x, os) \<Rightarrow> (Panic x, w\<lparr>w_os := os\<rparr>))"

text \<open>One directory: the command line goes before the preferences, and these before the default.\<close>

definition update_setting :: "string option \<Rightarrow> string option \<Rightarrow> setting \<Rightarrow> setting" where
  "update_setting param pref s =
     (case param of
        Some v \<Rightarrow> setting_set v ''cmdline'' s
      | None \<Rightarrow> (case pref of Some v \<Rightarrow> setting_set v ''config'' s | None \<Rightarrow> setting_clear s))"

definition InitSettings ::
    "(string \<Rightarrow> prefs outcome) \<Rightarrow> InitSettingsParams \<Rightarrow> globals \<Rightarrow> world \<Rightarrow> unit outcome \<times> globals \<times> world" where
  "InitSettings yaml params g w =
     (let g1 = g\<lparr>gEtcDir := update_setting (p_EtcDir params) None (gEtcDir g)\<rparr> in
      case loadPrefs yaml g1 w of
        (Fail e, w1) \<Rightarrow> (Fail e, g1, w1)
      | (Panic x, w1) \<Rightarrow> (Panic x, g1, w1)
      | (Ok prfs, w1) \<Rightarrow>
          (Ok (), g1\<lparr>gPrfs := prfs, gVarDir := update_setting (p_VarDir params) (VarDir prfs) (gVarDir g1),
             gLibexecDir := update_setting (p_LibexecDir params) (LibexecDir prfs) (gLibexecDir g1),
             gTempDir := update_setting (p_TempDir params) (TempDir prfs) (gTempDir g1)\<rparr>, w1))"

section \<open>Users\<close>

definition match_or_panic :: "string \<Rightarrow> string \<Rightarrow> bool outcome" where
  "match_or_panic pat name = (case Match pat name of Fail e \<Rightarrow> Panic (Error_Error e) | r \<Rightarrow> r)"

definition spec_matches :: "UserSpec \<Rightarrow> user \<Rightarrow> bool outcome" where
  "spec_matches self usr =
     bind_outcome (if length (us_Username self) > 0 then match_or_panic (us_Username self) (Username usr) else Ok True) (\<lambda>b.
       if \<not> b then Ok False
       else if length (us_Home self) > 0 then match_or_panic (us_Home self) (HomeDir usr) else Ok True)"

fun any_spec_matches :: "UserSpec list \<Rightarrow> user \<Rightarrow> bool \<Rightarrow> bool outcome" where
  "any_spec_matches [] usr includeIfMatch = Ok (\<not> includeIfMatch)"
| "any_spec_matches (spec # specs) usr includeIfMatch =
     bind_outcome (spec_matches spec usr) (\<lambda>b. if b then Ok includeIfMatch else any_spec_matches specs usr includeIfMatch)"

definition jobberShouldRunForUser :: "prefs \<Rightarrow> user \<Rightarrow> bool outcome" where
  "jobberShouldRunForUser self usr =
     (if length (UsersInclude self) > 0 then any_spec_matches (UsersInclude self) usr True
      else if length (UsersExclude self) > 0 then any_spec_matches (UsersExclude self) usr False
      else Ok True)"

end
