(* ===== verification/Go_Flag.thy ===== *)
theory Go_Flag
  imports Go_Duration
begin

text \<open>
  The part of package flag that the client uses: a set of boolean and duration flags, read from the
  beginning of a command line. What the flags are set to is an association list, the latest first.
  An error ends the process, as the client's flag sets ask for.
\<close>

datatype flag_kind = BoolFlag | DurationFlag

datatype flag_val = FBool bool | FDur duration

type_synonym flag_vals = "(string \<times> flag_val) list"

datatype flag_result = Parsed flag_vals "string list" | FlagHelp | FlagError string

definition ParseBool :: "string \<Rightarrow> bool option" where
  "ParseBool s =
     (if s \<in> {''1'', ''t'', ''T'', ''true'', ''TRUE'', ''True''} then Some True
      else if s \<in> {''0'', ''f'', ''F'', ''false'', ''FALSE'', ''False''} then Some False
      else None)"

definition set_flag :: "flag_kind \<Rightarrow> string \<Rightarrow> flag_val option" where
  "set_flag kind v =
     (case kind of
        BoolFlag \<Rightarrow> map_option FBool (ParseBool v)
      | DurationFlag \<Rightarrow> (case ParseDuration v of Ok d \<Rightarrow> Some (FDur d) | _ \<Rightarrow> None))"

definition bad_value :: "string \<Rightarrow> string \<Rightarrow> flag_result" where
  "bad_value v name = FlagError (''invalid value '' @ [CHR 0x22] @ v @ [CHR 0x22] @ '' for flag -'' @ name)"

text \<open>An argument \<open>-name\<close>, \<open>--name\<close>, \<open>-name=value\<close>: the name, and the value if there is one.\<close>

definition flag_name :: "string \<Rightarrow> string \<times> string option" where
  "flag_name s =
     (let body = (if HasPrefix s ''--'' then drop 2 s else drop 1 s);
          name = takeWhile (\<lambda>c. c \<noteq> CHR ''='') body in
      (name, if length name < length body then Some (drop (length name + 1) body) else None))"

text \<open>\<open>FlagSet.Parse\<close>: it ends at the first argument that is no flag, and after \<open>--\<close>.\<close>

fun flag_parse :: "(string \<times> flag_kind) list \<Rightarrow> flag_vals \<Rightarrow> string list \<Rightarrow> flag_result" where
  "flag_parse defs vals [] = Parsed vals []"
| "flag_parse defs vals (s # args) =
     (if length s < 2 \<or> hd s \<noteq> CHR ''-'' then Parsed vals (s # args)
      else if s = ''--'' then Parsed vals args
      else
        case flag_name s of (name, v) \<Rightarrow>
          if name = [] \<or> hd name = CHR ''-'' then FlagError (''bad flag syntax: '' @ s)
          else
            case map_of defs name of
              None \<Rightarrow> if name = ''help'' \<or> name = ''h'' then FlagHelp else FlagError (''flag provided but not defined: -'' @ name)
            | Some kind \<Rightarrow>
                (case v of
                   Some x \<Rightarrow>
                     (case set_flag kind x of
                        None \<Rightarrow> bad_value x name | Some y \<Rightarrow> flag_parse defs ((name, y) # vals) args)
                 | None \<Rightarrow>
                     if kind = BoolFlag then flag_parse defs ((name, FBool True) # vals) args
                     else
                       (case args of
                          [] \<Rightarrow> FlagError (''flag needs an argument: -'' @ name)
                        | x # args1 \<Rightarrow>
                            (case set_flag kind x of
                               None \<Rightarrow> bad_value x name | Some y \<Rightarrow> flag_parse defs ((name, y) # vals) args1))))"

declare flag_parse.simps(2) [simp del]

definition bool_flag :: "flag_vals \<Rightarrow> string \<Rightarrow> bool" where
  "bool_flag vals name = (case map_of vals name of Some (FBool b) \<Rightarrow> b | _ \<Rightarrow> False)"

definition dur_flag :: "flag_vals \<Rightarrow> string \<Rightarrow> duration \<Rightarrow> duration" where
  "dur_flag vals name def = (case map_of vals name of Some (FDur d) \<Rightarrow> d | _ \<Rightarrow> def)"

text \<open>Arguments that are no flags are left alone.\<close>

definition positional :: "string \<Rightarrow> bool" where
  "positional s \<longleftrightarrow> length s < 2 \<or> hd s \<noteq> CHR ''-''"

lemma flag_parse_positional: "args = [] \<or> positional (hd args) \<Longrightarrow> flag_parse defs vals args = Parsed vals args"
  by (cases args) (auto simp: flag_parse.simps(2) positional_def)

text \<open>A boolean flag, and a duration flag whose value is written as \<open>Duration.String\<close> writes it.\<close>

lemma flag_name_short: "c \<noteq> CHR ''-'' \<Longrightarrow> c \<noteq> CHR ''='' \<Longrightarrow> flag_name [CHR ''-'', c] = ([c], None)"
  by (simp add: flag_name_def HasPrefix_def)

lemma flag_parse_bool:
  "c \<noteq> CHR ''-'' \<Longrightarrow> c \<noteq> CHR ''='' \<Longrightarrow> map_of defs [c] = Some BoolFlag \<Longrightarrow>
   flag_parse defs vals ([CHR ''-'', c] # args) = flag_parse defs (([c], FBool True) # vals) args"
  by (simp add: flag_parse.simps(2) flag_name_short)

lemma flag_parse_dur:
  assumes "c \<noteq> CHR ''-''" "c \<noteq> CHR ''=''" "map_of defs [c] = Some DurationFlag" "- (2 ^ 63) < d" "d < 2 ^ 63"
  shows "flag_parse defs vals ([CHR ''-'', c] # Duration_String d # args) = flag_parse defs (([c], FDur d) # vals) args"
  using assms ParseDuration_String [OF assms(4,5)] by (simp add: flag_parse.simps(2) flag_name_short set_flag_def)

end
