(* ===== verification/Go_Tabwriter.thy ===== *)
theory Go_Tabwriter
  imports Go_Encoding
begin

text \<open>
  The part of package text/tabwriter that the client uses: a writer with a least cell width, a
  padding of blanks, and no flags, fed with a text and flushed. A text is lines of cells; a tab
  ends a cell, and the last cell of a line belongs to no column. A column is the cells at one
  place of consecutive lines. The client's texts have no vertical tabs, form feeds or bytes 0xFF,
  which the package treats specially.
\<close>

section \<open>The number of runes\<close>

text \<open>\<open>utf8.RuneCount\<close>: a byte that begins no encoded rune counts as one.\<close>

function RuneCount :: "string \<Rightarrow> nat" where
  "RuneCount s = (if s = [] then 0 else Suc (RuneCount (drop (max 1 (utf8_len s)) s)))"
  by pat_completeness auto
termination
  by (relation "measure length") auto

declare RuneCount.simps [simp del]

lemma RuneCount_le: "RuneCount s \<le> length s"
proof (induction s rule: RuneCount.induct)
  case (1 s)
  show ?case
  proof (cases "s = []")
    case False
    then have "RuneCount (drop (max 1 (utf8_len s)) s) \<le> length s - max 1 (utf8_len s)" using 1 by simp
    moreover have "RuneCount s = Suc (RuneCount (drop (max 1 (utf8_len s)) s))" using False by (simp add: RuneCount.simps [of s])
    moreover have "0 < length s" using False by simp
    ultimately show ?thesis by linarith
  qed (simp add: RuneCount.simps)
qed

lemma RuneCount_ascii: "\<forall>c \<in> set s. byte_of c < 0x80 \<Longrightarrow> RuneCount s = length s"
proof (induction s)
  case (Cons c s)
  then have "utf8_len (c # s) = 1" by (simp add: utf8_len_def)
  then show ?case using Cons by (simp add: RuneCount.simps [of "c # s"])
qed (simp add: RuneCount.simps)

section \<open>Formatting\<close>

record tabwriter =
  tw_minwidth :: nat
  tw_padding :: nat

text \<open>A cell in a column of a given width; the cell at the end of a line.\<close>

definition pad_cell :: "nat \<Rightarrow> string \<Rightarrow> string" where
  "pad_cell w cell = cell @ replicate (w - RuneCount cell) CHR '' ''"

fun write_line :: "nat list \<Rightarrow> string list \<Rightarrow> string" where
  "write_line widths [] = []"
| "write_line [] (cell # cells) = cell @ write_line [] cells"
| "write_line (w # widths) (cell # cells) = pad_cell w cell @ write_line widths cells"

text \<open>The width of a column, over the lines of its block.\<close>

definition column_width :: "tabwriter \<Rightarrow> nat \<Rightarrow> string list list \<Rightarrow> nat" where
  "column_width tw column block = foldl (\<lambda>w line. max w (RuneCount (line ! column) + tw_padding tw)) (tw_minwidth tw) block"

abbreviation has_cell :: "nat \<Rightarrow> string list \<Rightarrow> bool" where
  "has_cell column line \<equiv> column < length line - 1"

text \<open>Each call of the function below has fewer cells to the right of its columns, or fewer lines.\<close>

definition tab_measure :: "nat \<Rightarrow> string list list \<Rightarrow> nat" where
  "tab_measure column lines = sum_list (map (\<lambda>l. Suc (length l - column)) lines)"

lemma tab_measure_drop: "tab_measure column (dropWhile P lines) \<le> tab_measure column lines"
  by (induction lines) (auto simp: tab_measure_def)

lemma tab_measure_take: "tab_measure (Suc column) (takeWhile P lines) \<le> tab_measure column lines"
  by (induction lines) (auto simp: tab_measure_def)

text \<open>\<open>widths\<close> are the widths of the columns to the left.\<close>

function tab_format :: "tabwriter \<Rightarrow> nat list \<Rightarrow> string list list \<Rightarrow> string list" where
  "tab_format tw widths [] = []"
| "tab_format tw widths (line # lines) =
     (let column = length widths in
      if has_cell column line then
        let block = line # takeWhile (has_cell column) lines;
            w = column_width tw column block
        in tab_format tw (widths @ [w]) block @ tab_format tw widths (dropWhile (has_cell column) lines)
      else write_line widths line # tab_format tw widths lines)"
  by pat_completeness auto

termination
proof (relation "measure (\<lambda>(tw, widths, lines). tab_measure (length widths) lines)", goal_cases)
  case (2 tw widths line lines column block w)
  then show ?case using tab_measure_take [of column "has_cell column" lines]
    by (auto simp: tab_measure_def)
next
  case (3 tw widths line lines column block w)
  then show ?case using tab_measure_drop [of column "has_cell column" lines]
    by (auto simp: tab_measure_def)
qed (auto simp: tab_measure_def)

declare tab_format.simps(2) [simp del]

text \<open>Writing a whole text and flushing.\<close>

definition tabwrite :: "tabwriter \<Rightarrow> string \<Rightarrow> string" where
  "tabwrite tw txt = Join (tab_format tw [] (map (\<lambda>l. Split l [CHR 0x09]) (Split txt [CHR 0x0A]))) [CHR 0x0A]"

section \<open>Tables\<close>

text \<open>The lines of a table all have the same number of cells.\<close>

definition table_widths :: "tabwriter \<Rightarrow> nat \<Rightarrow> nat \<Rightarrow> string list list \<Rightarrow> nat list" where
  "table_widths tw column n lines = map (\<lambda>c. column_width tw c lines) [column ..< n - 1]"

lemma tab_format_table:
  assumes "lines \<noteq> []" "\<forall>l \<in> set lines. length l = n" "0 < n" "length widths \<le> n - 1"
  shows "tab_format tw widths lines = map (write_line (widths @ table_widths tw (length widths) n lines)) lines"
  using assms
proof (induction "n - 1 - length widths" arbitrary: widths)
  case 0
  then have c: "length widths = n - 1" by linarith
  have "tab_format tw widths ls = map (write_line widths) ls" if "\<forall>l \<in> set ls. length l = n" for ls
    using that by (induction ls) (simp_all add: tab_format.simps(2) c)
  then show ?case using "0.prems"(2) by (simp add: table_widths_def c)
next
  case (Suc k)
  obtain l ls where lines: "lines = l # ls" using Suc.prems(1) by (cases lines) auto
  let ?c = "length widths"
  have c: "?c < n - 1" "k = n - 1 - Suc ?c" using Suc.hyps(2) by linarith+
  have "has_cell ?c x" if "x \<in> set lines" for x using Suc.prems(2) c(1) that by simp
  then have block: "takeWhile (has_cell ?c) ls = ls" "dropWhile (has_cell ?c) ls = []" "has_cell ?c l"
    using lines by (simp_all add: takeWhile_eq_all_conv)
  let ?w = "column_width tw ?c lines"
  have "tab_format tw widths lines = tab_format tw (widths @ [?w]) lines"
    unfolding lines by (subst tab_format.simps(2)) (simp only: block Let_def if_True tab_format.simps(1) append_Nil2)
  also have "\<dots> = map (write_line ((widths @ [?w]) @ table_widths tw (length (widths @ [?w])) n lines)) lines"
    using c by (intro Suc.hyps(1) Suc.prems) simp_all
  also have "(widths @ [?w]) @ table_widths tw (length (widths @ [?w])) n lines = widths @ table_widths tw ?c n lines"
    using c(1) by (simp add: table_widths_def upt_conv_Cons)
  finally show ?case .
qed

text \<open>Every cell of a table fits into its column, with the padding after it.\<close>

lemma column_width_ge:
  "line \<in> set block \<Longrightarrow> RuneCount (line ! column) + tw_padding tw \<le> column_width tw column block"
proof -
  have mono: "w \<le> foldl (\<lambda>w line. max w (RuneCount (line ! column) + tw_padding tw)) w ls" for w ls
    by (induction ls arbitrary: w) (auto intro: order_trans [OF max.cobounded1])
  have "l \<in> set ls \<Longrightarrow> RuneCount (l ! column) + tw_padding tw \<le> foldl (\<lambda>w line. max w (RuneCount (line ! column) + tw_padding tw)) w ls" for l ls w
  proof (induction ls arbitrary: w)
    case (Cons a ls)
    then show ?case using mono [of "max w (RuneCount (a ! column) + tw_padding tw)" ls] by auto
  qed simp
  then show "line \<in> set block \<Longrightarrow> ?thesis" by (simp add: column_width_def)
qed

end
