(* ===== verification/Client.thy ===== *)
theory Client
  imports Ipc_Service Settings Go_Flag Go_Tabwriter
begin

text \<open>
  The command-line client (\<open>src/jobber\<close>): the call of a user's job-runner process, the
  subcommands, and the main function.

  What the client writes, and which commands it sends to whose process, is the state
  \<open>client_io\<close>. A command gives its exit code; it gives \<^term>\<open>None\<close> when it never returns, which
  is waiting for an answer without a timeout. What the client meets is the record \<open>client_env\<close>:
  the user database, the sockets, whether an answer comes in time, what the main thread of each
  user's process answers (\<open>Ipc_Service\<close>; a client sends at most one command to each), the local
  zone, and how \<open>sort.Sort\<close> sorts: for a \<open>Less\<close> on the first so many indices, the indices in their new order
  (the package leaves open where it puts elements of which neither is less). The client and
  the processes it calls are in the same zone. Package net/rpc carries the value or the error
  text of the service's method; it fails itself if the connection does.
\<close>

section \<open>State and environment\<close>

record client_io =
  co_out :: string
  co_err :: string
  co_calls :: "(string \<times> ICmd) list"

definition no_io :: client_io where
  "no_io = \<lparr>co_out = [], co_err = [], co_calls = []\<rparr>"

datatype read_result = ReadData string | ReadEOF string | ReadErr string

record client_env =
  ce_progName :: string
  ce_globals :: globals
  ce_user :: "user outcome"
  ce_fullName :: "user \<Rightarrow> string"
  ce_lookupId :: "string \<Rightarrow> user outcome"
  ce_readDir :: "string \<Rightarrow> (string \<times> bool) list outcome"
  ce_stat :: "string \<Rightarrow> error option"
  ce_dial :: "string \<Rightarrow> error option"
  ce_main :: "string \<Rightarrow> main_thread"
  ce_rpc :: "string \<Rightarrow> error option"
  ce_answers :: "string \<Rightarrow> duration option \<Rightarrow> bool"
  ce_sort :: "(nat \<Rightarrow> nat \<Rightarrow> bool) \<Rightarrow> nat \<Rightarrow> nat list"
  ce_loc :: location
  ce_zone :: "go_time \<Rightarrow> string"
  ce_reads :: "string \<Rightarrow> read_result list"
  ce_defaults :: "string \<Rightarrow> string"
  ce_helpCode :: int

type_synonym 'a client_run = "client_io \<Rightarrow> ('a \<times> client_io) option"

definition out :: "string \<Rightarrow> client_io \<Rightarrow> client_io" where
  "out s io = io\<lparr>co_out := co_out io @ s\<rparr>"

definition outln :: "string \<Rightarrow> client_io \<Rightarrow> client_io" where
  "outln s = out (s @ [CHR 0x0A])"

definition errln :: "string \<Rightarrow> client_io \<Rightarrow> client_io" where
  "errln s io = io\<lparr>co_err := co_err io @ s @ [CHR 0x0A]\<rparr>"

section \<open>Calling the daemon\<close>

definition gNoSocketErrMsg :: "string \<Rightarrow> string \<Rightarrow> string" where
  "gNoSocketErrMsg username socketPath =
     ''Jobber doesn'' @ [CHR 0x27] @ ''t seem to be running for user '' @ username @ ''.'' @ [CHR 0x0A] @
     ''(No socket at '' @ socketPath @ ''.)''"

definition gTimeoutErrMsg :: string where
  "gTimeoutErrMsg = ''Call to Jobber timed out.''"

definition gCallErrMgs :: "error \<Rightarrow> string" where
  "gCallErrMgs e = ''Call to Jobber failed: '' @ Error_Error e"

text \<open>The error whose cause is given is nil by then, so the error of the call is only in the text.\<close>

definition CallDaemon ::
    "client_env \<Rightarrow> (main_thread \<Rightarrow> IpcService \<Rightarrow> 'r outcome) \<Rightarrow> ICmd \<Rightarrow> user \<Rightarrow> duration option \<Rightarrow> 'r outcome client_run" where
  "CallDaemon env rpcMethod cmd usr timeout io =
     (let socketPath = CmdSocketPath (ce_globals env) usr in
      case ce_stat env socketPath of
        Some e \<Rightarrow>
          Some (Fail (if IsNotExist e then Error (gNoSocketErrMsg (Username usr) socketPath) (Some e) else e), io)
      | None \<Rightarrow>
          (case ce_dial env socketPath of
             Some e \<Rightarrow> Some (Fail e, io)
           | None \<Rightarrow>
               let io1 = io\<lparr>co_calls := co_calls io @ [(Uid usr, cmd)]\<rparr> in
               if \<not> ce_answers env (Uid usr) timeout
               then (if timeout = None then None else Some (Fail (Error gTimeoutErrMsg None), io1))
               else
                 case (case ce_rpc env (Uid usr) of
                         Some e \<Rightarrow> Fail e
                       | None \<Rightarrow> rpcMethod (ce_main env (Uid usr)) \<lparr>serverType = IpcServerTypeUds\<rparr>) of
                   Ok r \<Rightarrow> Some (Ok r, io1)
                 | Fail e \<Rightarrow> Some (Fail (Error (gCallErrMgs e) None), io1)
                 | Panic p \<Rightarrow> Some (Fail (Error (gCallErrMgs eof_error) None), io1)))"

text \<open>Going on with the value of a call, or printing its error and ending with 1.\<close>

definition call_or_fail ::
    "client_env \<Rightarrow> (main_thread \<Rightarrow> IpcService \<Rightarrow> 'r outcome) \<Rightarrow> ICmd \<Rightarrow> user \<Rightarrow> duration option \<Rightarrow>
     ('r \<Rightarrow> int client_run) \<Rightarrow> int client_run" where
  "call_or_fail env rpcMethod cmd usr timeout k io =
     (case CallDaemon env rpcMethod cmd usr timeout io of
        None \<Rightarrow> None
      | Some (Ok r, io1) \<Rightarrow> k r io1
      | Some (Fail e, io1) \<Rightarrow> Some (1, errln (Error_Error e) io1)
      | Some (Panic p, io1) \<Rightarrow> None)"

definition with_user :: "client_env \<Rightarrow> (user \<Rightarrow> int client_run) \<Rightarrow> int client_run" where
  "with_user env k io =
     (case ce_user env of
        Ok usr \<Rightarrow> k usr io
      | Fail e \<Rightarrow> Some (1, errln (''Failed to get current user: '' @ Error_Error e) io)
      | Panic p \<Rightarrow> None)"

definition with_users :: "client_env \<Rightarrow> (user list \<Rightarrow> int client_run) \<Rightarrow> int client_run" where
  "with_users env k io =
     (case AllUsersWithSockets (ce_lookupId env) (ce_readDir env) (ce_globals env) of
        Ok users \<Rightarrow> k users io
      | Fail e \<Rightarrow> Some (1, errln (''Failed to get all users: '' @ Error_Error e) io)
      | Panic p \<Rightarrow> None)"

section \<open>Flags\<close>

definition subcmdUsage :: "client_env \<Rightarrow> string \<Rightarrow> string \<Rightarrow> client_io \<Rightarrow> client_io" where
  "subcmdUsage env subcmd posargs io =
     (let io1 = out ([CHR 0x0A] @ ''Usage: '' @ ce_progName env @ '' '' @ subcmd @ '' [flags] '' @ posargs @ [CHR 0x0A] @
        ''Flags:'' @ [CHR 0x0A]) io
      in io1\<lparr>co_err := co_err io1 @ ce_defaults env subcmd\<rparr>)"

definition with_flags ::
    "client_env \<Rightarrow> string \<Rightarrow> string \<Rightarrow> (string \<times> flag_kind) list \<Rightarrow> string list \<Rightarrow>
     (flag_vals \<Rightarrow> string list \<Rightarrow> int client_run) \<Rightarrow> int client_run" where
  "with_flags env subcmd posargs defs args k io =
     (case flag_parse defs [] args of
        FlagHelp \<Rightarrow> Some (ce_helpCode env, subcmdUsage env subcmd posargs io)
      | FlagError msg \<Rightarrow> Some (2, subcmdUsage env subcmd posargs (errln msg io))
      | Parsed vals pos \<Rightarrow>
          if bool_flag vals ''h'' then Some (0, subcmdUsage env subcmd posargs io) else k vals pos io)"

definition default_timeout :: duration where
  "default_timeout = 5 * Second_dur"

definition timeout_of :: "flag_vals \<Rightarrow> duration option" where
  "timeout_of vals = Some (dur_flag vals ''t'' default_timeout)"

abbreviation "help_flag \<equiv> (''h'', BoolFlag)"
abbreviation "all_flag \<equiv> (''a'', BoolFlag)"
abbreviation "timeout_flag \<equiv> (''t'', DurationFlag)"

section \<open>The simple subcommands\<close>

definition client_pause :: "client_env \<Rightarrow> string list \<Rightarrow> int client_run" where
  "client_pause env args =
     with_flags env ''pause'' ''[JOBS...]'' [help_flag, timeout_flag] args (\<lambda>vals jobs.
       with_user env (\<lambda>usr.
         call_or_fail env (\<lambda>main self. IpcService_Pause main self jobs) (PauseCmd jobs) usr (timeout_of vals) (\<lambda>n io.
           Some (0, outln (''Paused '' @ nat_str n @ '' jobs.'') io))))"

definition client_resume :: "client_env \<Rightarrow> string list \<Rightarrow> int client_run" where
  "client_resume env args =
     with_flags env ''resume'' ''[JOBS...]'' [help_flag, timeout_flag] args (\<lambda>vals jobs.
       with_user env (\<lambda>usr.
         call_or_fail env (\<lambda>main self. IpcService_Resume main self jobs) (ResumeCmd jobs) usr (timeout_of vals) (\<lambda>n io.
           Some (0, outln (''Resumed '' @ nat_str n @ '' jobs.'') io))))"

definition client_cat :: "client_env \<Rightarrow> string list \<Rightarrow> int client_run" where
  "client_cat env args =
     with_flags env ''cat'' ''JOB'' [help_flag, timeout_flag] args (\<lambda>vals pos.
       case pos of
         [] \<Rightarrow> (\<lambda>io. Some (1, errln ''You must specify a job.'' io))
       | job # _ \<Rightarrow>
           with_user env (\<lambda>usr.
             call_or_fail env (\<lambda>main self. IpcService_Cat main self job) (CatCmd job) usr (timeout_of vals) (\<lambda>result io.
               Some (0, outln result io))))"

definition client_init :: "client_env \<Rightarrow> string list \<Rightarrow> int client_run" where
  "client_init env args =
     with_flags env ''init'' [] [help_flag, timeout_flag] args (\<lambda>vals pos.
       with_user env (\<lambda>usr.
         call_or_fail env IpcService_Init InitCmd usr (timeout_of vals) (\<lambda>jobfilePath io.
           Some (0, outln (''Once you have done so, run '' @ [CHR 0x27] @ ''jobber reload'' @ [CHR 0x27] @ ''.'')
             (outln (''You can now define jobs in '' @ jobfilePath @ ''.'') io)))))"

section \<open>Reload\<close>

text \<open>The loop over the users ends at the first whose process does not answer.\<close>

fun reload_users :: "client_env \<Rightarrow> duration option \<Rightarrow> user list \<Rightarrow> int client_run" where
  "reload_users env timeout [] io = Some (0, io)"
| "reload_users env timeout (usr # users) io =
     call_or_fail env IpcService_Reload ReloadCmd usr timeout (\<lambda>n io1.
       reload_users env timeout users (outln (''Loaded '' @ nat_str n @ '' jobs for '' @ ce_fullName env usr @ ''.'') io1)) io"

definition client_reload :: "client_env \<Rightarrow> string list \<Rightarrow> int client_run" where
  "client_reload env args =
     with_flags env ''reload'' [] [help_flag, all_flag, timeout_flag] args (\<lambda>vals pos.
       if bool_flag vals ''a'' then with_users env (reload_users env (timeout_of vals))
       else with_user env (\<lambda>usr.
         call_or_fail env IpcService_Reload ReloadCmd usr (timeout_of vals) (\<lambda>n io.
           Some (0, outln (''Loaded '' @ nat_str n @ '' jobs.'') io))))"

section \<open>Listing jobs\<close>

abbreviation tab :: string where
  "tab \<equiv> [CHR 0x09]"

definition client_tabwriter :: tabwriter where
  "client_tabwriter = \<lparr>tw_minwidth = 5, tw_padding = 2\<rparr>"

text \<open>The zone as \<open>-0700\<close>; \<open>t.Local().Format("Jan _2 15:04:05 -0700 MST")\<close>.\<close>

definition format_zone :: "int \<Rightarrow> string" where
  "format_zone offset =
     (let mins = \<bar>offset\<bar> div 60 in
      (if offset \<le> -60 then ''-'' else ''+'') @ pad_num CHR ''0'' 2 (mins div 60) @ pad_num CHR ''0'' 2 (mins mod 60))"

definition formatTime :: "client_env \<Rightarrow> go_time option \<Rightarrow> string" where
  "formatTime env t =
     (case t of
        None \<Rightarrow> ''none''
      | Some t \<Rightarrow>
          let loc = ce_loc env in
          month_abbrevs ! nat (Month_of loc t - 1) @ '' '' @ pad_num CHR '' '' 2 (Day_of loc t) @ '' '' @
          pad_num CHR ''0'' 2 (Hour_of loc t) @ '':'' @ pad_num CHR ''0'' 2 (Minute_of loc t) @ '':'' @
          pad_num CHR ''0'' 2 (Second_of loc t) @ '' '' @ format_zone (loc (Unix t)) @ '' '' @ ce_zone env t)"

record ListRespRec =
  lr_usr :: user
  lr_resp :: "JobDesc list"

definition list_headers :: "bool \<Rightarrow> string list" where
  "list_headers showUser =
     [''NAME'', ''STATUS'', ''SEC/MIN/HR/MDAY/MTH/WDAY'', ''NEXT RUN TIME'', ''NOTIFY ON SUCCESS'', ''NOTIFY ON ERR'',
      ''NOTIFY ON FAIL'', ''ERR HANDLER''] @ (if showUser then [''USER''] else [])"

definition list_fields :: "client_env \<Rightarrow> bool \<Rightarrow> user \<Rightarrow> JobDesc \<Rightarrow> string list" where
  "list_fields env showUser usr j =
     [jd_Name j, jd_Status j, jd_Schedule j, formatTime env (jd_NextRunTime j), jd_NotifyOnSuccess j, jd_NotifyOnErr j,
      jd_NotifyOnFail j, jd_ErrHandler j] @ (if showUser then [Username usr] else [])"

definition formatResponseRecs :: "client_env \<Rightarrow> ListRespRec list \<Rightarrow> bool \<Rightarrow> string" where
  "formatResponseRecs env recs showUser =
     (let rows = concat (map (\<lambda>rec. map (\<lambda>j. Join (list_fields env showUser (lr_usr rec) j) tab) (lr_resp rec)) recs)
      in tabwrite client_tabwriter (Join (list_headers showUser) tab @ [CHR 0x0A] @ Join rows [CHR 0x0A]))"

text \<open>A user whose process does not answer is left out, with a message.\<close>

fun list_users :: "client_env \<Rightarrow> duration option \<Rightarrow> user list \<Rightarrow> ListRespRec list client_run" where
  "list_users env timeout [] io = Some ([], io)"
| "list_users env timeout (usr # users) io =
     (case CallDaemon env IpcService_ListJobs ListJobsCmd usr timeout io of
        None \<Rightarrow> None
      | Some (Ok resp, io1) \<Rightarrow>
          map_option (\<lambda>(recs, io2). (\<lparr>lr_usr = usr, lr_resp = resp\<rparr> # recs, io2)) (list_users env timeout users io1)
      | Some (Fail e, io1) \<Rightarrow>
          list_users env timeout users (errln (''Failed to list jobs for '' @ Username usr @ '': '' @ Error_Error e) io1)
      | Some (Panic p, io1) \<Rightarrow> None)"

definition client_list :: "client_env \<Rightarrow> string list \<Rightarrow> int client_run" where
  "client_list env args =
     with_flags env ''list'' [] [help_flag, all_flag, timeout_flag] args (\<lambda>vals pos.
       if bool_flag vals ''a'' then with_users env (\<lambda>users io.
         map_option (\<lambda>(recs, io1). (0, outln (formatResponseRecs env recs True) io1)) (list_users env (timeout_of vals) users io))
       else with_user env (\<lambda>usr.
         call_or_fail env IpcService_ListJobs ListJobsCmd usr (timeout_of vals) (\<lambda>resp io.
           Some (0, outln (formatResponseRecs env [\<lparr>lr_usr = usr, lr_resp = resp\<rparr>] False) io))))"

section \<open>The log\<close>

record EnhancedLogDesc =
  el_userName :: string
  el_logDesc :: LogDesc

text \<open>
  The two types that implement \<open>sort.Interface\<close>: a later time is less. \<open>Less\<close> is asked of elements;
  indices are those before the sorting.
\<close>

definition LogDescSorter_Less :: "LogDesc list \<Rightarrow> nat \<Rightarrow> nat \<Rightarrow> bool" where
  "LogDescSorter_Less self i j = After (ld_Time (self ! i)) (ld_Time (self ! j))"

definition EnhancedLogDescSorter_Less :: "EnhancedLogDesc list \<Rightarrow> nat \<Rightarrow> nat \<Rightarrow> bool" where
  "EnhancedLogDescSorter_Less self i j = After (ld_Time (el_logDesc (self ! i))) (ld_Time (el_logDesc (self ! j)))"

definition sort_Sort :: "client_env \<Rightarrow> ('a list \<Rightarrow> nat \<Rightarrow> nat \<Rightarrow> bool) \<Rightarrow> 'a list \<Rightarrow> 'a list" where
  "sort_Sort env Less xs = map (\<lambda>i. xs ! i) (ce_sort env (Less xs) (length xs))"

text \<open>\<open>Duration.Round\<close>, half away from zero, within 64 bits.\<close>

definition Duration_Round :: "duration \<Rightarrow> duration \<Rightarrow> duration" where
  "Duration_Round d m =
     (if m \<le> 0 then d
      else let r = \<bar>d\<bar> mod m in
        if d < 0 then (if r + r < m then d + r else if d - m + r < - (2 ^ 63) then - (2 ^ 63) else d - m + r)
        else (if r + r < m then d - r else if d + m - r > 2 ^ 63 - 1 then 2 ^ 63 - 1 else d + m - r))"

definition log_fields :: "client_env \<Rightarrow> LogDesc \<Rightarrow> string list" where
  "log_fields env e =
     [format_time (ce_loc env) (ld_Time e), ld_Job e, ld_Fate e, Duration_String (Duration_Round (ld_ExecTime e) Second_dur), ld_Result e]"

text \<open>Every row ends with a tab, the header only in the table of one user.\<close>

definition format_logs :: "client_env \<Rightarrow> LogDesc list \<Rightarrow> string" where
  "format_logs env logs =
     tabwrite client_tabwriter
       (Join [''TIME'', ''JOB'', ''RESULT'', ''EXECTIME'', ''NEW JOB STATUS'', []] tab @ [CHR 0x0A] @
        Join (map (\<lambda>e. Join (log_fields env e @ [[]]) tab) logs) [CHR 0x0A])"

definition format_logs_users :: "client_env \<Rightarrow> EnhancedLogDesc list \<Rightarrow> string" where
  "format_logs_users env logs =
     tabwrite client_tabwriter
       (Join [''TIME'', ''JOB'', ''RESULT'', ''EXECTIME'', ''RESULT'', ''USER''] tab @ [CHR 0x0A] @
        Join (map (\<lambda>e. Join (log_fields env (el_logDesc e) @ [el_userName e, []]) tab) logs) [CHR 0x0A])"

fun log_users :: "client_env \<Rightarrow> duration option \<Rightarrow> user list \<Rightarrow> EnhancedLogDesc list client_run" where
  "log_users env timeout [] io = Some ([], io)"
| "log_users env timeout (usr # users) io =
     (case CallDaemon env IpcService_Log LogCmd usr timeout io of
        None \<Rightarrow> None
      | Some (Ok logs, io1) \<Rightarrow>
          map_option (\<lambda>(rest, io2). (map (\<lambda>l. \<lparr>el_userName = ce_fullName env usr, el_logDesc = l\<rparr>) logs @ rest, io2))
            (log_users env timeout users io1)
      | Some (Fail e, io1) \<Rightarrow>
          log_users env timeout users (errln (''Failed to get log for '' @ ce_fullName env usr @ '': '' @ Error_Error e @ ''.'') io1)
      | Some (Panic p, io1) \<Rightarrow> None)"

definition doLogCmd_allUsers :: "client_env \<Rightarrow> duration option \<Rightarrow> int client_run" where
  "doLogCmd_allUsers env timeout =
     with_users env (\<lambda>users io.
       map_option (\<lambda>(logs, io1).
         (0, outln (if logs = [] then ''No run logs.''
                    else format_logs_users env (sort_Sort env EnhancedLogDescSorter_Less logs)) io1))
         (log_users env timeout users io))"

definition doLogCmd_currUser :: "client_env \<Rightarrow> duration option \<Rightarrow> int client_run" where
  "doLogCmd_currUser env timeout =
     with_user env (\<lambda>usr.
       call_or_fail env IpcService_Log LogCmd usr timeout (\<lambda>logs io.
         Some (0, outln (if logs = [] then ''No run logs.''
                         else format_logs env (sort_Sort env LogDescSorter_Less logs)) io)))"

definition client_log :: "client_env \<Rightarrow> string list \<Rightarrow> int client_run" where
  "client_log env args =
     with_flags env ''log'' [] [help_flag, all_flag, timeout_flag] args (\<lambda>vals pos.
       if bool_flag vals ''a'' then doLogCmd_allUsers env (timeout_of vals) else doLogCmd_currUser env (timeout_of vals))"

section \<open>Test runs\<close>

text \<open>
  The reads from the socket that the process serves the output on: data, data with the end, or an
  error, after which the loop goes on. With no further result the client waits.
\<close>

fun copy_output :: "read_result list \<Rightarrow> int client_run" where
  "copy_output [] io = None"
| "copy_output (ReadData s # rs) io = copy_output rs (out s io)"
| "copy_output (ReadEOF s # rs) io = Some (0, out s io)"
| "copy_output (ReadErr s # rs) io = copy_output rs (out s io)"

definition client_test :: "client_env \<Rightarrow> string list \<Rightarrow> int client_run" where
  "client_test env args =
     with_flags env ''test'' ''JOB'' [help_flag] args (\<lambda>vals pos.
       case pos of
         [] \<Rightarrow> (\<lambda>io. Some (1, errln ''You must specify a job.'' io))
       | job # _ \<Rightarrow>
           with_user env (\<lambda>usr io.
             call_or_fail env (\<lambda>main self. IpcService_Test main self job) (TestCmd job) usr None (\<lambda>sockPath io1.
               case ce_dial env sockPath of
                 Some e \<Rightarrow> Some (1, errln (Error_Error e) io1)
               | None \<Rightarrow> copy_output (ce_reads env sockPath) io1)
               (outln (''Running job '' @ quoted job @ ''...'') io)))"

section \<open>The main function\<close>

definition CmdStrs :: "string list" where
  "CmdStrs = [''list'', ''log'', ''reload'', ''test'', ''cat'', ''pause'', ''resume'', ''init'']"

definition CmdHandlers :: "string \<Rightarrow> (client_env \<Rightarrow> string list \<Rightarrow> int client_run) option" where
  "CmdHandlers cmd = map_of [(''list'', client_list), (''log'', client_log), (''reload'', client_reload), (''test'', client_test),
     (''cat'', client_cat), (''pause'', client_pause), (''resume'', client_resume), (''init'', client_init)] cmd"

definition client_usage :: "client_env \<Rightarrow> client_io \<Rightarrow> client_io" where
  "client_usage env io =
     (let io1 = outln [] (outln (''Usage: '' @ ce_progName env @ '' [flags] COMMAND'') io);
          io2 = outln ''Flags:'' io1;
          io3 = outln [] (io2\<lparr>co_err := co_err io2 @ ce_defaults env []\<rparr>);
          io4 = outln ''Commands:'' io3
      in fold (\<lambda>cmd io. outln (''    '' @ cmd) io) CmdStrs io4)"

definition LongVersionStr :: "string \<Rightarrow> string" where
  "LongVersionStr jobberVersion = ''Jobber '' @ jobberVersion"

text \<open>The main function, from the result of \<open>InitSettings\<close>.\<close>

definition client_main :: "client_env \<Rightarrow> string \<Rightarrow> unit outcome \<Rightarrow> string list \<Rightarrow> int client_run" where
  "client_main env jobberVersion settings args io =
     (case settings of
        Fail e \<Rightarrow> Some (1, errln (Error_Error e) io)
      | Panic p \<Rightarrow> None
      | Ok _ \<Rightarrow>
          (case flag_parse [help_flag, (''v'', BoolFlag), (''d'', BoolFlag)] [] args of
             FlagHelp \<Rightarrow> Some (ce_helpCode env, client_usage env io)
           | FlagError msg \<Rightarrow> Some (2, client_usage env (errln msg io))
           | Parsed vals pos \<Rightarrow>
               if bool_flag vals ''h'' then Some (0, client_usage env io)
               else if bool_flag vals ''v'' then Some (0, outln (LongVersionStr jobberVersion) io)
               else if bool_flag vals ''d'' then Some (0, out (PrintPaths (ce_globals env)) io)
               else
                 case pos of
                   [] \<Rightarrow> Some (1, client_usage env (errln [] (errln ''Please specify a command.'' io)))
                 | cmd # rest \<Rightarrow>
                     (case CmdHandlers cmd of
                        None \<Rightarrow> Some (1, client_usage env (errln [] (errln (''Invalid command: '' @ quoted cmd @ ''.'') io)))
                      | Some handler \<Rightarrow> handler env rest io)))"

end
