(* ===== verification/Client_Spec.thy ===== *)
theory Client_Spec
  imports Client Job_Manager_Spec
begin

text \<open>
  What a user sees of the client (theory \<open>Client\<close>), from the command line through the service to the
  job manager and back: pausing, the tables of jobs and runs, failing processes, and that the client
  ends.
\<close>

section \<open>Calls\<close>

text \<open>The process of the user is there and answers in time.\<close>

definition reachable :: "client_env \<Rightarrow> duration option \<Rightarrow> user \<Rightarrow> bool" where
  "reachable env timeout usr \<longleftrightarrow>
     ce_stat env (CmdSocketPath (ce_globals env) usr) = None \<and> ce_dial env (CmdSocketPath (ce_globals env) usr) = None \<and>
     ce_answers env (Uid usr) timeout \<and> ce_rpc env (Uid usr) = None"

text \<open>Sending a command to the user's process.\<close>

definition called :: "user \<Rightarrow> ICmd \<Rightarrow> client_io \<Rightarrow> client_io" where
  "called usr cmd io = io\<lparr>co_calls := co_calls io @ [(Uid usr, cmd)]\<rparr>"

lemma CallDaemon_reachable:
  assumes "reachable env timeout usr"
  shows "CallDaemon env rpcMethod cmd usr timeout io =
    Some (case rpcMethod (ce_main env (Uid usr)) \<lparr>serverType = IpcServerTypeUds\<rparr> of
        Ok r \<Rightarrow> Ok r | Fail e \<Rightarrow> Fail (Error (gCallErrMgs e) None) | Panic p \<Rightarrow> Fail (Error (gCallErrMgs eof_error) None), called usr cmd io)"
  using assms by (auto simp: CallDaemon_def reachable_def called_def Let_def split: outcome.splits)

text \<open>A call with a timeout returns, with a value or an error, and sends at most its command.\<close>

lemma CallDaemon_returns:
  assumes "timeout \<noteq> None"
  shows "\<exists>r io'. CallDaemon env rpcMethod cmd usr timeout io = Some (r, io') \<and> \<not> is_Panic r \<and>
    co_out io' = co_out io \<and> co_err io' = co_err io \<and> co_calls io' \<in> {co_calls io, co_calls io @ [(Uid usr, cmd)]}"
  using assms by (auto simp: CallDaemon_def Let_def is_Panic_def split: option.splits outcome.splits)

lemma call_or_fail_returns:
  assumes "timeout \<noteq> None" "\<And>r io. k r io \<noteq> None"
  shows "call_or_fail env rpcMethod cmd usr timeout k io \<noteq> None"
proof -
  obtain r io' where "CallDaemon env rpcMethod cmd usr timeout io = Some (r, io')" "\<not> is_Panic r"
    using CallDaemon_returns [OF assms(1)] by metis
  then show ?thesis using assms(2) by (cases r) (auto simp: call_or_fail_def is_Panic_def)
qed

lemma with_flags_returns:
  "(\<And>vals pos io. k vals pos io \<noteq> None) \<Longrightarrow> with_flags env c p defs args k io \<noteq> None"
  by (auto simp: with_flags_def split: flag_result.splits)

definition lookups_return :: "client_env \<Rightarrow> bool" where
  "lookups_return env \<longleftrightarrow> \<not> is_Panic (ce_user env) \<and> (\<forall>d. \<not> is_Panic (ce_readDir env d))"

lemma with_user_returns: "lookups_return env \<Longrightarrow> (\<And>usr io. k usr io \<noteq> None) \<Longrightarrow> with_user env k io \<noteq> None"
  by (auto simp: with_user_def lookups_return_def is_Panic_def split: outcome.splits)

lemma with_users_returns: "lookups_return env \<Longrightarrow> (\<And>users io. k users io \<noteq> None) \<Longrightarrow> with_users env k io \<noteq> None"
  by (auto simp: with_users_def lookups_return_def is_Panic_def AllUsersWithSockets_def outcome_simps split: outcome.splits)

lemma map_option_returns: "x \<noteq> None \<Longrightarrow> map_option f x \<noteq> None"
  by simp

lemma timeout_of_Some: "timeout_of vals \<noteq> None"
  by (simp add: timeout_of_def)

lemma reload_users_returns: "timeout \<noteq> None \<Longrightarrow> reload_users env timeout users io \<noteq> None"
  by (induction users arbitrary: io) (simp, simp only: reload_users.simps, intro call_or_fail_returns, simp_all)

lemma list_users_returns: "timeout \<noteq> None \<Longrightarrow> list_users env timeout users io \<noteq> None"
proof (induction users arbitrary: io)
  case (Cons usr users)
  obtain r io' where "CallDaemon env IpcService_ListJobs ListJobsCmd usr timeout io = Some (r, io')" "\<not> is_Panic r"
    using CallDaemon_returns [OF Cons.prems] by metis
  then show ?case using Cons by (cases r) (auto simp: is_Panic_def)
qed simp

lemma log_users_returns: "timeout \<noteq> None \<Longrightarrow> log_users env timeout users io \<noteq> None"
proof (induction users arbitrary: io)
  case (Cons usr users)
  obtain r io' where "CallDaemon env IpcService_Log LogCmd usr timeout io = Some (r, io')" "\<not> is_Panic r"
    using CallDaemon_returns [OF Cons.prems] by metis
  then show ?case using Cons by (cases r) (auto simp: is_Panic_def)
qed simp

lemmas client_returns_rules = with_flags_returns with_user_returns with_users_returns call_or_fail_returns
  timeout_of_Some reload_users_returns

lemma handlers_return:
  assumes "lookups_return env"
  shows "client_pause env args io \<noteq> None" "client_resume env args io \<noteq> None" "client_cat env args io \<noteq> None"
    "client_init env args io \<noteq> None" "client_reload env args io \<noteq> None" "client_list env args io \<noteq> None"
    "client_log env args io \<noteq> None"
proof -
  show "client_pause env args io \<noteq> None" "client_resume env args io \<noteq> None" "client_init env args io \<noteq> None"
    unfolding client_pause_def client_resume_def client_init_def
    by (intro with_flags_returns with_user_returns [OF assms] call_or_fail_returns timeout_of_Some, simp)+
  show "client_cat env args io \<noteq> None"
    unfolding client_cat_def
    apply (intro with_flags_returns)
    subgoal for vals pos io
      by (cases pos) (simp, simp only: list.case, intro with_user_returns [OF assms] call_or_fail_returns timeout_of_Some, simp)
    done
  show "client_reload env args io \<noteq> None"
    unfolding client_reload_def
    apply (intro with_flags_returns)
    subgoal for vals pos io
      by (cases "bool_flag vals ''a''"; simp only: if_True if_False; intro with_user_returns [OF assms] with_users_returns [OF assms] call_or_fail_returns timeout_of_Some reload_users_returns; simp)
    done
  show "client_list env args io \<noteq> None"
    unfolding client_list_def
    apply (intro with_flags_returns)
    subgoal for vals pos io
      by (cases "bool_flag vals ''a''"; simp only: if_True if_False; intro with_user_returns [OF assms] with_users_returns [OF assms] call_or_fail_returns timeout_of_Some map_option_returns list_users_returns; simp)
    done
  show "client_log env args io \<noteq> None"
    unfolding client_log_def doLogCmd_allUsers_def doLogCmd_currUser_def
    apply (intro with_flags_returns)
    subgoal for vals pos io
      by (cases "bool_flag vals ''a''"; simp only: if_True if_False; intro with_user_returns [OF assms] with_users_returns [OF assms] call_or_fail_returns timeout_of_Some map_option_returns log_users_returns; simp)
    done
qed

text \<open>
  C37. The client ends: whatever its arguments and however the processes behave, the client returns
  an exit code, unless it runs the subcommand \<open>test\<close>, the only one that waits without a timeout.
\<close>

theorem client_returns:
  assumes "lookups_return env" "\<not> is_Panic settings"
    "\<forall>vals rest. flag_parse [help_flag, (''v'', BoolFlag), (''d'', BoolFlag)] [] args \<noteq> Parsed vals (''test'' # rest)"
  shows "\<exists>code io'. client_main env jobberVersion settings args io = Some (code, io')"
proof -
  have "handler env rest io \<noteq> None" if "CmdHandlers cmd = Some handler" "cmd \<noteq> ''test''" for cmd handler rest
    using that handlers_return [OF assms(1)] by (auto simp: CmdHandlers_def split: if_splits)
  moreover have "cmd \<noteq> ''test''" if "flag_parse [help_flag, (''v'', BoolFlag), (''d'', BoolFlag)] [] args = Parsed vals (cmd # rest)" for vals cmd rest
    using assms(3) that by blast
  ultimately have "client_main env jobberVersion settings args io \<noteq> None"
    using assms(2) by (auto simp: client_main_def is_Panic_def split: outcome.splits flag_result.splits list.splits option.splits)
  then show ?thesis by auto
qed

text \<open>An environment with one user, whose process has one job and answers.\<close>

definition demo_env :: client_env where
  "demo_env = \<lparr>ce_progName = ''jobber'', ce_globals = init_globals ''/tmp'' ''/etc'', ce_user = Ok sample_user,
     ce_fullName = (\<lambda>_. ''U''), ce_lookupId = (\<lambda>_. Ok sample_user), ce_readDir = (\<lambda>_. Ok [(''7'', True), (''8'', True)]),
     ce_stat = (\<lambda>_. None), ce_dial = (\<lambda>_. None),
     ce_main = (\<lambda>_ cc. case doCmd bad_env [] (cc_ServerType cc) (cc_Cmd cc) sample_manager of
        Some (Ok resp, m) \<Rightarrow> resp | _ \<Rightarrow> ErrorCmdResp eof_error),
     ce_rpc = (\<lambda>_. None), ce_answers = (\<lambda>_ t. t \<noteq> None), 
     ce_sort = (\<lambda>lt n. sort_key (\<lambda>i. length (filter (\<lambda>j. lt j i) [0 ..< n])) [0 ..< n]),
     ce_loc = (\<lambda>_. 0), ce_zone = (\<lambda>_. ''UTC''), ce_reads = (\<lambda>_. []), ce_defaults = (\<lambda>_. []), ce_helpCode = 2\<rparr>"

theorem client_returns_witness:
  "\<exists>code io'. client_main demo_env ''1.4'' (Ok ()) [''log'', ''-t'', ''1s''] no_io = Some (code, io')"
proof (rule client_returns)
  show "lookups_return demo_env" by (simp add: lookups_return_def demo_env_def is_Panic_def)
  have p: "flag_parse [help_flag, (''v'', BoolFlag), (''d'', BoolFlag)] [] [''log'', ''-t'', ''1s''] = Parsed [] [''log'', ''-t'', ''1s'']"
    by (rule flag_parse_positional) (simp add: positional_def)
  show "\<forall>vals rest. flag_parse [help_flag, (''v'', BoolFlag), (''d'', BoolFlag)] [] [''log'', ''-t'', ''1s''] \<noteq> Parsed vals (''test'' # rest)"
    unfolding p by simp
qed (simp add: is_Panic_def)

section \<open>Pausing, from end to end\<close>

text \<open>
  C27. \<open>jobber pause\<close> and \<open>jobber resume\<close>, from the command line to the job manager and back: if
  the user's process can be reached and its main thread answers the command, then either a name is
  no job's, nothing changes in the manager, and the client prints the manager's error and ends with
  1; or exactly the named jobs (all, if none is named) are left paused or resumed, and the client
  prints how many of them changed and ends with 0.
\<close>

theorem client_pause_spec:
  fixes names :: "string list"
  assumes "(b, run, cmd, word) \<in> {(True, client_pause, PauseCmd, ''Paused ''), (False, client_resume, ResumeCmd, ''Resumed '')}"
    "ce_user env = Ok usr" "reachable env (Some default_timeout) usr" "names = [] \<or> positional (hd names)"
    "jm_jfile m = Some jf" "doCmd jenv recs IpcServerTypeUds (cmd names) m = Some (Ok resp, m')"
    "ce_main env (Uid usr) \<lparr>cc_Cmd = cmd names, cc_ServerType = IpcServerTypeUds\<rparr> = resp"
  defines "targets \<equiv> if names = [] then map fst (jf_Jobs jf) else names"
  shows "if \<exists>n \<in> set targets. map_of (jf_Jobs jf) n = None
    then m' = m \<and> (\<exists>e. run env names io = Some (1, errln (gCallErrMgs e) (called usr (cmd names) io)))
    else run env names io =
        Some (0, outln (word @ nat_str (card (to_change b targets (jf_Jobs jf))) @ '' jobs.'') (called usr (cmd names) io)) \<and>
      (\<exists>jobs. m' = m\<lparr>jm_jfile := Some (jf\<lparr>jf_Jobs := jobs\<rparr>)\<rparr> \<and> map fst jobs = map fst (jf_Jobs jf) \<and>
        (\<forall>x. map_of jobs x = (if x \<in> set targets then map_option (\<lambda>j. j\<lparr>Paused := b\<rparr>) (map_of (jf_Jobs jf) x)
                              else map_of (jf_Jobs jf) x)))"
proof -
  note flags = flag_parse_positional [OF assms(4)]
  note call = CallDaemon_reachable [OF assms(3)]
  have t: "timeout_of [] = Some default_timeout" by (simp add: timeout_of_def dur_flag_def)
  define mk where "mk = (if b then PauseCmdResp else ResumeCmdResp)"
  define mgr where "mgr = (if b then doPauseCmd else doResumeCmd)"
  have mgr: "mgr names m = (Ok resp, m')" and set: "(b, mk, mgr) \<in> {(True, PauseCmdResp, doPauseCmd), (False, ResumeCmdResp, doResumeCmd)}"
    using assms(1,6) by (auto simp: mk_def mgr_def)
  have run: "run env names io =
      (case resp of
         ErrorCmdResp e \<Rightarrow> Some (1, errln (gCallErrMgs e) (called usr (cmd names) io))
       | _ \<Rightarrow> run env names io)"
    "resp = mk n \<Longrightarrow> run env names io = Some (0, outln (word @ nat_str n @ '' jobs.'') (called usr (cmd names) io))" for n
    using assms(1,2,7)
    by (auto simp: client_pause_def client_resume_def with_flags_def flags bool_flag_def with_user_def call_or_fail_def call t
        IpcService_Pause_def IpcService_Resume_def send_cmd_def mk_def split: ICmdResp.split)
  note spec = pause_spec [OF assms(5) set, of names, folded targets_def, unfolded mgr]
  show ?thesis
  proof (cases "\<exists>n \<in> set targets. map_of (jf_Jobs jf) n = None")
    case True
    then obtain e where "resp = ErrorCmdResp e" "m' = m" using spec by auto
    then show ?thesis using True run(1) by auto
  next
    case False
    let ?n = "card (to_change b targets (jf_Jobs jf))"
    have "resp = mk ?n \<and> (\<exists>jobs. m' = m\<lparr>jm_jfile := Some (jf\<lparr>jf_Jobs := jobs\<rparr>)\<rparr> \<and> map fst jobs = map fst (jf_Jobs jf) \<and>
        (\<forall>x. map_of jobs x = (if x \<in> set targets then map_option (\<lambda>j. j\<lparr>Paused := b\<rparr>) (map_of (jf_Jobs jf) x)
                              else map_of (jf_Jobs jf) x)))"
      using spec unfolding if_not_P [OF False] by blast
    then show ?thesis unfolding if_not_P [OF False] using run(2) [of ?n] by blast
  qed
qed

lemma demo_reachable: "reachable demo_env (Some t) usr"
  by (simp add: reachable_def demo_env_def)

theorem client_pause_spec_witness:
  "client_pause demo_env [] no_io =
     Some (0, outln ''Paused 1 jobs.'' (called sample_user (PauseCmd []) no_io))"
proof -
  have j: "jm_jfile sample_manager = Some sample_jobfile" "jf_Jobs sample_jobfile = [(''job'', empty_job)]"
    by (simp_all add: sample_manager_def sample_jobfile_def)
  have c: "to_change True [''job''] [(''job'', empty_job)] = {''job''}" by (auto simp: to_change_def empty_job_def)
  obtain resp m' where d: "doPauseCmd [] sample_manager = (Ok resp, m')"
    using pause_spec [OF j(1), of True PauseCmdResp doPauseCmd "[]"] by (auto split: if_splits)
  have "ce_main demo_env (Uid sample_user) \<lparr>cc_Cmd = PauseCmd [], cc_ServerType = IpcServerTypeUds\<rparr> = resp"
    "ce_user demo_env = Ok sample_user"
    by (simp_all add: demo_env_def d)
  moreover have one: "nat_str (Suc 0) = ''1''" by code_simp
  moreover have "doCmd bad_env [] IpcServerTypeUds (PauseCmd []) sample_manager = Some (Ok resp, m')" by (simp add: d)
  ultimately show ?thesis
    using client_pause_spec [where b = True and run = client_pause and cmd = PauseCmd and word = "''Paused ''" and env = demo_env
        and usr = sample_user and names = "[]" and m = sample_manager and jf = sample_jobfile and jenv = bad_env and recs = "[]"
        and resp = resp and m' = m' and io = no_io] demo_reachable j(1)
    by (simp add: j(2) c one)
qed

section \<open>The table of runs\<close>

text \<open>The text of a table: cells joined by tabs, lines by line feeds.\<close>

definition table_text :: "string list list \<Rightarrow> string" where
  "table_text rows = Join (map (\<lambda>r. Join r tab) rows) [CHR 0x0A]"

lemma plain_Join: "(\<And>p. p \<in> set ps \<Longrightarrow> c \<notin> set p) \<Longrightarrow> c \<noteq> d \<Longrightarrow> c \<notin> set (Join ps [d])"
  by (induction ps "[d]" rule: Join.induct) auto

lemma tabwrite_table:
  assumes "rows \<noteq> []" "\<forall>r \<in> set rows. length r = n" "0 < n"
    "\<forall>r \<in> set rows. \<forall>c \<in> set r. CHR 0x09 \<notin> set c \<and> CHR 0x0A \<notin> set c"
  shows "tabwrite tw (table_text rows) = Join (map (write_line (table_widths tw 0 n rows)) rows) [CHR 0x0A]"
proof -
  have lf: "CHR 0x0A \<notin> set (Join r tab)" if "r \<in> set rows" for r
    using assms(4) that by (intro plain_Join) auto
  have "Split (table_text rows) [CHR 0x0A] = map (\<lambda>r. Join r tab) rows"
    unfolding table_text_def using assms(1) lf by (intro Split_Join_char) auto
  moreover have "Split (Join r tab) tab = r" if "r \<in> set rows" for r
    using assms(2-4) that by (intro Split_Join_char) auto
  then have "map (\<lambda>l. Split l tab) (map (\<lambda>r. Join r tab) rows) = rows"
    by (simp add: map_idI)
  ultimately show ?thesis using tab_format_table [of rows n "[]" tw] assms(1-3) by (simp add: tabwrite_def)
qed

text \<open>What package sort promises, for a \<open>Less\<close> that is a strict weak order.\<close>

definition weak_order :: "(nat \<Rightarrow> nat \<Rightarrow> bool) \<Rightarrow> nat \<Rightarrow> bool" where
  "weak_order lt n \<longleftrightarrow> (\<forall>i < n. \<not> lt i i) \<and> (\<forall>i < n. \<forall>j < n. \<forall>k < n. lt i j \<longrightarrow> lt j k \<longrightarrow> lt i k) \<and>
     (\<forall>i < n. \<forall>j < n. \<forall>k < n. \<not> lt i j \<longrightarrow> \<not> lt j k \<longrightarrow> \<not> lt i k)"

definition sorts :: "((nat \<Rightarrow> nat \<Rightarrow> bool) \<Rightarrow> nat \<Rightarrow> nat list) \<Rightarrow> bool" where
  "sorts srt \<longleftrightarrow> (\<forall>lt n. weak_order lt n \<longrightarrow>
     mset (srt lt n) = mset [0 ..< n] \<and> sorted_wrt (\<lambda>i j. \<not> lt j i) (srt lt n))"

text \<open>The order in which the entries of a log are printed.\<close>

lemma sorted_logs:
  assumes "sorts (ce_sort env)"
  shows "\<exists>sorted. sort_Sort env LogDescSorter_Less (map logDesc entries) = map logDesc sorted \<and>
    mset sorted = mset entries \<and> sorted_wrt (\<lambda>a b. RunLogTime b \<le> RunLogTime a) sorted"
proof -
  let ?n = "length entries"
  let ?lt = "LogDescSorter_Less (map logDesc entries)"
  let ?is = "ce_sort env ?lt ?n"
  have later: "?lt i j \<longleftrightarrow> RunLogTime (entries ! j) < RunLogTime (entries ! i)" if "i < ?n" "j < ?n" for i j
    using that by (simp add: LogDescSorter_Less_def After_def logDesc_def)
  have "weak_order ?lt ?n" by (simp add: weak_order_def later)
  then have m: "mset ?is = mset [0 ..< ?n]" and s: "sorted_wrt (\<lambda>i j. \<not> ?lt j i) ?is"
    using assms by (simp_all add: sorts_def)
  have b: "set ?is = {0 ..< ?n}" using mset_eq_setD [OF m] by simp
  let ?sorted = "map ((!) entries) ?is"
  have "sort_Sort env LogDescSorter_Less (map logDesc entries) = map logDesc ?sorted"
    using b by (simp add: sort_Sort_def)
  moreover have "mset ?sorted = mset (map ((!) entries) [0 ..< ?n])" using m by simp
  then have "mset ?sorted = mset entries" by (simp add: map_nth)
  moreover have "sorted_wrt (\<lambda>i j. RunLogTime (entries ! j) \<le> RunLogTime (entries ! i)) ?is"
    using s by (rule sorted_wrt_mono_rel [rotated]) (simp add: b later not_less)
  then have "sorted_wrt (\<lambda>a b. RunLogTime b \<le> RunLogTime a) ?sorted" by (simp add: sorted_wrt_map)
  ultimately show ?thesis by blast
qed

text \<open>
  The row of an entry: when the run started, its job, how it ended, how long it took, to the second, and
  what the job's status was then; a last empty cell ends the row.
\<close>

definition log_row :: "location \<Rightarrow> RunLogEntry \<Rightarrow> string list" where
  "log_row loc e =
     [format_time loc (RunLogTime e), JobName e,
      (case Fate e of SubprocFateSucceeded \<Rightarrow> ''succeeded'' | SubprocFateFailed \<Rightarrow> ''failed'' | SubprocFateCancelled \<Rightarrow> ''cancelled''),
      Duration_String (Duration_Round (ExecTime e) Second_dur),
      (case RunResult e of JobGood \<Rightarrow> ''Good'' | JobBackoff \<Rightarrow> ''Backoff'' | JobFailed \<Rightarrow> ''Failed''), []]"

definition log_rows :: "location \<Rightarrow> RunLogEntry list \<Rightarrow> string list list" where
  "log_rows loc entries = [''TIME'', ''JOB'', ''RESULT'', ''EXECTIME'', ''NEW JOB STATUS'', []] # map (log_row loc) entries"

definition plain_cells :: "location \<Rightarrow> RunLogEntry list \<Rightarrow> bool" where
  "plain_cells loc entries \<longleftrightarrow> (\<forall>e \<in> set entries. \<forall>c \<in> set (log_row loc e). CHR 0x09 \<notin> set c \<and> CHR 0x0A \<notin> set c)"

lemma log_row_fields: "log_fields env (logDesc e) @ [[]] = log_row (ce_loc env) e"
  by (simp add: log_fields_def logDesc_def log_row_def split: SubprocFate.splits JobStatus.splits)

lemma format_logs_table:
  assumes "entries \<noteq> []" "plain_cells (ce_loc env) entries"
  defines "rows \<equiv> log_rows (ce_loc env) entries"
  shows "format_logs env (map logDesc entries) = Join (map (write_line (table_widths client_tabwriter 0 6 rows)) rows) [CHR 0x0A]"
proof -
  have "Join (r # rs) [CHR 0x0A] = r @ [CHR 0x0A] @ Join rs [CHR 0x0A]" if "rs \<noteq> []" for r rs
    using that by (cases rs) simp_all
  then have "format_logs env (map logDesc entries) = tabwrite client_tabwriter (table_text rows)"
    using assms(1) by (simp add: format_logs_def table_text_def rows_def log_rows_def comp_def log_row_fields)
  also have "\<dots> = Join (map (write_line (table_widths client_tabwriter 0 6 rows)) rows) [CHR 0x0A]"
    using assms(2) by (intro tabwrite_table) (auto simp: rows_def log_rows_def plain_cells_def log_row_def)
  finally show ?thesis .
qed

text \<open>
  C28. \<open>jobber log\<close>, from the run log of the job manager to the screen: if the user's process can
  be reached and its main thread answers, package sort sorts, and the log has entries whose texts have no tabs or line
  feeds, the client prints a table with a header and one row for each entry of the log, the latest
  first, with the cells that \<open>log_row\<close> names, every cell padded to the width of its column, and ends with 0.
\<close>

theorem client_log_spec:
  assumes "ce_user env = Ok usr" "reachable env (Some default_timeout) usr" "sorts (ce_sort env)"
    "jm_jfile m = Some jf" "RunLog_GetAll (RunLogPref (jf_Prefs jf)) (w_os (jm_world m)) = (Ok entries, os)"
    "fst (doLogCmd m) = Ok resp" "ce_main env (Uid usr) \<lparr>cc_Cmd = LogCmd, cc_ServerType = IpcServerTypeUds\<rparr> = resp"
    "entries \<noteq> []" "plain_cells (ce_loc env) entries"
  shows "\<exists>sorted. mset sorted = mset entries \<and> sorted_wrt (\<lambda>a b. RunLogTime b \<le> RunLogTime a) sorted \<and>
    client_log env [] io = Some (0, outln (Join (map (write_line (table_widths client_tabwriter 0 6 (log_rows (ce_loc env) sorted)))
      (log_rows (ce_loc env) sorted)) [CHR 0x0A]) (called usr LogCmd io))"
proof -
  obtain sorted where sorted: "sort_Sort env LogDescSorter_Less (map logDesc entries) = map logDesc sorted"
      "mset sorted = mset entries" "sorted_wrt (\<lambda>a b. RunLogTime b \<le> RunLogTime a) sorted"
    using sorted_logs [OF assms(3), of entries] by blast
  have "resp = LogCmdResp (map logDesc entries)"
    using assms(4-6) by (simp add: doLogCmd_def with_jfile_def)
  moreover have t: "timeout_of [] = Some default_timeout" by (simp add: timeout_of_def dur_flag_def)
  ultimately have "client_log env [] io = Some (0, outln (format_logs env (map logDesc sorted)) (called usr LogCmd io))"
    using assms(1,7,8)
    by (simp add: client_log_def with_flags_def bool_flag_def doLogCmd_currUser_def with_user_def call_or_fail_def
        CallDaemon_reachable [OF assms(2)] IpcService_Log_def send_cmd_def sorted(1))
  moreover have "set sorted = set entries" using mset_eq_setD [OF sorted(2)] .
  then have "sorted \<noteq> []" "plain_cells (ce_loc env) sorted" using assms(8,9) by (auto simp: plain_cells_def)
  ultimately show ?thesis using sorted(2,3) format_logs_table by metis
qed

text \<open>Two entries, the older one first in the log.\<close>

definition run_entry :: "go_time \<Rightarrow> RunLogEntry" where
  "run_entry t = \<lparr>JobName = ''job'', RunLogTime = t, Fate = SubprocFateSucceeded, RunResult = JobGood, ExecTime = 0\<rparr>"

definition log_manager :: JobManager where
  "log_manager = sample_manager\<lparr>jm_jfile := Some (with_log
     (MemLog \<lparr>mem_entries = [run_entry 0, run_entry Second_dur], mem_cap = 100\<rparr>) sample_jobfile)\<rparr>"

definition log_env :: client_env where
  "log_env = demo_env\<lparr>ce_main := (\<lambda>_ cc. case doLogCmd log_manager of (Ok resp, m) \<Rightarrow> resp | _ \<Rightarrow> ErrorCmdResp eof_error)\<rparr>"

text \<open>Sorting by the number of elements that are less.\<close>

lemma rank_sorts: "sorts (\<lambda>lt n. sort_key (\<lambda>i. length (filter (\<lambda>j. lt j i) [0 ..< n])) [0 ..< n])"
  unfolding sorts_def
proof (intro allI impI conjI)
  fix lt :: "nat \<Rightarrow> nat \<Rightarrow> bool" and n
  assume w: "weak_order lt n"
  let ?rank = "\<lambda>i. length (filter (\<lambda>j. lt j i) [0 ..< n])"
  show "mset (sort_key ?rank [0 ..< n]) = mset [0 ..< n]" by simp
  have card: "?rank i = card {j. j < n \<and> lt j i}" for i
    using distinct_card [of "filter (\<lambda>j. lt j i) [0 ..< n]"] by (simp add: atLeast0LessThan Collect_conj_eq lessThan_def)
  have "?rank j < ?rank i" if "i < n" "j < n" "lt j i" for i j
  proof -
    have trans: "lt k i" if "k < n" "lt k j" for k
      using w that \<open>i < n\<close> \<open>j < n\<close> \<open>lt j i\<close> unfolding weak_order_def by blast
    have "\<not> lt j j" using w \<open>j < n\<close> unfolding weak_order_def by blast
    then have "{k. k < n \<and> lt k j} \<subset> {k. k < n \<and> lt k i}" using trans \<open>j < n\<close> \<open>lt j i\<close> by blast
    then show ?thesis unfolding card by (rule psubset_card_mono [rotated]) simp
  qed
  then have le: "\<not> lt j i" if "i < n" "j < n" "?rank i \<le> ?rank j" for i j using that by (meson not_less)
  have "sorted_wrt (\<lambda>i j. ?rank i \<le> ?rank j) (sort_key ?rank [0 ..< n])"
    using sorted_sort_key [of ?rank "[0 ..< n]"] unfolding sorted_wrt_map .
  then show "sorted_wrt (\<lambda>i j. \<not> lt j i) (sort_key ?rank [0 ..< n])"
  proof (rule sorted_wrt_mono_rel [rotated])
    show "\<not> lt j i" if "i \<in> set (sort_key ?rank [0 ..< n])" "j \<in> set (sort_key ?rank [0 ..< n])" "?rank i \<le> ?rank j" for i j
      using that(1,2) by (intro le that(3)) simp_all
  qed
qed

lemma log_env_sorts: "sorts (ce_sort log_env)"
  using rank_sorts by (simp add: log_env_def demo_env_def)

theorem client_log_spec_witness:
  "\<exists>logs. mset logs = mset [run_entry Second_dur, run_entry 0] \<and> sorted_wrt (\<lambda>a b. RunLogTime b \<le> RunLogTime a) logs \<and>
     client_log log_env [] no_io = Some (0, outln (Join (map (write_line (table_widths client_tabwriter 0 6 (log_rows (ce_loc log_env) logs)))
       (log_rows (ce_loc log_env) logs)) [CHR 0x0A]) (called sample_user LogCmd no_io))"
proof -
  have j: "jm_jfile log_manager = Some (with_log (MemLog \<lparr>mem_entries = [run_entry 0, run_entry Second_dur], mem_cap = 100\<rparr>) sample_jobfile)"
    by (simp add: log_manager_def)
  have g: "RunLog_GetAll (RunLogPref (jf_Prefs (with_log (MemLog \<lparr>mem_entries = [run_entry 0, run_entry Second_dur], mem_cap = 100\<rparr>) sample_jobfile)))
      (w_os (jm_world log_manager)) = (Ok [run_entry Second_dur, run_entry 0], w_os (jm_world log_manager))"
    by (simp add: RunLog_GetAll_def with_log_def mem_GetAll_def reverseEntryArray_def)
  have r: "reachable log_env (Some default_timeout) sample_user" "ce_user log_env = Ok sample_user"
    by (simp_all add: reachable_def log_env_def demo_env_def)
  have d: "fst (doLogCmd log_manager) = Ok (LogCmdResp (map logDesc [run_entry Second_dur, run_entry 0]))"
    unfolding doLogCmd_def with_jfile_def j using g by simp
  have mn: "ce_main log_env (Uid sample_user) \<lparr>cc_Cmd = LogCmd, cc_ServerType = IpcServerTypeUds\<rparr> =
      LogCmdResp (map logDesc [run_entry Second_dur, run_entry 0])"
    using d by (cases "doLogCmd log_manager") (simp add: log_env_def)
  have parts: "Month_of (\<lambda>_. 0) 0 = 1" "Day_of (\<lambda>_. 0) 0 = 1" "Hour_of (\<lambda>_. 0) 0 = 0"
      "Minute_of (\<lambda>_. 0) 0 = 0" "Second_of (\<lambda>_. 0) 0 = 0" "Year_of (\<lambda>_. 0) 0 = 1970"
      "Month_of (\<lambda>_. 0) Second_dur = 1" "Day_of (\<lambda>_. 0) Second_dur = 1" "Hour_of (\<lambda>_. 0) Second_dur = 0"
      "Minute_of (\<lambda>_. 0) Second_dur = 0" "Second_of (\<lambda>_. 0) Second_dur = 1" "Year_of (\<lambda>_. 0) Second_dur = 1970"
    by (simp_all add: Month_of_def Day_of_def Hour_of_def Minute_of_def Second_of_def Year_of_def wall_day_def wall_sec_def
        Unix_def Second_dur_def civil_def day_of_year_def year_of_era_def day_of_era_def)
  have pads: "pad_num CHR '' '' 2 1 = '' 1''" "pad_num CHR ''0'' 2 0 = ''00''" "pad_num CHR ''0'' 2 1 = ''01''" "pad_num CHR ''0'' 4 1970 = ''1970''"
    by code_simp+
  have f: "format_time (\<lambda>_. 0) 0 = ''Jan  1 00:00:00 1970''" "format_time (\<lambda>_. 0) Second_dur = ''Jan  1 00:00:01 1970''"
    by (simp_all add: format_time_def month_abbrevs_def parts pads)
  have r0: "Duration_String (Duration_Round 0 Second_dur) = ''0s''"
    by (simp add: Duration_Round_def Second_dur_def Duration_String_def duration_units_def)
  have plain: "plain_cells (ce_loc log_env) [run_entry Second_dur, run_entry 0]"
    by (simp add: f r0 plain_cells_def log_env_def demo_env_def log_row_def run_entry_def)
  show ?thesis
    using client_log_spec [OF r(2,1) log_env_sorts j g d mn list.distinct(2) plain, of no_io] by blast
qed

section \<open>Commands for all users\<close>

text \<open>What a call gives, and whether it gets as far as sending its command.\<close>

definition answer :: "client_env \<Rightarrow> (main_thread \<Rightarrow> IpcService \<Rightarrow> 'r outcome) \<Rightarrow> duration option \<Rightarrow> user \<Rightarrow> 'r outcome" where
  "answer env rpcMethod timeout usr =
     (case CallDaemon env rpcMethod ReloadCmd usr timeout no_io of Some (r, io) \<Rightarrow> r | None \<Rightarrow> Panic [])"

definition sends :: "client_env \<Rightarrow> user \<Rightarrow> bool" where
  "sends env usr \<longleftrightarrow>
     ce_stat env (CmdSocketPath (ce_globals env) usr) = None \<and> ce_dial env (CmdSocketPath (ce_globals env) usr) = None"

definition calls_of :: "client_env \<Rightarrow> ICmd \<Rightarrow> user list \<Rightarrow> (string \<times> ICmd) list" where
  "calls_of env cmd users = map (\<lambda>u. (Uid u, cmd)) (filter (sends env) users)"

lemma CallDaemon_answer:
  assumes "timeout \<noteq> None"
  shows "CallDaemon env rpcMethod cmd usr timeout io =
    Some (answer env rpcMethod timeout usr, io\<lparr>co_calls := co_calls io @ calls_of env cmd [usr]\<rparr>)"
  using assms
  by (cases io) (auto simp: CallDaemon_def answer_def calls_of_def sends_def Let_def split: option.splits outcome.splits)

lemma answer_no_panic: "timeout \<noteq> None \<Longrightarrow> \<not> is_Panic (answer env rpcMethod timeout usr)"
  using CallDaemon_returns [of timeout env rpcMethod ReloadCmd usr no_io] by (auto simp: answer_def)

lemma calls_of_simps: "calls_of env cmd [] = []" "calls_of env cmd (u # us) = calls_of env cmd [u] @ calls_of env cmd us"
  by (simp_all add: calls_of_def)

lemma list_users_eq:
  assumes "timeout \<noteq> None"
  shows "\<exists>io'. list_users env timeout users io =
      Some (List.map_filter (\<lambda>u. case answer env IpcService_ListJobs timeout u of Ok r \<Rightarrow> Some \<lparr>lr_usr = u, lr_resp = r\<rparr> | _ \<Rightarrow> None) users, io') \<and>
    co_out io' = co_out io \<and> co_calls io' = co_calls io @ calls_of env ListJobsCmd users"
proof (induction users arbitrary: io)
  case Nil
  then show ?case by (simp add: List.map_filter_def calls_of_simps)
next
  case (Cons u us)
  note call = CallDaemon_answer [OF assms, of env IpcService_ListJobs ListJobsCmd u io]
  show ?case
  proof (cases "answer env IpcService_ListJobs timeout u")
    case (Ok r)
    then show ?thesis using Cons [of "io\<lparr>co_calls := co_calls io @ calls_of env ListJobsCmd [u]\<rparr>"] call
      by (auto simp: List.map_filter_def calls_of_simps(2) [of _ _ u us])
  next
    case (Fail e)
    then show ?thesis
      using Cons [of "errln (''Failed to list jobs for '' @ Username u @ '': '' @ Error_Error e) (io\<lparr>co_calls := co_calls io @ calls_of env ListJobsCmd [u]\<rparr>)"] call
      by (auto simp: List.map_filter_def calls_of_simps(2) [of _ _ u us] errln_def)
  next
    case (Panic p)
    then show ?thesis using answer_no_panic [OF assms, of env IpcService_ListJobs u] by (simp add: is_Panic_def)
  qed
qed

text \<open>The users up to and with the first whose process fails.\<close>

fun up_to_failure :: "('u \<Rightarrow> bool) \<Rightarrow> 'u list \<Rightarrow> 'u list" where
  "up_to_failure good [] = []"
| "up_to_failure good (u # us) = u # (if good u then up_to_failure good us else [])"

lemma reload_users_eq:
  fixes env :: client_env and timeout :: "duration option"
  assumes "timeout \<noteq> None"
  defines "good \<equiv> \<lambda>u. is_Ok (answer env IpcService_Reload timeout u)"
  shows "\<exists>io'. reload_users env timeout users io = Some (if list_all good users then 0 else 1, io') \<and>
    co_calls io' = co_calls io @ calls_of env ReloadCmd (up_to_failure good users)"
proof (induction users arbitrary: io)
  case Nil
  then show ?case by (simp add: calls_of_simps)
next
  case (Cons u us)
  note call = CallDaemon_answer [OF assms(1), of env IpcService_Reload ReloadCmd u io]
  note cs = calls_of_simps(2) [of env ReloadCmd u "up_to_failure good us"]
  show ?case
  proof (cases "answer env IpcService_Reload timeout u")
    case (Ok n)
    then show ?thesis
      using Cons [of "outln (''Loaded '' @ nat_str n @ '' jobs for '' @ ce_fullName env u @ ''.'') (io\<lparr>co_calls := co_calls io @ calls_of env ReloadCmd [u]\<rparr>)"] call cs
      by (auto simp: call_or_fail_def good_def is_Ok_def outln_def out_def)
  next
    case (Fail e)
    then show ?thesis using call by (simp add: call_or_fail_def good_def is_Ok_def errln_def)
  next
    case (Panic p)
    then show ?thesis using answer_no_panic [OF assms(1), of env IpcService_Reload u] by (simp add: is_Panic_def)
  qed
qed

text \<open>
  C36. The commands for all users: \<open>jobber list -a\<close> asks every user's process and shows the jobs of
  all those that answer, in order, whatever the others do, and ends with 0. \<open>jobber reload -a\<close>
  stops at the first process that fails: the job files of the users after it are not reloaded, and
  it ends with 1.
\<close>

theorem all_users_spec:
  fixes env :: client_env
  assumes "AllUsersWithSockets (ce_lookupId env) (ce_readDir env) (ce_globals env) = Ok users"
  defines "t \<equiv> Some default_timeout"
  defines "good \<equiv> \<lambda>u. is_Ok (answer env IpcService_Reload t u)"
  shows "(\<exists>io'. client_list env [''-a''] io = Some (0, outln (formatResponseRecs env (List.map_filter
        (\<lambda>u. case answer env IpcService_ListJobs t u of Ok r \<Rightarrow> Some \<lparr>lr_usr = u, lr_resp = r\<rparr> | _ \<Rightarrow> None) users) True) io') \<and>
      co_out io' = co_out io \<and> co_calls io' = co_calls io @ calls_of env ListJobsCmd users) \<and>
    (\<exists>io'. client_reload env [''-a''] io = Some (if list_all good users then 0 else 1, io') \<and>
      co_calls io' = co_calls io @ calls_of env ReloadCmd (up_to_failure good users))"
proof -
  have a: "flag_parse [help_flag, all_flag, timeout_flag] [] [''-a''] = Parsed [(''a'', FBool True)] []"
    using flag_parse_bool [of "CHR ''a''" "[help_flag, all_flag, timeout_flag]" "[]" "[]"] by simp
  have v: "bool_flag [(''a'', FBool True)] ''h'' = False" "bool_flag [(''a'', FBool True)] ''a'' = True"
    "timeout_of [(''a'', FBool True)] = t"
    by (simp_all add: bool_flag_def timeout_of_def dur_flag_def t_def)
  have t: "t \<noteq> None" by (simp add: t_def)
  show ?thesis
    using list_users_eq [OF t, of env users io] reload_users_eq [OF t, of env users io]
    by (auto simp: client_list_def client_reload_def with_flags_def a v with_users_def assms(1) good_def)
qed

theorem all_users_spec_witness:
  "AllUsersWithSockets (ce_lookupId demo_env) (ce_readDir demo_env) (ce_globals demo_env) = Ok [sample_user, sample_user] \<and>
   (\<exists>io' s. client_list demo_env [''-a''] no_io = Some (0, outln s io') \<and>
      co_calls io' = [(''7'', ListJobsCmd), (''7'', ListJobsCmd)])"
proof -
  have users: "AllUsersWithSockets (ce_lookupId demo_env) (ce_readDir demo_env) (ce_globals demo_env) = Ok [sample_user, sample_user]"
    by (simp add: AllUsersWithSockets_def demo_env_def List.map_filter_def)
  have "calls_of demo_env ListJobsCmd [sample_user, sample_user] = [(''7'', ListJobsCmd), (''7'', ListJobsCmd)]"
    by (simp add: calls_of_def sends_def demo_env_def sample_user_def)
  then show ?thesis using users all_users_spec [OF users, of no_io] by (auto simp: no_io_def)
qed

end
