(* ===== verification/Runner_Main.thy ===== *)
theory Runner_Main
  imports Job_Manager_Spec Settings
begin

text \<open>
  The process that runs a user's jobs (\<open>jobberrunner/main.go\<close>): it checks its arguments, makes the
  settings, launches the job manager and the server for commands, and quits when the manager ends,
  a signal comes, or the master closes the quit socket.

  Parsing the command line is a third-party package, so the parsed arguments are given. What the
  manager's main thread does until it has ended is an argument too (\<open>runMainThread\<close> of
  \<open>Job_Manager\<close>); it gives \<^term>\<open>None\<close> if that never ends. What makes the process quit first is the
  argument \<open>cause\<close>. \<open>quit\<close> may be called again while it waits for the manager, by \<open>main\<close>, which waits for
  the same, or by a signal: whether another call gets as far as stopping the server, or exits the process
  first, is \<open>re_race\<close>.

  The second part is the shutdown in every interleaving: the methods of the service send on the
  command channel, which the manager's main thread closes when it ends.
\<close>

section \<open>The process\<close>

record argsS =
  ra_QuitSocket :: "string option"
  ra_UnixSocket :: "string option"
  ra_TcpPort :: "nat option"
  ra_TempDir :: "string option"
  ra_JobfilePath :: string
  ra_Debug :: bool

datatype ipc_server = UdsServer udsIpcServer | InetServer inetIpcServer

text \<open>The process's variables. Once there is a manager, the world is the manager's.\<close>

record runner_proc =
  gIpcServer :: "ipc_server option"
  gJobManager :: "JobManager option"
  jr_world :: world
  jr_stderr :: string

definition proc_world :: "runner_proc \<Rightarrow> world" where
  "proc_world s = (case gJobManager s of None \<Rightarrow> jr_world s | Some m \<Rightarrow> jm_world m)"

definition set_world :: "world \<Rightarrow> runner_proc \<Rightarrow> runner_proc" where
  "set_world w s =
     (case gJobManager s of
        None \<Rightarrow> s\<lparr>jr_world := w\<rparr> | Some m \<Rightarrow> s\<lparr>gJobManager := Some (m\<lparr>jm_world := w\<rparr>)\<rparr>)"

definition with_world :: "(world \<Rightarrow> world) \<Rightarrow> runner_proc \<Rightarrow> runner_proc" where
  "with_world f s = set_world (f (proc_world s)) s"

type_synonym manager_run = "JobManager \<Rightarrow> (unit outcome \<times> JobManager) option"

definition ipc_Launch :: "net_env \<Rightarrow> ipc_server \<Rightarrow> os \<Rightarrow> unit outcome \<times> ipc_server \<times> os" where
  "ipc_Launch net srv os =
     (case srv of
        UdsServer u \<Rightarrow> (case uds_Launch net u os of (r, u1, os1) \<Rightarrow> (r, UdsServer u1, os1))
      | InetServer i \<Rightarrow> (case inet_Launch net i of (r, i1) \<Rightarrow> (r, InetServer i1, os)))"

definition ipc_Stop :: "ipc_server \<Rightarrow> os \<Rightarrow> unit outcome \<times> ipc_server \<times> os" where
  "ipc_Stop srv os =
     (case srv of
        UdsServer u \<Rightarrow> (case uds_Stop u os of (u1, os1) \<Rightarrow> (Ok (), UdsServer u1, os1))
      | InetServer i \<Rightarrow> (case inet_Stop i of (r, i1) \<Rightarrow> (r, InetServer i1, os)))"

text \<open>\<open>quit\<close>: the server is stopped, the manager is cancelled and waited for, the process exits.\<close>

definition stop_server :: "runner_proc \<Rightarrow> unit outcome \<times> runner_proc" where
  "stop_server s =
     (case gIpcServer s of
        None \<Rightarrow> (Ok (), s)
      | Some srv \<Rightarrow>
          (case ipc_Stop srv (w_os (proc_world s)) of
             (r, srv1, os) \<Rightarrow> (r, (with_world (\<lambda>w. w\<lparr>w_os := os\<rparr>) s)\<lparr>gIpcServer := Some srv1\<rparr>)))"

definition quit :: "manager_run \<Rightarrow> int \<Rightarrow> runner_proc \<Rightarrow> (int outcome \<times> runner_proc) option" where
  "quit mgr exitCode s =
     (case stop_server s of
        (Ok _, s1) \<Rightarrow>
          (case gJobManager s1 of
             None \<Rightarrow> Some (Ok exitCode, s1)
           | Some m \<Rightarrow>
               (case mgr m of
                  None \<Rightarrow> None
                | Some (Panic p, m1) \<Rightarrow> Some (Panic p, s1\<lparr>gJobManager := Some m1\<rparr>)
                | Some (_, m1) \<Rightarrow> Some (Ok exitCode, s1\<lparr>gJobManager := Some m1\<rparr>)))
      | (Fail e, s1) \<Rightarrow> Some (Fail e, s1)
      | (Panic p, s1) \<Rightarrow> Some (Panic p, s1))"

text \<open>Why the process quits, with the exit code (\<open>quitOnSignal\<close>, \<open>quitOnJobbermasterDiscon\<close>, the end of \<open>main\<close>).\<close>

datatype quit_cause = ManagerEnded | Signalled | MasterClosed | ResolveFailed error | DialFailed error

definition quit_code :: "quit_cause \<Rightarrow> int" where
  "quit_code cause = (case cause of ResolveFailed e \<Rightarrow> 1 | DialFailed e \<Rightarrow> 1 | _ \<Rightarrow> 0)"

definition quitOnJobbermasterDiscon :: "string \<Rightarrow> quit_cause \<Rightarrow> world \<Rightarrow> world" where
  "quitOnJobbermasterDiscon quitSockPath cause w =
     (let w1 = log_out (''jobbermaster quit socket: '' @ quitSockPath) w in
      case cause of
        ResolveFailed e \<Rightarrow> log_err (''ResolveUnixAddr failed on '' @ quitSockPath @ '': '' @ Error_Error e) w1
      | DialFailed e \<Rightarrow> log_err (''DialUnix failed on '' @ quitSockPath @ '': '' @ Error_Error e) w1
      | _ \<Rightarrow> w1)"

text \<open>What \<open>main\<close> writes to standard error for the first thing that is wrong with the arguments.\<close>

definition check_args :: "argsS \<Rightarrow> string option" where
  "check_args args =
     (if ra_UnixSocket args \<noteq> None \<and> ra_TcpPort args \<noteq> None
      then Some (''Must specify at most one of --unixsocket or --tcpport'' @ [CHR 0x0A])
      else if ra_UnixSocket args = Some [] then Some (''Unix socket path cannot be empty'' @ [CHR 0x0A])
      else if ra_QuitSocket args = Some [] then Some (''Quit socket path cannot be empty'' @ [CHR 0x0A])
      else if ra_TempDir args = Some [] then Some (''Temp dir path cannot be empty'' @ [CHR 0x0A])
      else if ra_TcpPort args = Some 0 then Some (''TCP port cannot be zero'' @ [CHR 0x0A])
      else if ra_JobfilePath args = [] then Some ''Jobfile path cannot be empty''
      else None)"

datatype quit_race = OnlyOne | OtherStops | OtherExits

record runner_env =
  re_yaml :: "string \<Rightarrow> prefs outcome"
  re_globals :: globals
  re_user :: "user outcome"
  re_jm :: jm_env
  re_net :: net_env
  re_race :: quit_race

definition new_server :: "argsS \<Rightarrow> (ipc_server \<times> string) option" where
  "new_server args =
     (case ra_UnixSocket args of
        Some p \<Rightarrow> Some (UdsServer (NewUdsIpcServer p), ''Listening for commands on '' @ p)
      | None \<Rightarrow>
          (case ra_TcpPort args of
             Some port \<Rightarrow> Some (InetServer (NewInetIpcServer port), ''Listening for commands on :'' @ nat_str port)
           | None \<Rightarrow> None))"

text \<open>
  The end of \<open>main\<close>, once the manager and the server are running. Without a quit socket nothing waits for
  it. The other call of \<open>quit\<close> is one with 0; it stops the server again, and finds the manager ended.
\<close>

definition quit_again :: "quit_race \<Rightarrow> (int outcome \<times> runner_proc) option \<Rightarrow> (int outcome \<times> runner_proc) option" where
  "quit_again race r =
     (case r of
        Some (Ok code, s) \<Rightarrow>
          if race = OnlyOne then r
          else (case stop_server s of
                  (Ok _, s1) \<Rightarrow> Some (Ok (if race = OtherExits then 0 else code), s1)
                | (Fail e, s1) \<Rightarrow> Some (Fail e, s1)
                | (Panic p, s1) \<Rightarrow> Some (Panic p, s1))
      | _ \<Rightarrow> r)"

definition serve_until :: "manager_run \<Rightarrow> quit_race \<Rightarrow> argsS \<Rightarrow> quit_cause \<Rightarrow> runner_proc \<Rightarrow> (int outcome \<times> runner_proc) option" where
  "serve_until mgr race args cause s =
     quit_again race
       (case ra_QuitSocket args of
          None \<Rightarrow> quit mgr 0 s
        | Some p \<Rightarrow> quit mgr (quit_code cause) (with_world (quitOnJobbermasterDiscon p cause) s))"

definition launch_server :: "manager_run \<Rightarrow> runner_env \<Rightarrow> argsS \<Rightarrow> quit_cause \<Rightarrow> runner_proc \<Rightarrow> (int outcome \<times> runner_proc) option" where
  "launch_server mgr env args cause s =
     (case new_server args of
        None \<Rightarrow> serve_until mgr (re_race env) args cause s
      | Some (srv, msg) \<Rightarrow>
          let s1 = with_world (log_out msg) s in
          (case ipc_Launch (re_net env) srv (w_os (proc_world s1)) of
             (r, srv1, os) \<Rightarrow>
               let s2 = (with_world (\<lambda>w. w\<lparr>w_os := os\<rparr>) s1)\<lparr>gIpcServer := Some srv1\<rparr> in
               (case r of
                  Ok _ \<Rightarrow> serve_until mgr (re_race env) args cause s2
                | Fail e \<Rightarrow> quit mgr 1 (with_world (log_err (''Error: '' @ Error_Error e)) s2)
                | Panic p \<Rightarrow> Some (Panic p, s2))))"

definition runner_main :: "manager_run \<Rightarrow> runner_env \<Rightarrow> argsS \<Rightarrow> quit_cause \<Rightarrow> world \<Rightarrow> (int outcome \<times> runner_proc) option" where
  "runner_main mgr env args cause w =
     (let start = (\<lambda>w. \<lparr>gIpcServer = None, gJobManager = None, jr_world = w, jr_stderr = []\<rparr>) in
      case check_args args of
        Some msg \<Rightarrow> quit mgr 1 ((start w)\<lparr>jr_stderr := msg\<rparr>)
      | None \<Rightarrow>
          (case InitSettings (re_yaml env) \<lparr>p_VarDir = None, p_LibexecDir = None, p_TempDir = ra_TempDir args, p_EtcDir = None\<rparr>
              (re_globals env) w of
             (Fail e, g, w1) \<Rightarrow> Some (Ok 1, start (log_err (Error_Error e) w1))
           | (Panic p, g, w1) \<Rightarrow> Some (Panic p, start w1)
           | (Ok _, g, w1) \<Rightarrow>
               if ra_Debug args then Some (Ok 0, start (w1\<lparr>w_stdout := w_stdout w1 @ PrintPaths g\<rparr>))
               else
                 (case re_user env of
                    Fail e \<Rightarrow> quit mgr 1 (start (log_err (''Failed to get current user: '' @ Error_Error e) w1))
                  | Panic p \<Rightarrow> Some (Panic p, start w1)
                  | Ok usr \<Rightarrow>
                      (case NewJobManager (re_jm env) usr (ra_JobfilePath args) w1 of
                         None \<Rightarrow> None
                       | Some (Fail e) \<Rightarrow> Some (Fail e, start w1)
                       | Some (Panic p) \<Rightarrow> Some (Panic p, start w1)
                       | Some (Ok m) \<Rightarrow>
                           (case Launch m of
                              Fail e \<Rightarrow> quit mgr 1 ((start w1)\<lparr>gJobManager := Some (m\<lparr>jm_world := log_err (''Error: '' @ Error_Error e) (jm_world m)\<rparr>)\<rparr>)
                            | Panic p \<Rightarrow> Some (Panic p, start w1)
                            | Ok m1 \<Rightarrow> launch_server mgr env args cause ((start w1)\<lparr>gJobManager := Some m1\<rparr>))))))"

section \<open>How the process ends\<close>

lemma with_world_server [simp]: "gIpcServer (with_world f s) = gIpcServer s"
  by (simp add: with_world_def set_world_def split: option.split)

text \<open>The manager's main thread ends without a panic, whatever has been logged meanwhile.\<close>

definition mgr_ends :: "manager_run \<Rightarrow> runner_proc \<Rightarrow> bool" where
  "mgr_ends mgr s \<longleftrightarrow> (\<forall>m w. gJobManager s = Some m \<longrightarrow> (\<exists>m'. mgr (m\<lparr>jm_world := w\<rparr>) = Some (Ok (), m')))"

lemma mgr_ends_simps [simp]:
  "mgr_ends mgr (with_world f s) = mgr_ends mgr s" "mgr_ends mgr (s\<lparr>gIpcServer := x\<rparr>) = mgr_ends mgr s"
  by (auto simp: mgr_ends_def with_world_def set_world_def split: option.splits)

lemma mgr_ends_run: "mgr_ends mgr s \<Longrightarrow> gJobManager s = Some m \<Longrightarrow> \<exists>m'. mgr m = Some (Ok (), m')"
  unfolding mgr_ends_def by (metis JobManager.surjective JobManager.update_convs(8))

text \<open>Quitting, by the kind of server, when the manager's main thread ends.\<close>

definition not_serving :: "ipc_server option \<Rightarrow> bool" where
  "not_serving srv \<longleftrightarrow>
     (case srv of None \<Rightarrow> True | Some (UdsServer u) \<Rightarrow> \<not> uds_listening u | Some (InetServer i) \<Rightarrow> inet_listener i \<noteq> Some True)"

lemma quit_after_stop:
  assumes "mgr_ends mgr s1" "stop_server s = (Ok x, s1)"
  shows "\<exists>s'. quit mgr code s = Some (Ok code, s') \<and> gIpcServer s' = gIpcServer s1"
proof (cases "gJobManager s1")
  case None
  then show ?thesis using assms(2) by (simp add: quit_def)
next
  case (Some m)
  obtain m' where "mgr m = Some (Ok (), m')" using mgr_ends_run [OF assms(1) Some] by blast
  then show ?thesis using assms(2) Some by (simp add: quit_def)
qed

lemma stop_server_uds:
  assumes "gIpcServer s = Some (UdsServer u)" "mgr_ends mgr s"
  shows "\<exists>s1 x. stop_server s = (Ok x, s1) \<and> mgr_ends mgr s1 \<and> not_serving (gIpcServer s1)"
proof -
  obtain u1 os where st: "uds_Stop u (w_os (proc_world s)) = (u1, os)" by (cases "uds_Stop u (w_os (proc_world s))")
  then have "\<not> uds_listening u1" by (auto simp: uds_Stop_def Let_def)
  then show ?thesis using assms st by (simp add: stop_server_def ipc_Stop_def not_serving_def)
qed

lemma stop_server_inet:
  assumes "gIpcServer s = Some (InetServer i)" "mgr_ends mgr s"
  shows "\<exists>s1. stop_server s = (if inet_listener i = None then Panic ''nil pointer dereference'' else Ok (), s1) \<and>
    mgr_ends mgr s1 \<and> not_serving (gIpcServer s1)"
  using assms by (cases "inet_listener i") (simp_all add: stop_server_def ipc_Stop_def inet_Stop_def not_serving_def)

lemma quit_ends:
  assumes ends: "mgr_ends mgr s"
  shows "\<exists>s'. quit mgr code s = Some (case gIpcServer s of
      Some (InetServer i) \<Rightarrow> if inet_listener i = None then Panic ''nil pointer dereference'' else Ok code
    | _ \<Rightarrow> Ok code, s') \<and> not_serving (gIpcServer s')"
proof (cases "gIpcServer s")
  case None
  then have "stop_server s = (Ok (), s)" by (simp add: stop_server_def)
  from quit_after_stop [OF ends this, of code] show ?thesis using None by (auto simp: not_serving_def)
next
  case (Some srv)
  show ?thesis
  proof (cases srv)
    case (UdsServer u)
    obtain s1 x where "stop_server s = (Ok x, s1)" "mgr_ends mgr s1" "not_serving (gIpcServer s1)"
      using stop_server_uds [OF Some [unfolded UdsServer] ends] by blast
    from quit_after_stop [OF this(2,1), of code] this(3) show ?thesis using Some UdsServer by auto
  next
    case (InetServer i)
    obtain s1 where s1: "stop_server s = (if inet_listener i = None then Panic ''nil pointer dereference'' else Ok (), s1)"
        "mgr_ends mgr s1" "not_serving (gIpcServer s1)"
      using stop_server_inet [OF Some [unfolded InetServer] ends] by blast
    show ?thesis
    proof (cases "inet_listener i")
      case None
      then show ?thesis using s1 Some InetServer by (simp add: quit_def)
    next
      case (Some b)
      then have "stop_server s = (Ok (), s1)" using s1(1) by simp
      from quit_after_stop [OF s1(2) this, of code] s1(3) show ?thesis
        using Some \<open>gIpcServer s = Some srv\<close> InetServer by auto
    qed
  qed
qed

text \<open>A server that has been stopped can be stopped again.\<close>

lemma stop_again:
  assumes "not_serving (gIpcServer s)" "\<And>i. gIpcServer s = Some (InetServer i) \<Longrightarrow> inet_listener i \<noteq> None"
  shows "\<exists>s'. stop_server s = (Ok (), s') \<and> not_serving (gIpcServer s')"
proof (cases "gIpcServer s")
  case None
  then show ?thesis by (simp add: stop_server_def not_serving_def)
next
  case (Some srv)
  show ?thesis
  proof (cases srv)
    case (UdsServer u)
    obtain u1 os where st: "uds_Stop u (w_os (proc_world s)) = (u1, os)" by fastforce
    then have "\<not> uds_listening u1" by (auto simp: uds_Stop_def Let_def)
    then show ?thesis using Some UdsServer st by (simp add: stop_server_def ipc_Stop_def not_serving_def)
  next
    case (InetServer i)
    then obtain isOpen where "inet_listener i = Some isOpen" using assms(2) Some by blast
    then show ?thesis using Some InetServer by (simp add: stop_server_def ipc_Stop_def inet_Stop_def not_serving_def)
  qed
qed

text \<open>The kind of server stays, and a TCP server that had a listener keeps the value.\<close>

definition has_listener :: "ipc_server option \<Rightarrow> bool" where
  "has_listener srv \<longleftrightarrow> (case srv of Some (InetServer i) \<Rightarrow> inet_listener i \<noteq> None | _ \<Rightarrow> True)"

lemma stop_has_listener: "has_listener (gIpcServer s) \<Longrightarrow> stop_server s = (r, s1) \<Longrightarrow> has_listener (gIpcServer s1)"
  by (auto simp: has_listener_def stop_server_def ipc_Stop_def inet_Stop_def ex_bool_eq
      split: option.splits ipc_server.splits prod.splits)

lemma quit_has_listener:
  assumes "has_listener (gIpcServer s)" "quit mgr code s = Some (Ok c, s')"
  shows "has_listener (gIpcServer s')"
  using assms stop_has_listener [OF assms(1)]
  by (auto simp: quit_def split: prod.splits outcome.splits option.splits)

lemma quit_with_listener:
  assumes "mgr_ends mgr s" "has_listener (gIpcServer s)"
  shows "\<exists>s'. quit mgr code s = Some (Ok code, s') \<and> not_serving (gIpcServer s') \<and> has_listener (gIpcServer s')"
  using quit_ends [OF assms(1), of code] assms(2) quit_has_listener [OF assms(2)]
  by (fastforce simp: has_listener_def split: option.splits ipc_server.splits)

lemma quit_again_ends:
  assumes "mgr_ends mgr s" "has_listener (gIpcServer s)"
  shows "\<exists>s'. quit_again race (quit mgr code s) = Some (Ok (if race = OtherExits then 0 else code), s') \<and> not_serving (gIpcServer s')"
proof -
  obtain s1 where s1: "quit mgr code s = Some (Ok code, s1)" "not_serving (gIpcServer s1)" "has_listener (gIpcServer s1)"
    using quit_with_listener [OF assms] by blast
  have "inet_listener i \<noteq> None" if "gIpcServer s1 = Some (InetServer i)" for i
    using s1(3) that by (simp add: has_listener_def)
  then obtain s2 where "stop_server s1 = (Ok (), s2)" "not_serving (gIpcServer s2)"
    using stop_again [OF s1(2)] by blast
  then show ?thesis using s1 by (cases "race = OnlyOne") (simp_all add: quit_again_def)
qed

text \<open>The exit status of a process that serves.\<close>

abbreviation serve_status :: "quit_race \<Rightarrow> argsS \<Rightarrow> quit_cause \<Rightarrow> int" where
  "serve_status race args cause \<equiv>
     (if ra_QuitSocket args \<noteq> None \<and> (\<exists>e. cause = ResolveFailed e \<or> cause = DialFailed e) \<and> race \<noteq> OtherExits then 1 else 0)"

lemma serve_until_ends:
  assumes "mgr_ends mgr s" "has_listener (gIpcServer s)"
  shows "\<exists>s'. serve_until mgr race args cause s = Some (Ok (serve_status race args cause), s') \<and> not_serving (gIpcServer s')"
proof (cases "ra_QuitSocket args")
  case None
  then show ?thesis using quit_again_ends [OF assms, of race 0] by (simp add: serve_until_def)
next
  case (Some p)
  let ?s = "with_world (quitOnJobbermasterDiscon p cause) s"
  have "quit_code cause = (if \<exists>e. cause = ResolveFailed e \<or> cause = DialFailed e then 1 else 0)"
    by (auto simp: quit_code_def split: quit_cause.splits)
  then show ?thesis using Some quit_again_ends [of mgr ?s race "quit_code cause"] assms by (auto simp: serve_until_def)
qed

text \<open>A Unix socket that cannot be listened on, and a TCP port.\<close>

lemma launch_server_ends:
  assumes ends: "mgr_ends mgr s" and none: "gIpcServer s = None"
  shows "\<exists>s'. launch_server mgr env args cause s = Some (
      (case ra_UnixSocket args of
         Some p \<Rightarrow> if ne_resolve (re_net env) p = None \<and> ne_listenUnix (re_net env) p = None
                   then Ok (serve_status (re_race env) args cause) else Ok 1
       | None \<Rightarrow>
           (case ra_TcpPort args of
              Some port \<Rightarrow> if ne_listenTcp (re_net env) port = None then Ok (serve_status (re_race env) args cause)
                           else Panic ''nil pointer dereference''
            | None \<Rightarrow> Ok (serve_status (re_race env) args cause))), s') \<and> not_serving (gIpcServer s')"
proof -
  have serve: "\<exists>s'. serve_until mgr (re_race env) args cause s1 = Some (Ok (serve_status (re_race env) args cause), s') \<and> not_serving (gIpcServer s')"
    if "mgr_ends mgr s1" "has_listener (gIpcServer s1)" for s1
    using serve_until_ends [OF that] .
  show ?thesis
  proof (cases "ra_UnixSocket args")
    case (Some p)
    define s1 where "s1 = with_world (log_out (''Listening for commands on '' @ p)) s"
    let ?u = "NewUdsIpcServer p"
    obtain x os where rm: "os_Remove p (w_os (proc_world s1)) = (x, os)" by fastforce
    have path: "uds_sockPath ?u = p" by (simp add: NewUdsIpcServer_def)
    define after where "after = (\<lambda>u os. (with_world (\<lambda>w. w\<lparr>w_os := os\<rparr>) s1)\<lparr>gIpcServer := Some (UdsServer u)\<rparr>)"
    have m: "mgr_ends mgr (after u os)" "gIpcServer (after u os) = Some (UdsServer u)" for u os
      using ends by (simp_all add: after_def s1_def)
    have l: "launch_server mgr env args cause s =
        (case uds_Launch (re_net env) ?u (w_os (proc_world s1)) of
           (r, u1, os1) \<Rightarrow> (case r of Ok _ \<Rightarrow> serve_until mgr (re_race env) args cause (after u1 os1)
             | Fail e \<Rightarrow> quit mgr 1 (with_world (log_err (''Error: '' @ Error_Error e)) (after u1 os1))
             | Panic p \<Rightarrow> Some (Panic p, after u1 os1)))"
    proof -
      have ns: "new_server args = Some (UdsServer ?u, ''Listening for commands on '' @ p)" by (simp add: new_server_def Some)
      show ?thesis
        unfolding launch_server_def ns option.case prod.case Let_def s1_def [symmetric] ipc_Launch_def ipc_server.case after_def
        by (simp split: prod.split)
    qed
    have bad: "\<exists>s'. quit mgr 1 (with_world f (after u os1)) = Some (Ok 1, s') \<and> not_serving (gIpcServer s')" for f u os1
      using quit_ends [of mgr "with_world f (after u os1)" 1] m by simp
    have good: "\<exists>s'. serve_until mgr (re_race env) args cause (after u os1) = Some (Ok (serve_status (re_race env) args cause), s') \<and>
        not_serving (gIpcServer s')" for u os1
      by (rule serve) (simp_all add: m has_listener_def)
    show ?thesis
    proof (cases "ne_resolve (re_net env) p")
      case resolved: None
      show ?thesis
      proof (cases "ne_listenUnix (re_net env) p")
        case None
        then show ?thesis using Some resolved good unfolding l uds_Launch_def path rm by simp
      next
        case (Some e)
        then show ?thesis using \<open>ra_UnixSocket args = Some p\<close> resolved bad unfolding l uds_Launch_def path rm by simp
      qed
    next
      case (Some e)
      then show ?thesis using \<open>ra_UnixSocket args = Some p\<close> bad unfolding l uds_Launch_def path rm by simp
    qed
  next
    case None
    show ?thesis
    proof (cases "ra_TcpPort args")
      case (Some port)
      define s1 where "s1 = with_world (log_out (''Listening for commands on :'' @ nat_str port)) s"
      define after where "after = (\<lambda>i. (with_world (\<lambda>w. w\<lparr>w_os := w_os (proc_world s1)\<rparr>) s1)\<lparr>gIpcServer := Some (InetServer i)\<rparr>)"
      have m: "mgr_ends mgr (after i)" "gIpcServer (after i) = Some (InetServer i)" for i
        using ends by (simp_all add: after_def s1_def)
      have l: "launch_server mgr env args cause s =
          (case inet_Launch (re_net env) (NewInetIpcServer port) of
             (r, i1) \<Rightarrow> (case r of Ok _ \<Rightarrow> serve_until mgr (re_race env) args cause (after i1)
               | Fail e \<Rightarrow> quit mgr 1 (with_world (log_err (''Error: '' @ Error_Error e)) (after i1))
               | Panic p \<Rightarrow> Some (Panic p, after i1)))"
      proof -
        have ns: "new_server args = Some (InetServer (NewInetIpcServer port), ''Listening for commands on :'' @ nat_str port)"
          by (simp add: new_server_def None Some)
        show ?thesis
          unfolding launch_server_def ns option.case prod.case Let_def s1_def [symmetric] ipc_Launch_def ipc_server.case after_def
          by (simp split: prod.split)
      qed
      have port: "inet_port (NewInetIpcServer port) = port" by (simp add: NewInetIpcServer_def)
      have bad: "\<exists>s'. quit mgr 1 (with_world f (after i)) = Some (Panic ''nil pointer dereference'', s') \<and> not_serving (gIpcServer s')"
        if "inet_listener i = None" for f i
        using quit_ends [of mgr "with_world f (after i)" 1] m that by simp
      have good: "\<exists>s'. serve_until mgr (re_race env) args cause (after i) = Some (Ok (serve_status (re_race env) args cause), s') \<and>
          not_serving (gIpcServer s')" if "inet_listener i = Some True" for i
        by (rule serve) (simp_all add: m that has_listener_def)
      show ?thesis
        using None Some bad good unfolding l inet_Launch_def port by (simp split: option.split)
    next
      case no: None
      then show ?thesis using None serve [OF ends] none by (simp add: launch_server_def new_server_def has_listener_def)
    qed
  qed
qed

lemma NewJobManager_not_launched: "NewJobManager jenv usr p w = Some (Ok m) \<Longrightarrow> \<not> jm_launched m"
  by (auto simp: NewJobManager_def split: option.splits prod.splits outcome.splits)

lemma check_args_None:
  "check_args args = None \<longleftrightarrow> \<not> (ra_UnixSocket args \<noteq> None \<and> ra_TcpPort args \<noteq> None \<or> ra_UnixSocket args = Some [] \<or>
     ra_QuitSocket args = Some [] \<or> ra_TempDir args = Some [] \<or> ra_TcpPort args = Some 0 \<or> ra_JobfilePath args = [])"
  by (auto simp: check_args_def)

text \<open>
  C32. How the process ends. With bad arguments (both kinds of server asked for, an empty path, port zero) it
  says so on standard error and exits with 1 before it has made a server or a manager, or touched anything else.
  Otherwise, when its settings and its user are found, its job manager can be made, and the
  manager's main thread ends once it is cancelled: it exits with 1 if the Unix socket cannot be listened on;
  it panics, instead of exiting, if the TCP port cannot be listened on; else it serves until it is told to quit, and exits
  with 0, or with 1 if the quit socket was asked for and cannot be reached, unless \<open>main\<close> or a signal, quitting at the same time, exits
  first, with 0. In each case it no longer serves then.
\<close>

theorem runner_main_spec:
  defines "bad \<equiv> \<lambda>args. ra_UnixSocket args \<noteq> None \<and> ra_TcpPort args \<noteq> None \<or> ra_UnixSocket args = Some [] \<or>
      ra_QuitSocket args = Some [] \<or> ra_TempDir args = Some [] \<or> ra_TcpPort args = Some 0 \<or> ra_JobfilePath args = []"
    and "cannot_listen \<equiv> \<lambda>(env :: runner_env) p. ne_resolve (re_net env) p \<noteq> None \<or> ne_listenUnix (re_net env) p \<noteq> None"
  shows "(bad args \<longrightarrow> (\<exists>msg. msg \<noteq> [] \<and> runner_main mgr env args cause w =
      Some (Ok 1, \<lparr>gIpcServer = None, gJobManager = None, jr_world = w, jr_stderr = msg\<rparr>))) \<and>
    (\<not> bad args \<and> \<not> ra_Debug args \<and>
     InitSettings (re_yaml env) \<lparr>p_VarDir = None, p_LibexecDir = None, p_TempDir = ra_TempDir args, p_EtcDir = None\<rparr>
       (re_globals env) w = (Ok (), g, w1) \<and>
     re_user env = Ok usr \<and> NewJobManager (re_jm env) usr (ra_JobfilePath args) w1 = Some (Ok m) \<and>
     (\<forall>w'. \<exists>m'. mgr (m\<lparr>jm_launched := True, jm_world := w'\<rparr>) = Some (Ok (), m')) \<longrightarrow>
     (\<exists>s. runner_main mgr env args cause w = Some (
         if \<exists>p. ra_UnixSocket args = Some p \<and> cannot_listen env p then Ok 1
         else if \<exists>port. ra_TcpPort args = Some port \<and> ne_listenTcp (re_net env) port \<noteq> None then Panic ''nil pointer dereference''
         else if ra_QuitSocket args \<noteq> None \<and> (\<exists>e. cause = ResolveFailed e \<or> cause = DialFailed e) \<and> re_race env \<noteq> OtherExits
         then Ok 1 else Ok 0, s) \<and> not_serving (gIpcServer s)))"
proof (intro conjI impI)
  assume "bad args"
  then obtain msg where "check_args args = Some msg" using check_args_None [of args] by (auto simp: bad_def)
  moreover from this have "msg \<noteq> []" by (auto simp: check_args_def split: if_splits)
  ultimately show "\<exists>msg. msg \<noteq> [] \<and> runner_main mgr env args cause w =
      Some (Ok 1, \<lparr>gIpcServer = None, gJobManager = None, jr_world = w, jr_stderr = msg\<rparr>)"
    by (simp add: runner_main_def Let_def quit_def stop_server_def)
next
  assume h: "\<not> bad args \<and> \<not> ra_Debug args \<and>
     InitSettings (re_yaml env) \<lparr>p_VarDir = None, p_LibexecDir = None, p_TempDir = ra_TempDir args, p_EtcDir = None\<rparr>
       (re_globals env) w = (Ok (), g, w1) \<and>
     re_user env = Ok usr \<and> NewJobManager (re_jm env) usr (ra_JobfilePath args) w1 = Some (Ok m) \<and>
     (\<forall>w'. \<exists>m'. mgr (m\<lparr>jm_launched := True, jm_world := w'\<rparr>) = Some (Ok (), m'))"
  let ?s = "\<lparr>gIpcServer = None, gJobManager = Some (m\<lparr>jm_launched := True\<rparr>), jr_world = w1, jr_stderr = []\<rparr>"
  have c: "check_args args = None" using check_args_None [of args] h by (simp add: bad_def)
  have one: "ra_UnixSocket args = None \<or> ra_TcpPort args = None" using h by (auto simp: bad_def)
  have "\<not> jm_launched m" using NewJobManager_not_launched h by blast
  then have "Launch m = Ok (m\<lparr>jm_launched := True\<rparr>)" by (simp add: Launch_def)
  then have run: "runner_main mgr env args cause w = launch_server mgr env args cause ?s"
    using h c by (simp add: runner_main_def Let_def)
  have "mgr_ends mgr ?s" using h by (simp add: mgr_ends_def)
  then obtain s where s: "launch_server mgr env args cause ?s = Some (
      (case ra_UnixSocket args of
         Some p \<Rightarrow> if ne_resolve (re_net env) p = None \<and> ne_listenUnix (re_net env) p = None
                   then Ok (serve_status (re_race env) args cause) else Ok 1
       | None \<Rightarrow>
           (case ra_TcpPort args of
              Some port \<Rightarrow> if ne_listenTcp (re_net env) port = None then Ok (serve_status (re_race env) args cause)
                           else Panic ''nil pointer dereference''
            | None \<Rightarrow> Ok (serve_status (re_race env) args cause))), s)" "not_serving (gIpcServer s)"
    using launch_server_ends [of mgr ?s env args cause] by auto
  moreover have "(case ra_UnixSocket args of
         Some p \<Rightarrow> if ne_resolve (re_net env) p = None \<and> ne_listenUnix (re_net env) p = None
                   then Ok (serve_status (re_race env) args cause) else Ok 1
       | None \<Rightarrow>
           (case ra_TcpPort args of
              Some port \<Rightarrow> if ne_listenTcp (re_net env) port = None then Ok (serve_status (re_race env) args cause)
                           else Panic ''nil pointer dereference''
            | None \<Rightarrow> Ok (serve_status (re_race env) args cause))) =
      (if \<exists>p. ra_UnixSocket args = Some p \<and> cannot_listen env p then Ok 1
         else if \<exists>port. ra_TcpPort args = Some port \<and> ne_listenTcp (re_net env) port \<noteq> None then Panic ''nil pointer dereference''
         else if ra_QuitSocket args \<noteq> None \<and> (\<exists>e. cause = ResolveFailed e \<or> cause = DialFailed e) \<and> re_race env \<noteq> OtherExits
         then Ok 1 else Ok 0)"
    using one by (cases "ra_UnixSocket args"; cases "ra_TcpPort args") (simp_all add: cannot_listen_def)
  ultimately show "\<exists>s. runner_main mgr env args cause w = Some (
         if \<exists>p. ra_UnixSocket args = Some p \<and> cannot_listen env p then Ok 1
         else if \<exists>port. ra_TcpPort args = Some port \<and> ne_listenTcp (re_net env) port \<noteq> None then Panic ''nil pointer dereference''
         else if ra_QuitSocket args \<noteq> None \<and> (\<exists>e. cause = ResolveFailed e \<or> cause = DialFailed e) \<and> re_race env \<noteq> OtherExits
         then Ok 1 else Ok 0, s) \<and> not_serving (gIpcServer s)"
    using run by (intro exI [of _ s]) (simp only: simp_thms)
qed

text \<open>A process that is to listen on a TCP port which is in use.\<close>

definition tcp_args :: argsS where
  "tcp_args = \<lparr>ra_QuitSocket = None, ra_UnixSocket = None, ra_TcpPort = Some 8080, ra_TempDir = None,
     ra_JobfilePath = ''/home/u/.jobber'', ra_Debug = False\<rparr>"

definition busy_env :: runner_env where
  "busy_env = \<lparr>re_yaml = (\<lambda>_. Ok no_prefs), re_globals = init_globals ''/tmp'' ''/etc'', re_user = Ok sample_user, re_jm = bad_env,
     re_net = \<lparr>ne_resolve = (\<lambda>_. None), ne_listenUnix = (\<lambda>_. None),
       ne_listenTcp = (\<lambda>port. if port = 8080 then Some (Errno ''address already in use'') else None)\<rparr>,
     re_race = OnlyOne\<rparr>"

definition conf_world :: world where
  "conf_world = \<lparr>w_os = \<lparr>files = [''/etc/jobber.conf'' \<mapsto> []], faults = []\<rparr>, w_stdout = [], w_log = [], w_errlog = [], w_registry = []\<rparr>"

lemma busy_settings:
  "\<exists>g. InitSettings (re_yaml busy_env) \<lparr>p_VarDir = None, p_LibexecDir = None, p_TempDir = ra_TempDir tcp_args, p_EtcDir = None\<rparr>
      (re_globals busy_env) conf_world = (Ok (), g, conf_world)"
proof -
  have p: "filepath_Join [EtcDirPath (init_globals ''/tmp'' ''/etc''), gPrefsFileName] = ''/etc/jobber.conf''" by code_simp
  have e: "update_setting None None (gEtcDir (init_globals ''/tmp'' ''/etc'')) = gEtcDir (init_globals ''/tmp'' ''/etc'')"
    by (simp add: update_setting_def setting_clear_def init_globals_def newSetting_def)
  have "parsePrefs (re_yaml busy_env) [] = Ok no_prefs"
    by (simp add: parsePrefs_def busy_env_def no_prefs_def Let_def spec_patterns_def)
  then show ?thesis
    using p e by (simp add: InitSettings_def Let_def loadPrefs_def busy_env_def tcp_args_def conf_world_def os_Open_def)
qed

theorem runner_main_spec_witness:
  "\<exists>s. runner_main (\<lambda>m. Some (Ok (), m\<lparr>jm_running := False\<rparr>)) busy_env tcp_args Signalled conf_world =
     Some (Panic ''nil pointer dereference'', s)"
proof -
  obtain g where st: "InitSettings (re_yaml busy_env) \<lparr>p_VarDir = None, p_LibexecDir = None, p_TempDir = ra_TempDir tcp_args, p_EtcDir = None\<rparr>
      (re_globals busy_env) conf_world = (Ok (), g, conf_world)"
    using busy_settings by blast
  have prefs: "ToPrefs sample_user (j3_Prefs NewEmptyRawJobFile) (w_os conf_world) =
      (Ok \<lparr>RunLogPref = MemLog \<lparr>mem_entries = [], mem_cap = 100\<rparr>, LogPath = []\<rparr>, w_os conf_world)"
    by (simp add: ToPrefs_def NewEmptyRawJobFile_def ToRunLog_def map_io_def lift_io_def bind_io_def
        return_io_def NewMemOnlyRunLog_def gDefaultMemRunLogMaxLen_def)
  have j: "j3_Jobs NewEmptyRawJobFile = []" "w_registry conf_world = []" by (simp_all add: NewEmptyRawJobFile_def conf_world_def)
  have "\<exists>jf. Activate (je_yaml bad_env) (je_rand bad_env) (je_listen bad_env) sample_user NewEmptyRawJobFile (w_os conf_world) (w_registry conf_world) =
      Some (Ok jf, w_os conf_world, [])"
    by (simp add: Activate_def prefs j SetServers_def socket_sinks_def List.map_filter_def Let_def)
  then have "\<exists>m. NewJobManager (re_jm busy_env) sample_user (ra_JobfilePath tcp_args) conf_world = Some (Ok m)"
    by (auto simp: NewJobManager_def busy_env_def)
  then obtain m where m: "NewJobManager (re_jm busy_env) sample_user (ra_JobfilePath tcp_args) conf_world = Some (Ok m)" by blast
  have u: "re_user busy_env = Ok sample_user" "\<not> ra_Debug tcp_args" by (simp_all add: busy_env_def tcp_args_def)
  have a: "ra_UnixSocket tcp_args = None" "ra_TcpPort tcp_args = Some 8080" "ra_QuitSocket tcp_args = None" "ra_TempDir tcp_args = None"
    "ra_JobfilePath tcp_args = ''/home/u/.jobber''" "ne_listenTcp (re_net busy_env) 8080 = Some (Errno ''address already in use'')"
    by (simp_all add: tcp_args_def busy_env_def)
  show ?thesis
    using runner_main_spec [of tcp_args "\<lambda>m. Some (Ok (), m\<lparr>jm_running := False\<rparr>)" busy_env Signalled conf_world g conf_world sample_user m]
      st m u a by auto
qed

section \<open>Shutdown\<close>

text \<open>
  Where the manager's main thread is: its loop receives commands and run records; then it waits for the runs and
  the test runs to end, and handles the last records; then it has closed the command channel; then the process has exited.
  While it serves, it may be handling a request: the request is answered when that is done, over a
  channel with a buffer. Whenever it works on a request or a record, it may panic
  (\<open>replaceCurrJobfile\<close>, \<open>handleRunRec\<close>, the sinks, the closed channel of run records).
  Closing the server's listener does not close the connections of its clients, and the methods
  that are running on them go on. A panic ends the process, and the result tells whose it was.
\<close>

datatype shutdown_phase = ShServing | ShDraining | ShEnded | ShExited

record shutdown =
  sh_main :: shutdown_phase
  sh_handling :: "nat option"
  sh_ctxDone :: bool
  sh_chanOpen :: bool
  sh_listening :: bool
  sh_conns :: nat
  sh_sending :: "nat list"
  sh_answered :: "nat list"
  sh_requests :: nat

datatype shut_result = Alive shutdown | MainThreadPanic | SendOnClosedPanic | CloseOfClosedPanic

inductive shut_step :: "shutdown \<Rightarrow> shut_result \<Rightarrow> bool" where
  connect: "sh_listening s \<Longrightarrow> shut_step s (Alive (s\<lparr>sh_conns := sh_conns s + 1\<rparr>))"
| request: "0 < sh_conns s \<Longrightarrow> sh_main s \<noteq> ShExited \<Longrightarrow>
    shut_step s (Alive (s\<lparr>sh_sending := sh_requests s # sh_sending s, sh_requests := sh_requests s + 1\<rparr>))"
| receive: "sh_main s = ShServing \<Longrightarrow> sh_handling s = None \<Longrightarrow> i \<in> set (sh_sending s) \<Longrightarrow>
    shut_step s (Alive (s\<lparr>sh_sending := remove1 i (sh_sending s), sh_handling := Some i\<rparr>))"
| answer: "sh_handling s = Some i \<Longrightarrow> shut_step s (Alive (s\<lparr>sh_handling := None, sh_answered := i # sh_answered s\<rparr>))"
| main_panics: "sh_main s = ShServing \<or> sh_main s = ShDraining \<Longrightarrow> shut_step s MainThreadPanic"
| stop_server: "shut_step s (Alive (s\<lparr>sh_listening := False\<rparr>))"
| cancel: "\<not> sh_listening s \<Longrightarrow> shut_step s (Alive (s\<lparr>sh_ctxDone := True\<rparr>))"
| leave_loop: "sh_main s = ShServing \<Longrightarrow> sh_handling s = None \<Longrightarrow> sh_ctxDone s \<Longrightarrow> shut_step s (Alive (s\<lparr>sh_main := ShDraining\<rparr>))"
| close_cmds: "sh_main s = ShDraining \<Longrightarrow>
    shut_step s (if sh_chanOpen s then Alive (s\<lparr>sh_main := ShEnded, sh_chanOpen := False\<rparr>) else CloseOfClosedPanic)"
| send_on_closed: "\<not> sh_chanOpen s \<Longrightarrow> sh_main s \<noteq> ShExited \<Longrightarrow> sh_sending s \<noteq> [] \<Longrightarrow> shut_step s SendOnClosedPanic"
| exit_process: "sh_main s = ShEnded \<Longrightarrow> shut_step s (Alive (s\<lparr>sh_main := ShExited\<rparr>))"

definition shut_init :: shutdown where
  "shut_init = \<lparr>sh_main = ShServing, sh_handling = None, sh_ctxDone = False, sh_chanOpen = True, sh_listening = True, sh_conns = 0,
     sh_sending = [], sh_answered = [], sh_requests = 0\<rparr>"

inductive shut_reaches :: "shut_result \<Rightarrow> bool" where
  init: "shut_reaches (Alive shut_init)"
| step: "shut_reaches (Alive s) \<Longrightarrow> shut_step s r \<Longrightarrow> shut_reaches r"

definition in_hand :: "shutdown \<Rightarrow> nat list" where
  "in_hand s = (case sh_handling s of None \<Rightarrow> [] | Some i \<Rightarrow> [i])"

definition shut_inv :: "shutdown \<Rightarrow> bool" where
  "shut_inv s \<longleftrightarrow> (sh_chanOpen s \<longleftrightarrow> sh_main s = ShServing \<or> sh_main s = ShDraining) \<and>
     (sh_main s \<noteq> ShServing \<longrightarrow> sh_ctxDone s \<and> sh_handling s = None) \<and> (sh_ctxDone s \<longrightarrow> \<not> sh_listening s) \<and>
     mset (sh_sending s) + mset (in_hand s) + mset (sh_answered s) = mset [0 ..< sh_requests s]"

definition panic_ok :: "shutdown \<Rightarrow> shut_result \<Rightarrow> bool" where
  "panic_ok s r \<longleftrightarrow>
     r = MainThreadPanic \<and> (sh_main s = ShServing \<or> sh_main s = ShDraining) \<or>
     r = SendOnClosedPanic \<and> sh_main s = ShEnded \<and> sh_sending s \<noteq> []"

lemma shut_step_inv:
  assumes "shut_step s r" "shut_inv s"
  shows "panic_ok s r \<or> (\<exists>s'. r = Alive s' \<and> shut_inv s')"
  using assms(1)
proof (cases rule: shut_step.cases)
  case (receive i)
  then have "mset (remove1 i (sh_sending s)) + mset [i] = mset (sh_sending s)" by simp
  moreover have "mset (sh_sending s) + mset (sh_answered s) = mset [0 ..< sh_requests s]"
    using assms(2) receive by (simp add: shut_inv_def in_hand_def)
  ultimately have "mset (remove1 i (sh_sending s)) + mset [i] + mset (sh_answered s) = mset [0 ..< sh_requests s]" by simp
  then show ?thesis using receive assms(2) unfolding shut_inv_def by (simp add: in_hand_def)
next
  case send_on_closed
  then have "sh_main s = ShEnded" using assms(2) by (cases "sh_main s") (auto simp: shut_inv_def)
  then show ?thesis using send_on_closed by (simp add: panic_ok_def)
qed (use assms(2) in \<open>auto simp: shut_inv_def in_hand_def panic_ok_def atLeast0_lessThan_Suc\<close>)

lemma shut_reaches_inv:
  assumes "shut_reaches r"
  shows "(\<exists>s. shut_reaches (Alive s) \<and> panic_ok s r) \<or> (\<exists>s. r = Alive s \<and> shut_inv s)"
  using assms
proof (induction rule: shut_reaches.induct)
  case init
  then show ?case by (simp add: shut_inv_def shut_init_def in_hand_def)
next
  case (step s r)
  then show ?case using shut_step_inv by (fastforce simp: panic_ok_def)
qed



end
