(* ===== verification/Master.thy ===== *)
theory Master
  imports Settings
begin

text \<open>
  The master process (\<open>jobbermaster/*.go\<close>, \<open>UserOwnsFile\<close> and \<open>Chown\<close> of \<open>common/user.go\<close>): it decides
  which users get a runner process, makes a directory for each, launches the runners under the
  users' accounts and restarts them when they exit. The platform is one that is not Darwin.

  What the system decides is the record \<open>master_env\<close>: the user database, who owns a directory,
  whether a directory can be made and given to a user, whether sockets and processes can be made,
  and what happens first after a runner was started.
\<close>

section \<open>The buffer for error output\<close>

text \<open>The write slice is what is left of the capacity, the read slice what was written.\<close>

record BoundedBuffer =
  bb_cap :: nat
  bb_data :: string

definition NewBoundedBuffer :: "nat \<Rightarrow> BoundedBuffer" where
  "NewBoundedBuffer n = \<lparr>bb_cap = n, bb_data = []\<rparr>"

definition bb_Write :: "string \<Rightarrow> BoundedBuffer \<Rightarrow> nat \<times> error option \<times> BoundedBuffer" where
  "bb_Write p self =
     (let n = min (bb_cap self - length (bb_data self)) (length p) in
      (n, if n < length p then Some (Errno ''Buffer is full'') else None, self\<lparr>bb_data := bb_data self @ take n p\<rparr>))"

definition bb_String :: "BoundedBuffer \<Rightarrow> string" where
  "bb_String self = bb_data self"

text \<open>
  Package os/exec copies a process's error output to the writer until a write returns an error;
  then it closes its end of the pipe. The result tells whether the pipe is still open.
\<close>

fun copy_output :: "string list \<Rightarrow> BoundedBuffer \<Rightarrow> bool \<times> BoundedBuffer" where
  "copy_output [] buf = (True, buf)"
| "copy_output (p # ps) buf =
     (case bb_Write p buf of (_, Some e, buf1) \<Rightarrow> (False, buf1) | (_, None, buf1) \<Rightarrow> copy_output ps buf1)"

section \<open>The world\<close>

text \<open>What happens first after a runner was started: it connects, \<open>Accept\<close> fails, or it exits.\<close>

datatype first_event =
    RunnerConnected
  | AcceptError error
  | ExitedEarly "string list"

record master_env =
  me_lookup :: "string \<Rightarrow> user outcome"
  me_stat :: "string \<Rightarrow> file_stat outcome"
  me_mkdir :: "string \<Rightarrow> error option"
  me_chown :: "string \<Rightarrow> int \<Rightarrow> int \<Rightarrow> error option"
  me_resolve :: "string \<Rightarrow> error option"
  me_listen :: "string \<Rightarrow> error option"
  me_start :: "string list \<Rightarrow> error option"

definition UserOwnsFile :: "master_env \<Rightarrow> user \<Rightarrow> string \<Rightarrow> bool outcome" where
  "UserOwnsFile env usr p = UserOwnsFileF usr (me_stat env p)"

definition Chown :: "master_env \<Rightarrow> string \<Rightarrow> user \<Rightarrow> unit outcome" where
  "Chown env p usr =
     bind_outcome (ParseInt (Uid usr)) (\<lambda>uid.
     bind_outcome (ParseInt (Gid usr)) (\<lambda>gid.
       case me_chown env p uid gid of Some e \<Rightarrow> Fail e | None \<Rightarrow> Ok ()))"

definition mkdirp :: "master_env \<Rightarrow> string \<Rightarrow> error option" where
  "mkdirp env p = (case me_mkdir env p of Some e \<Rightarrow> if \<not> IsExist e then Some e else None | None \<Rightarrow> None)"

section \<open>Users\<close>

definition userHasHome :: "master_env \<Rightarrow> user \<Rightarrow> world \<Rightarrow> bool \<times> world" where
  "userHasHome env usr w =
     (if length (HomeDir usr) = 0 \<or> HomeDir usr = ''/dev/null''
      then (False, log_out (''Excluding '' @ Username usr @ '': has no home directory'') w)
      else if \<not> IsAbs (HomeDir usr)
      then (False, log_out (''Excluding '' @ Username usr @ '': home directory path is not absolute: '' @ HomeDir usr) w)
      else case UserOwnsFile env usr (HomeDir usr) of
          Ok True \<Rightarrow> (True, w)
        | Ok False \<Rightarrow> (False, log_out (''Excluding '' @ Username usr @ '': doesn'' @ [CHR 0x27] @ ''t own home dir'') w)
        | Fail e \<Rightarrow> (False, log_out (''Excluding '' @ Username usr @ '': '' @ Error_Error e) w)
        | Panic p \<Rightarrow> (False, w))"

definition shouldRunForUser :: "master_env \<Rightarrow> globals \<Rightarrow> user \<Rightarrow> world \<Rightarrow> bool outcome \<times> world" where
  "shouldRunForUser env g usr w =
     (case jobberShouldRunForUser (gPrfs g) usr of
        Ok False \<Rightarrow> (Ok False, log_out (''Excluding '' @ Username usr @ '' according to prefs'') w)
      | Ok True \<Rightarrow> (case userHasHome env usr w of (b, w1) \<Rightarrow> (Ok b, w1))
      | r \<Rightarrow> (r, w))"

text \<open>The users of the password file that the user database knows, in its order.\<close>

definition passwd_users :: "master_env \<Rightarrow> string \<Rightarrow> user list" where
  "passwd_users env contents =
     List.map_filter (\<lambda>line. case me_lookup env (hd (Split line '':'')) of Ok usr \<Rightarrow> Some usr | _ \<Rightarrow> None) (ScanLines contents)"

definition getAllUsers :: "master_env \<Rightarrow> world \<Rightarrow> user list outcome \<times> world" where
  "getAllUsers env w =
     (case os_Open ''/etc/passwd'' (w_os w) of
        (Ok _, os) \<Rightarrow>
          (Ok (passwd_users env (case files os ''/etc/passwd'' of Some c \<Rightarrow> c | None \<Rightarrow> [])), w\<lparr>w_os := os\<rparr>)
      | (Fail e, os) \<Rightarrow>
          (Fail e, log_err (''Failed to open /etc/passwd: '' @ Error_Error e @ [CHR 0x0A]) (w\<lparr>w_os := os\<rparr>))
      | (Panic p, os) \<Rightarrow> (Panic p, w\<lparr>w_os := os\<rparr>))"

fun filter_users :: "master_env \<Rightarrow> globals \<Rightarrow> user list \<Rightarrow> world \<Rightarrow> user list outcome \<times> world" where
  "filter_users env g [] w = (Ok [], w)"
| "filter_users env g (usr # usrs) w =
     (case shouldRunForUser env g usr w of
        (Ok b, w1) \<Rightarrow>
          (case filter_users env g usrs w1 of
             (Ok rest, w2) \<Rightarrow> (Ok (if b then usr # rest else rest), w2) | r \<Rightarrow> r)
      | (Fail e, w1) \<Rightarrow> (Fail e, w1)
      | (Panic p, w1) \<Rightarrow> (Panic p, w1))"

definition getAcceptableUsers :: "master_env \<Rightarrow> globals \<Rightarrow> world \<Rightarrow> user list outcome \<times> world" where
  "getAcceptableUsers env g = bind_io (getAllUsers env) (filter_users env g)"

section \<open>Runner processes\<close>

record RunnerProc =
  rp_args :: "string list"
  rp_quitSockPath :: string
  rp_listening :: bool
  rp_connected :: bool
  rp_stderr :: BoundedBuffer

definition Kill :: "RunnerProc \<Rightarrow> os \<Rightarrow> RunnerProc \<times> os" where
  "Kill self os =
     (let os1 = (if rp_listening self then os\<lparr>files := (files os)(rp_quitSockPath self := None)\<rparr> else os) in
      (self\<lparr>rp_connected := False, rp_listening := False\<rparr>, snd (os_Remove (rp_quitSockPath self) os1)))"

definition runner_cmd :: "globals \<Rightarrow> user \<Rightarrow> string \<Rightarrow> string \<Rightarrow> string" where
  "runner_cmd g usr quitSockPath jobfilePath =
     Join [quoted (LibexecProgramPath g ''jobberrunner''), ''-q'', quoted quitSockPath,
           ''-u'', quoted (CmdSocketPath g usr), quoted jobfilePath, ''-t'', quoted (TempDirPath g)] '' ''"

definition LaunchRunner ::
    "master_env \<Rightarrow> globals \<Rightarrow> user \<Rightarrow> string \<Rightarrow> first_event \<Rightarrow> world \<Rightarrow> RunnerProc outcome \<times> world" where
  "LaunchRunner env g usr jobfilePath ev w =
     (let p = filepath_Join [PerUserDirPath g usr, ''quit.sock''];
          args = Sudo (Username usr) (runner_cmd g usr p jobfilePath);
          w1 = w\<lparr>w_os := snd (os_Remove p (w_os w))\<rparr>;
          w2 = w1\<lparr>w_os := (w_os w1)\<lparr>files := (files (w_os w1))(p \<mapsto> [])\<rparr>\<rparr>;
          proc = \<lparr>rp_args = args, rp_quitSockPath = p, rp_listening = True, rp_connected = False,
                  rp_stderr = NewBoundedBuffer 1024\<rparr>
      in case me_resolve env p of
          Some e \<Rightarrow> (Fail e, w1)
        | None \<Rightarrow>
          (case me_listen env p of
             Some e \<Rightarrow> (Fail e, w1)
           | None \<Rightarrow>
             (case Chown env p usr of
                Fail e \<Rightarrow> (Fail e, w2)
              | Panic x \<Rightarrow> (Panic x, w2)
              | Ok _ \<Rightarrow>
                (case me_start env args of
                   Some e \<Rightarrow> (Fail e, w2)
                 | None \<Rightarrow>
                   (case ev of
                      RunnerConnected \<Rightarrow> (Ok (proc\<lparr>rp_connected := True\<rparr>), w2)
                    | AcceptError e \<Rightarrow> (Fail e, w2\<lparr>w_os := snd (Kill proc (w_os w2))\<rparr>)
                    | ExitedEarly outs \<Rightarrow>
                        (Fail (Error (''jobberrunner for '' @ Username usr @ '' exited prematurely.'') None),
                         log_err (''jobberrunner stderr:'' @ [CHR 0x0A] @ bb_String (snd (copy_output outs (rp_stderr proc))))
                           (w2\<lparr>w_os := snd (Kill proc (w_os w2))\<rparr>)))))))"

text \<open>
  How a runner's time ends: it exits well, with an error (whether that is an \<open>ExitError\<close>, its text,
  and what the runner wrote to its error output), or the master is told to stop.
\<close>

datatype runner_end =
    ExitedWell
  | ExitedBadly bool string "string list"
  | MasterStopped

definition exited_badly :: "user \<Rightarrow> string \<Rightarrow> string list \<Rightarrow> RunnerProc \<Rightarrow> world \<Rightarrow> world" where
  "exited_badly usr msg outs proc w =
     log_err (bb_String (snd (copy_output outs (rp_stderr proc))))
       (log_err (''Runner for '' @ Username usr @ '' exited with error: '' @ msg) w)"

text \<open>
  The loop of \<open>runnerThread\<close> over what happens in each of its turns. The result tells whether the
  thread has ended, or waits in the turn after the last one.
\<close>

fun runnerThread ::
    "master_env \<Rightarrow> globals \<Rightarrow> user \<Rightarrow> string \<Rightarrow> (first_event \<times> runner_end) list \<Rightarrow> world \<Rightarrow> bool outcome \<times> world" where
  "runnerThread env g usr jobfilePath [] w = (Ok False, w)"
| "runnerThread env g usr jobfilePath ((ev, fin) # evs) w =
     (case LaunchRunner env g usr jobfilePath ev w of
        (Fail e, w1) \<Rightarrow> (Ok True, log_err (''Failed to launch runner for '' @ Username usr @ '': '' @ Error_Error e) w1)
      | (Panic p, w1) \<Rightarrow> (Panic p, w1)
      | (Ok proc, w1) \<Rightarrow>
          let again = (\<lambda>w2. runnerThread env g usr jobfilePath evs (log_out (''Restarting runner for '' @ Username usr) w2)) in
          (case fin of
             MasterStopped \<Rightarrow> (Ok True, w1)
           | ExitedWell \<Rightarrow> again w1
           | ExitedBadly isExitError msg outs \<Rightarrow>
               if isExitError then again (exited_badly usr msg outs proc w1)
               else (Ok True, exited_badly usr msg outs proc w1)))"

section \<open>The commands of the master\<close>

definition gJobFileName :: string where
  "gJobFileName = ''.jobber''"

text \<open>The loop over the users: those for whom a thread is started, with the path of their job file.\<close>

fun launch_users :: "master_env \<Rightarrow> globals \<Rightarrow> user list \<Rightarrow> world \<Rightarrow> (user \<times> string) list outcome \<times> world" where
  "launch_users env g [] w = (Ok [], w)"
| "launch_users env g (usr # usrs) w =
     (let jobfilePath = filepath_Join [HomeDir usr, gJobFileName]; dirPath = PerUserDirPath g usr in
      case mkdirp env dirPath of
        Some e \<Rightarrow> launch_users env g usrs (log_err (''Failed to make dir at '' @ dirPath @ '': '' @ Error_Error e) w)
      | None \<Rightarrow>
          (case Chown env dirPath usr of
             Fail e \<Rightarrow> launch_users env g usrs (log_err (''Failed to chown dir at '' @ dirPath @ '': '' @ Error_Error e) w)
           | Panic p \<Rightarrow> (Panic p, w)
           | Ok _ \<Rightarrow>
               (case launch_users env g usrs w of
                  (Ok rest, w1) \<Rightarrow> (Ok ((usr, jobfilePath) # rest), w1) | r \<Rightarrow> r)))"

text \<open>
  \<open>doDefault\<close>: the exit status, and the users for whom a thread was started before the process
  waits for a signal.
\<close>

definition doDefault ::
    "(string \<Rightarrow> prefs outcome) \<Rightarrow> master_env \<Rightarrow> InitSettingsParams \<Rightarrow> globals \<Rightarrow> world \<Rightarrow>
     (int \<times> (user \<times> string) list) outcome \<times> world" where
  "doDefault yaml env params g0 w =
     (case InitSettings yaml params g0 w of
        (Fail e, g, w1) \<Rightarrow> (Ok (1, []), log_err (Error_Error e) w1)
      | (Panic p, g, w1) \<Rightarrow> (Panic p, w1)
      | (Ok _, g, w1) \<Rightarrow>
          let w2 = log_out (''temp dir: '' @ TempDirPath g) (log_out (''libexec dir: '' @ LibexecDirPath g)
                     (log_out (''var dir: '' @ VarDirPath g) (log_out (''etc dir: '' @ EtcDirPath g) w1))) in
          (case mkdirp env (VarDirPath g) of
             Some e \<Rightarrow> (Ok (1, []), log_err (''Failed to make dir at '' @ VarDirPath g @ '': '' @ Error_Error e) w2)
           | None \<Rightarrow>
               (case getAcceptableUsers env g w2 of
                  (Fail e, w3) \<Rightarrow> (Ok (1, []), w3)
                | (Panic p, w3) \<Rightarrow> (Panic p, w3)
                | (Ok users, w3) \<Rightarrow>
                    (case launch_users env g users w3 of
                       (Ok started, w4) \<Rightarrow> (Ok (0, started), w4)
                     | (Fail e, w4) \<Rightarrow> (Fail e, w4)
                     | (Panic p, w4) \<Rightarrow> (Panic p, w4)))))"

definition doDefprefs :: "InitSettingsParams \<Rightarrow> world \<Rightarrow> int \<times> world" where
  "doDefprefs params w = (0, w\<lparr>w_stdout := w_stdout w @ MakeDefaultPrefs params @ [CHR 0x0A]\<rparr>)"

definition doDebug ::
    "(string \<Rightarrow> prefs outcome) \<Rightarrow> InitSettingsParams \<Rightarrow> globals \<Rightarrow> world \<Rightarrow> int outcome \<times> world" where
  "doDebug yaml params g0 w =
     (case InitSettings yaml params g0 w of
        (Fail e, g, w1) \<Rightarrow> (Ok 1, log_err (Error_Error e) w1)
      | (Panic p, g, w1) \<Rightarrow> (Panic p, w1)
      | (Ok _, g, w1) \<Rightarrow> (Ok 0, w1\<lparr>w_stdout := w_stdout w1 @ PrintPaths g\<rparr>))"

section \<open>The main function\<close>

text \<open>
  The arguments after package go-arg has split the command line: at most one of the two subcommands.
  The preferences that \<open>defprefs\<close> prints leave out the directory of the preferences file.
\<close>

datatype master_cmd = DefaultCmd | DefprefsCmd | DebugCmd

record master_args =
  ma_Cmd :: master_cmd
  ma_Etc :: "string option"
  ma_Var :: "string option"
  ma_Libexec :: "string option"
  ma_Temp :: "string option"

definition settings_params :: "master_args \<Rightarrow> InitSettingsParams" where
  "settings_params args =
     \<lparr>p_VarDir = ma_Var args, p_LibexecDir = ma_Libexec args, p_TempDir = ma_Temp args, p_EtcDir = ma_Etc args\<rparr>"

text \<open>The exit status, and the users for whom a runner was started.\<close>

definition master_main ::
    "(string \<Rightarrow> prefs outcome) \<Rightarrow> master_env \<Rightarrow> master_args \<Rightarrow> globals \<Rightarrow> world \<Rightarrow>
     (int \<times> (user \<times> string) list) outcome \<times> world" where
  "master_main yaml env args g w =
     (case ma_Cmd args of
        DefaultCmd \<Rightarrow> doDefault yaml env (settings_params args) g w
      | DefprefsCmd \<Rightarrow> (case doDefprefs ((settings_params args)\<lparr>p_EtcDir := None\<rparr>) w of (n, w1) \<Rightarrow> (Ok (n, []), w1))
      | DebugCmd \<Rightarrow>
          (case doDebug yaml (settings_params args) g w of (r, w1) \<Rightarrow> (bind_outcome r (\<lambda>n. Ok (n, [])), w1)))"

end
