(* ===== verification/Go_Match_Spec.thy ===== *)
theory Go_Match_Spec
  imports Go_Match "HOL-Library.Sublist"
begin

text \<open>
  \<open>filepath.Match\<close> on patterns whose only special character is the star: it decides the language of
  the pattern, although it looks for each chunk only at the first place where it fits.
\<close>

abbreviation star_char :: char where
  "star_char \<equiv> CHR ''*''"

text \<open>The language of a pattern: a star stands for any text without a slash.\<close>

fun glob :: "string \<Rightarrow> string \<Rightarrow> bool" where
  "glob [] s \<longleftrightarrow> s = []"
| "glob (c # p) s \<longleftrightarrow>
     (if c = star_char then \<exists>k \<le> length s. CHR ''/'' \<notin> set (take k s) \<and> glob p (drop k s)
      else s \<noteq> [] \<and> hd s = c \<and> glob p (tl s))"

definition plain_pattern :: "string \<Rightarrow> bool" where
  "plain_pattern p \<longleftrightarrow> set p \<inter> {CHR ''?'', CHR ''['', backslash} = {}"

lemma plain_pattern_simps [simp]:
  "plain_pattern []"
  "plain_pattern (c # p) \<longleftrightarrow> c \<noteq> CHR ''?'' \<and> c \<noteq> CHR ''['' \<and> c \<noteq> backslash \<and> plain_pattern p"
  "plain_pattern (p @ q) \<longleftrightarrow> plain_pattern p \<and> plain_pattern q"
  by (auto simp: plain_pattern_def)

lemma matchChunk_literal:
  "plain_pattern chunk \<Longrightarrow> matchChunk chunk s = Ok (if prefix chunk s then Some (drop (length chunk) s) else None)"
proof (induction chunk arbitrary: s)
  case (Cons c chunk)
  then show ?case by (cases s) auto
qed simp

lemma chunk_len_plain: "plain_pattern p \<Longrightarrow> chunk_len False p = length (takeWhile (\<lambda>c. c \<noteq> star_char) p)"
  by (induction p) (auto split: list.splits)

lemma scanChunk_plain:
  assumes "plain_pattern pat" "scanChunk pat = (star, chunk, rest)"
  defines "p \<equiv> dropWhile (\<lambda>c. c = star_char) pat"
  shows "star \<longleftrightarrow> p \<noteq> pat" "p = chunk @ rest" "star_char \<notin> set chunk" "rest \<noteq> [] \<Longrightarrow> hd rest = star_char"
    "plain_pattern chunk" "plain_pattern rest"
proof -
  have "plain_pattern (takeWhile (\<lambda>c. c = star_char) pat @ p)" using assms(1) by (simp add: p_def)
  then have pl: "plain_pattern p" by simp
  then have "chunk = take (length (takeWhile (\<lambda>c. c \<noteq> star_char) p)) p" "rest = drop (length (takeWhile (\<lambda>c. c \<noteq> star_char) p)) p"
    using assms(2) by (simp_all add: scanChunk_def p_def [symmetric] chunk_len_plain Let_def)
  then have eq: "chunk = takeWhile (\<lambda>c. c \<noteq> star_char) p" "rest = dropWhile (\<lambda>c. c \<noteq> star_char) p"
    by (simp_all only: takeWhile_eq_take [symmetric] dropWhile_eq_drop [symmetric])
  show "star \<longleftrightarrow> p \<noteq> pat" using assms(2) by (simp add: scanChunk_def p_def Let_def)
  show p: "p = chunk @ rest" by (simp add: eq)
  show "star_char \<notin> set chunk" by (auto simp: eq dest: set_takeWhileD)
  show "rest \<noteq> [] \<Longrightarrow> hd rest = star_char" using hd_dropWhile [of "\<lambda>c. c \<noteq> star_char" p] by (simp add: eq)
  show "plain_pattern chunk" "plain_pattern rest" using pl p by auto
qed

lemma glob_literal:
  "star_char \<notin> set chunk \<Longrightarrow> glob (chunk @ p) s \<longleftrightarrow> prefix chunk s \<and> glob p (drop (length chunk) s)"
proof (induction chunk arbitrary: s)
  case (Cons c chunk)
  then show ?case by (cases s) auto
qed simp

lemma glob_stars: "glob (star_char # star_char # p) s \<longleftrightarrow> glob (star_char # p) s"
proof
  assume "glob (star_char # star_char # p) s"
  then obtain k j where k: "k \<le> length s" "CHR ''/'' \<notin> set (take k s)" "j \<le> length s - k"
      "CHR ''/'' \<notin> set (take j (drop k s))" "glob p (drop j (drop k s))"
    by auto
  have "take (k + j) s = take k s @ take j (drop k s)" by (rule take_add)
  then have "CHR ''/'' \<notin> set (take (k + j) s)" using k by auto
  moreover have "k + j \<le> length s" "glob p (drop (k + j) s)" using k by (auto simp: add.commute)
  ultimately show "glob (star_char # p) s" unfolding glob.simps by auto
next
  assume a: "glob (star_char # p) s"
  have "glob (star_char # p) (drop 0 s)" using a by simp
  then show "glob (star_char # star_char # p) s"
    unfolding glob.simps(2) [of star_char "star_char # p"] by (intro iffD2 [OF if_P]) (rule refl, rule exI [of _ 0], simp)
qed

lemma glob_drop_stars:
  "dropWhile (\<lambda>c. c = star_char) pat \<noteq> pat \<Longrightarrow>
   glob pat s \<longleftrightarrow> glob (star_char # dropWhile (\<lambda>c. c = star_char) pat) s"
proof (induction pat arbitrary: s)
  case (Cons c pat)
  show ?case
  proof (cases "dropWhile (\<lambda>c. c = star_char) pat = pat")
    case True
    then show ?thesis using Cons.prems by (auto split: if_splits)
  next
    case False
    have c: "c = star_char" using Cons.prems by (auto split: if_splits)
    have "glob (c # pat) s \<longleftrightarrow> glob (star_char # star_char # dropWhile (\<lambda>c. c = star_char) pat) s"
      unfolding c glob.simps(2) [of star_char pat] glob.simps(2) [of star_char "star_char # _"]
      using Cons.IH [OF False] by simp
    then show ?thesis using c by (simp only: glob_stars) simp
  qed
qed simp

text \<open>The places of a chunk after a star.\<close>

definition fits :: "string \<Rightarrow> string \<Rightarrow> nat \<Rightarrow> bool" where
  "fits chunk s k \<longleftrightarrow> k \<le> length s \<and> CHR ''/'' \<notin> set (take k s) \<and> prefix chunk (drop k s)"

lemma glob_star_chunk:
  assumes "star_char \<notin> set chunk"
  shows "glob (star_char # chunk @ rest) s \<longleftrightarrow> (\<exists>k. fits chunk s k \<and> glob rest (drop (k + length chunk) s))"
  using glob_literal [OF assms] by (auto simp: fits_def add.commute)

lemma fits_nth:
  assumes "fits chunk s k"
  shows "i < k \<Longrightarrow> s ! i \<noteq> CHR ''/''" "j < length chunk \<Longrightarrow> s ! (k + j) = chunk ! j" "k + length chunk \<le> length s"
proof -
  obtain t where t: "drop k s = chunk @ t" and k: "k \<le> length s" using assms by (auto simp: fits_def prefix_def)
  show "k + length chunk \<le> length s" using arg_cong [OF t, of length] k by simp
  show "s ! (k + j) = chunk ! j" if "j < length chunk"
    using arg_cong [OF t, of "\<lambda>x. x ! j"] that k by (simp add: nth_append)
  show "s ! i \<noteq> CHR ''/''" if "i < k"
    using assms that k by (auto simp: fits_def in_set_conv_nth)
qed

text \<open>The first place is as good as any later one if a star follows.\<close>

lemma first_place:
  assumes "fits chunk s k1" "fits chunk s k2" "k1 \<le> k2" "glob (star_char # p) (drop (k2 + length chunk) s)"
  shows "glob (star_char # p) (drop (k1 + length chunk) s)"
proof (cases "k1 = k2")
  case False
  let ?n = "length chunk" and ?d = "k2 - k1"
  have no: "chunk ! j \<noteq> CHR ''/''" if "j < ?n" for j
    using that
  proof (induction j rule: less_induct)
    case (less j)
    show ?case
    proof
      assume slash: "chunk ! j = CHR ''/''"
      then have "s ! (k1 + j) = CHR ''/''" using fits_nth(2) [OF assms(1)] less.prems by simp
      then have le: "k2 \<le> k1 + j" using fits_nth(1) [OF assms(2), of "k1 + j"] by (cases "k1 + j < k2") auto
      then have at: "s ! (k1 + j) = chunk ! (j - ?d)"
        using fits_nth(2) [OF assms(2), of "j - ?d"] less.prems assms(3) False by (simp add: less_diff_conv2 add.commute)
      have "j - ?d < j" using False assms(3) le by arith
      then show False using less.IH [of "j - ?d"] less.prems False assms(3) le at \<open>s ! (k1 + j) = CHR ''/''\<close> by auto
    qed
  qed
  have skip: "s ! i \<noteq> CHR ''/''" if "i < k2 + ?n" for i
  proof (cases "i < k2")
    case False
    then show ?thesis using that no [of "i - k2"] fits_nth(2) [OF assms(2), of "i - k2"] by simp
  qed (rule fits_nth(1) [OF assms(2)])
  have len: "k2 + ?n \<le> length s" by (rule fits_nth(3) [OF assms(2)])
  obtain k where k: "k \<le> length s - (k2 + ?n)" "CHR ''/'' \<notin> set (take k (drop (k2 + ?n) s))"
      "glob p (drop k (drop (k2 + ?n) s))"
    using assms(4) by auto
  let ?x = "drop (k1 + ?n) s"
  have dx: "drop ?d ?x = drop (k2 + ?n) s" using assms(3) by (simp add: add.commute add.left_commute)
  have "CHR ''/'' \<notin> set (take ?d ?x)"
    using skip len assms(3) by (auto simp: in_set_conv_nth)
  then have "CHR ''/'' \<notin> set (take (?d + k) ?x)" using k(2) by (simp only: take_add dx set_append) blast
  moreover have "?d + k \<le> length ?x" using k(1) len assms(3) by simp
  moreover have "glob p (drop (?d + k) ?x)" using k(3) unfolding dx [symmetric] by (simp only: drop_drop add.commute add.left_commute)
  ultimately show ?thesis unfolding glob.simps by auto
qed (use assms(4) in simp)

lemma star_loop_first:
  assumes "plain_pattern chunk"
  shows "case star_loop lastChunk chunk s of
      Ok (Some t) \<Rightarrow> \<exists>k. 0 < k \<and> fits chunk s k \<and> t = drop (k + length chunk) s \<and> (lastChunk \<longrightarrow> t = []) \<and>
        (\<not> lastChunk \<longrightarrow> (\<forall>j. 0 < j \<and> j < k \<longrightarrow> \<not> fits chunk s j))
    | Ok None \<Rightarrow> \<forall>k. 0 < k \<and> fits chunk s k \<longrightarrow> lastChunk \<and> drop (k + length chunk) s \<noteq> []
    | _ \<Rightarrow> False"
proof (induction s)
  case (Cons c s)
  have shift: "fits chunk (c # s) (Suc k) \<longleftrightarrow> c \<noteq> CHR ''/'' \<and> fits chunk s k" for k by (auto simp: fits_def)
  have up: "(\<exists>k. 0 < k \<and> P k) \<longleftrightarrow> (\<exists>k. P (Suc k))" "(\<forall>k. 0 < k \<and> Q k \<longrightarrow> P k) \<longleftrightarrow> (\<forall>k. Q (Suc k) \<longrightarrow> P (Suc k))"
    for P Q :: "nat \<Rightarrow> bool" by (auto simp: gr0_conv_Suc)
  show ?case
  proof (cases "c = CHR ''/''")
    case True
    then have "\<not> fits chunk (c # s) (Suc k)" for k using shift by blast
    then show ?thesis using True by (simp add: up(2))
  next
    case False
    show ?thesis
    proof (cases "prefix chunk s \<and> (lastChunk \<longrightarrow> drop (length chunk) s = [])")
      case True
      then have "star_loop lastChunk chunk (c # s) = Ok (Some (drop (length chunk) s))"
        using False matchChunk_literal [OF assms, of s] by auto
      moreover have "fits chunk (c # s) 1" using True False by (simp add: fits_def)
      ultimately show ?thesis using True by (auto intro!: exI [of _ 1])
    next
      case no: False
      then have eq: "star_loop lastChunk chunk (c # s) = star_loop lastChunk chunk s"
        using False matchChunk_literal [OF assms, of s] by auto
      have zero: "fits chunk s 0 \<Longrightarrow> lastChunk \<and> drop (length chunk) s \<noteq> []" using no by (auto simp: fits_def)
      show ?thesis
      proof (cases "star_loop lastChunk chunk s")
        case (Ok r)
        show ?thesis
        proof (cases r)
          case None
          then have pos: "\<forall>k. 0 < k \<and> fits chunk s k \<longrightarrow> lastChunk \<and> drop (k + length chunk) s \<noteq> []"
            using Cons.IH Ok by simp
          have "\<forall>k. fits chunk s k \<longrightarrow> lastChunk \<and> drop (k + length chunk) s \<noteq> []"
          proof
            fix k
            show "fits chunk s k \<longrightarrow> lastChunk \<and> drop (k + length chunk) s \<noteq> []" using pos zero by (cases k) auto
          qed
          then show ?thesis using None Ok eq by (auto simp: up(2) shift)
        next
          case (Some t)
          then obtain k where k: "0 < k" "fits chunk s k" "t = drop (k + length chunk) s" "lastChunk \<longrightarrow> t = []"
              "\<not> lastChunk \<longrightarrow> (\<forall>j. 0 < j \<and> j < k \<longrightarrow> \<not> fits chunk s j)"
            using Cons.IH Ok by auto
          have "\<not> lastChunk \<longrightarrow> (\<forall>j. 0 < j \<and> j < Suc k \<longrightarrow> \<not> fits chunk (c # s) j)"
          proof (intro impI allI)
            fix j
            assume j: "\<not> lastChunk" "0 < j \<and> j < Suc k"
            then obtain i where i: "j = Suc i" by (cases j) auto
            have "\<not> fits chunk s i" using k(5) zero j i by (cases i) auto
            then show "\<not> fits chunk (c # s) j" using shift i by simp
          qed
          then show ?thesis using k False shift Some Ok eq by (auto intro!: exI [of _ "Suc k"])
        qed
      qed (use Cons.IH in simp_all)
    qed
  qed
qed (auto simp: fits_def)

text \<open>What \<open>Match\<close> does with a pattern that is not empty, when its chunk has no special character.\<close>

definition after_chunk :: "string \<Rightarrow> string option outcome \<Rightarrow> bool outcome" where
  "after_chunk rest r =
     (case r of Fail e \<Rightarrow> Fail e | Panic p \<Rightarrow> Panic p | Ok None \<Rightarrow> Ok False | Ok (Some t) \<Rightarrow> Match rest t)"

lemma Match_unfold:
  assumes "scanChunk pat = (star, chunk, rest)" "pat \<noteq> []" "plain_pattern chunk"
  shows "Match pat name =
     (if star \<and> chunk = [] then Ok (CHR ''/'' \<notin> set name)
      else if prefix chunk name \<and> (drop (length chunk) name = [] \<or> rest \<noteq> []) then Match rest (drop (length chunk) name)
      else if star then after_chunk rest (star_loop (rest = []) chunk name) else Ok False)"
  using assms matchChunk_literal [OF assms(3), of name]
  by (simp add: Match.simps [of pat name] after_chunk_def split: option.splits)

lemma star_chunk_case:
  assumes pl: "plain_pattern chunk" and star: "star_char \<notin> set chunk"
    and rest: "rest = [] \<or> rest = star_char # p"
    and ih: "\<And>t. Match rest t = Ok (glob rest t)"
  shows "(if prefix chunk name \<and> (drop (length chunk) name = [] \<or> rest \<noteq> []) then Match rest (drop (length chunk) name)
      else after_chunk rest (star_loop (rest = []) chunk name)) = Ok (glob (star_char # chunk @ rest) name)"
proof (cases "prefix chunk name \<and> (drop (length chunk) name = [] \<or> rest \<noteq> [])")
  case True
  have zero: "fits chunk name 0" using True by (simp add: fits_def)
  have "glob rest (drop (length chunk) name)" if "fits chunk name k" "glob rest (drop (k + length chunk) name)" for k
  proof (cases "rest = []")
    case False
    then show ?thesis using rest first_place [OF zero that(1), of p] that(2) by (simp del: glob.simps)
  qed (use True in simp)
  moreover have "glob rest (drop (length chunk) name) \<Longrightarrow> glob rest (drop (0 + length chunk) name)" by simp
  ultimately have "glob (star_char # chunk @ rest) name \<longleftrightarrow> glob rest (drop (length chunk) name)"
    unfolding glob_star_chunk [OF star] using zero by blast
  then show ?thesis unfolding if_P [OF True] ih by (simp del: glob.simps)
next
  case False
  have zero: "fits chunk name 0 \<Longrightarrow> rest = [] \<and> drop (length chunk) name \<noteq> []" using False by (auto simp: fits_def)
  note sl = star_loop_first [OF pl, where lastChunk = "rest = []" and s = name]
  show ?thesis
  proof (cases "star_loop (rest = []) chunk name")
    case (Ok r)
    show ?thesis
    proof (cases r)
      case None
      have "rest = [] \<and> drop (k + length chunk) name \<noteq> []" if "fits chunk name k" for k
        using sl Ok None zero that by (cases k) auto
      then have "\<not> glob (star_char # chunk @ rest) name" unfolding glob_star_chunk [OF star] by (auto simp del: drop_eq_Nil)
      then show ?thesis unfolding if_not_P [OF False] by (simp add: Ok None after_chunk_def del: glob.simps)
    next
      case (Some t)
      then obtain k where k: "fits chunk name k" "t = drop (k + length chunk) name" "rest = [] \<longrightarrow> t = []"
          "rest \<noteq> [] \<longrightarrow> (\<forall>j. 0 < j \<and> j < k \<longrightarrow> \<not> fits chunk name j)"
        using sl Ok by auto
      have "glob rest t" if j: "fits chunk name j" "glob rest (drop (j + length chunk) name)" for j
      proof (cases "rest = []")
        case False
        have "j \<noteq> 0" using zero j(1) False by (intro notI) simp
        then have "\<not> j < k" using k(4) j(1) False by blast
        then show ?thesis using first_place [OF k(1) j(1), of p] False rest j(2) k(2) by (simp del: glob.simps)
      qed (use k(3) in simp)
      then have "glob (star_char # chunk @ rest) name \<longleftrightarrow> glob rest t"
        unfolding glob_star_chunk [OF star] using k(1,2) by blast
      then show ?thesis unfolding if_not_P [OF False] by (simp add: Ok Some after_chunk_def ih del: glob.simps)
    qed
  qed (use sl in simp_all)
qed

theorem Match_glob:
  "plain_pattern pat \<Longrightarrow> Match pat name = Ok (glob pat name)"
proof (induction "length pat" arbitrary: pat name rule: less_induct)
  case less
  show ?case
  proof (cases "pat = []")
    case True
    then show ?thesis by (simp add: Match.simps)
  next
    case False
    obtain star chunk rest where sc: "scanChunk pat = (star, chunk, rest)" by (cases "scanChunk pat") auto
    note s = scanChunk_plain [OF less.prems sc]
    have ih: "Match rest t = Ok (glob rest t)" for t
      using less.hyps [of rest] scanChunk_shorter [OF sc False] s(6) by simp
    have rest: "rest = [] \<or> rest = star_char # tl rest" using s(4) by (cases rest) auto
    show ?thesis
    proof (cases star)
      case True
      have g: "glob pat name \<longleftrightarrow> glob (star_char # chunk @ rest) name"
        using True s(1,2) glob_drop_stars [of pat name] by simp
      show ?thesis
      proof (cases "chunk = []")
        case True
        have "hd rest \<noteq> star_char" if "rest \<noteq> []"
          using s(2) True that hd_dropWhile [of "\<lambda>c. c = star_char" pat] by simp
        then have "rest = []" using s(4) by auto
        moreover have "glob [star_char] name \<longleftrightarrow> CHR ''/'' \<notin> set name" by auto
        ultimately show ?thesis using g True \<open>star\<close> by (simp only: Match_unfold [OF sc False s(5)]) simp
      next
        case False
        then show ?thesis
          unfolding Match_unfold [OF sc \<open>pat \<noteq> []\<close> s(5)] g
          using star_chunk_case [OF s(5) s(3) rest ih, of name] \<open>star\<close> by (simp split del: if_split cong: if_cong)
      qed
    next
      case False
      then have pat: "pat = chunk @ rest" using s(1,2) by simp
      have "rest = [] \<Longrightarrow> drop (length chunk) name \<noteq> [] \<Longrightarrow> \<not> glob rest (drop (length chunk) name)" by simp
      then show ?thesis
        using ih False glob_literal [OF s(3), of rest name]
        unfolding Match_unfold [OF sc \<open>pat \<noteq> []\<close> s(5)] pat [symmetric] by auto
    qed
  qed
qed

end
