(* ===== verification/Settings_Spec.thy ===== *)
theory Settings_Spec
  imports Settings Go_Match_Spec
begin

text \<open>
  What the settings guarantee (theory \<open>Settings\<close>): where the directories come from, and which users
  the include and exclude lists of the preferences select.
\<close>

section \<open>Directories\<close>

text \<open>The first value that is given, with its origin.\<close>

definition chosen :: "string option \<Rightarrow> string option \<Rightarrow> string \<Rightarrow> string \<times> string" where
  "chosen param pref d =
     (case (param, pref) of
        (Some v, _) \<Rightarrow> (v, ''cmdline'') | (None, Some v) \<Rightarrow> (v, ''config'') | (None, None) \<Rightarrow> (d, ''default''))"

lemma get_update_new: "setting_get (update_setting param pref (newSetting d)) = chosen param pref d"
  by (simp add: setting_get_def update_setting_def newSetting_def setting_clear_def setting_set_def chosen_def
    split: option.splits)

text \<open>A value that was set stays when its setting is cleared: only its origin changes.\<close>

lemma get_clear_set: "setting_get (update_setting None None (setting_set v origin s)) = (v, ''default'')"
  by (simp add: setting_get_def update_setting_def setting_clear_def setting_set_def)

definition prefs_path :: "InitSettingsParams \<Rightarrow> string \<Rightarrow> string" where
  "prefs_path params etc = filepath_Join [case p_EtcDir params of Some d \<Rightarrow> d | None \<Rightarrow> etc, gPrefsFileName]"

text \<open>
  Reading the settings at the start of a process, with no failing system call: the preferences
  are looked for in the directory of the command line or the default one. If they are good, each
  directory is the one of the command line, else that of the preferences, else the default; if they
  are not, or there is no file, an error is returned and the directories are the defaults: without
  the file no process starts, although it is logged that defaults are used.
\<close>

theorem InitSettings_spec:
  fixes tmp etc :: string
  assumes "faults (w_os w) = []"
  defines "g0 \<equiv> init_globals tmp etc"
  shows "case files (w_os w) (prefs_path params etc) of
      None \<Rightarrow> \<exists>e g. InitSettings yaml params g0 w = (Fail e, g, log_out ''No prefs file.  Using defaults.'' w) \<and>
        IsNotExist e \<and> VarDirPath g = VarDirPath g0 \<and> LibexecDirPath g = LibexecDirPath g0 \<and> TempDirPath g = TempDirPath g0
    | Some contents \<Rightarrow>
        (case parsePrefs yaml contents of
           Ok prfs \<Rightarrow> \<exists>g. InitSettings yaml params g0 w = (Ok (), g, w) \<and> gPrfs g = prfs \<and>
             setting_get (gEtcDir g) = chosen (p_EtcDir params) None etc \<and>
             setting_get (gVarDir g) = chosen (p_VarDir params) (VarDir prfs) ''/var'' \<and>
             setting_get (gLibexecDir g) = chosen (p_LibexecDir params) (LibexecDir prfs) ''/usr/libexec'' \<and>
             setting_get (gTempDir g) = chosen (p_TempDir params) (TempDir prfs) tmp
         | Fail e \<Rightarrow> \<exists>g. InitSettings yaml params g0 w = (Fail e, g, w) \<and> gPrfs g = no_prefs \<and>
             VarDirPath g = VarDirPath g0 \<and> LibexecDirPath g = LibexecDirPath g0 \<and> TempDirPath g = TempDirPath g0
         | Panic p \<Rightarrow> \<exists>g. InitSettings yaml params g0 w = (Panic p, g, w))"
proof -
  let ?g1 = "g0\<lparr>gEtcDir := update_setting (p_EtcDir params) None (gEtcDir g0)\<rparr>"
  have etc: "setting_get (gEtcDir ?g1) = chosen (p_EtcDir params) None etc"
    by (simp add: g0_def init_globals_def get_update_new)
  have p: "filepath_Join [EtcDirPath ?g1, gPrefsFileName] = prefs_path params etc"
    unfolding EtcDirPath_def etc by (simp add: prefs_path_def chosen_def split: option.splits)
  have open_eq: "os_Open q (w_os w) = (case files (w_os w) q of None \<Rightarrow> (Fail not_exist, w_os w) | Some _ \<Rightarrow> (Ok (), w_os w))" for q
    using assms(1) by (simp add: os_Open_def os_call_def split: option.splits)
  have load: "loadPrefs yaml ?g1 w =
      (case files (w_os w) (prefs_path params etc) of
         None \<Rightarrow> (Fail not_exist, log_out ''No prefs file.  Using defaults.'' w)
       | Some contents \<Rightarrow> (parsePrefs yaml contents, w))"
    unfolding loadPrefs_def Let_def p open_eq by (simp add: IsNotExist_def split: option.splits)
  note init = InitSettings_def [of yaml params g0 w, unfolded Let_def load]
  have set0: "gVarDir ?g1 = newSetting ''/var''" "gLibexecDir ?g1 = newSetting ''/usr/libexec''" "gTempDir ?g1 = newSetting tmp"
    "gPrfs ?g1 = no_prefs"
    by (simp_all add: g0_def init_globals_def)
  show ?thesis
  proof (cases "files (w_os w) (prefs_path params etc)")
    case None
    then have "InitSettings yaml params g0 w = (Fail not_exist, ?g1, log_out ''No prefs file.  Using defaults.'' w)"
      by (simp add: init)
    then show ?thesis using None
      by (simp add: IsNotExist_def VarDirPath_def LibexecDirPath_def TempDirPath_def)
  next
    case (Some contents)
    show ?thesis
    proof (cases "parsePrefs yaml contents")
      case (Ok prfs)
      let ?g = "?g1\<lparr>gPrfs := prfs, gVarDir := update_setting (p_VarDir params) (VarDir prfs) (newSetting ''/var''),
         gLibexecDir := update_setting (p_LibexecDir params) (LibexecDir prfs) (newSetting ''/usr/libexec''),
         gTempDir := update_setting (p_TempDir params) (TempDir prfs) (newSetting tmp)\<rparr>"
      have "InitSettings yaml params g0 w = (Ok (), ?g, w)" using Some Ok by (simp add: init set0)
      then show ?thesis using Some Ok etc get_update_new by simp
    next
      case (Fail e)
      then have "InitSettings yaml params g0 w = (Fail e, ?g1, w)" using Some by (simp add: init)
      then show ?thesis using Some Fail set0 by (simp add: VarDirPath_def LibexecDirPath_def TempDirPath_def)
    next
      case (Panic p)
      then have "InitSettings yaml params g0 w = (Panic p, ?g1, w)" using Some by (simp add: init)
      then show ?thesis using Some Panic by simp
    qed
  qed
qed

definition conf_world :: world where
  "conf_world = sample_world\<lparr>w_os := \<lparr>files = [''/etc/jobber.conf'' \<mapsto> ''var-dir: /v''], faults = []\<rparr>\<rparr>"

definition conf_params :: InitSettingsParams where
  "conf_params = \<lparr>p_VarDir = None, p_LibexecDir = None, p_TempDir = Some ''/t'', p_EtcDir = None\<rparr>"

theorem InitSettings_spec_witness:
  "\<exists>g. InitSettings (\<lambda>_. Ok (no_prefs\<lparr>VarDir := Some ''/v''\<rparr>)) conf_params (init_globals ''/tmp'' ''/etc'') conf_world =
      (Ok (), g, conf_world) \<and>
     setting_get (gVarDir g) = (''/v'', ''config'') \<and> setting_get (gLibexecDir g) = (''/usr/libexec'', ''default'') \<and>
     setting_get (gTempDir g) = (''/t'', ''cmdline'')"
proof -
  let ?yaml = "\<lambda>_. Ok (no_prefs\<lparr>VarDir := Some ''/v''\<rparr>)"
  have f: "faults (w_os conf_world) = []" by (simp add: conf_world_def)
  have "filepath_Join [''/etc'', gPrefsFileName] = ''/etc/jobber.conf''" by code_simp
  then have conf: "files (w_os conf_world) (prefs_path conf_params ''/etc'') = Some ''var-dir: /v''"
    by (simp add: prefs_path_def conf_params_def conf_world_def)
  have prefs: "parsePrefs ?yaml ''var-dir: /v'' = Ok (no_prefs\<lparr>VarDir := Some ''/v''\<rparr>)"
    by (simp add: parsePrefs_def no_prefs_def spec_patterns_def)
  show ?thesis
    using InitSettings_spec [OF f, where params = conf_params and etc = "''/etc''" and yaml = ?yaml and tmp = "''/tmp''"] conf prefs
    by (auto simp: chosen_def conf_params_def no_prefs_def)
qed

section \<open>Users\<close>

definition glob_spec :: "UserSpec \<Rightarrow> user \<Rightarrow> bool" where
  "glob_spec spec usr \<longleftrightarrow>
     (us_Username spec = [] \<or> glob (us_Username spec) (Username usr)) \<and> (us_Home spec = [] \<or> glob (us_Home spec) (HomeDir usr))"

lemma spec_matches_glob:
  assumes "\<forall>p \<in> set (spec_patterns [spec]). plain_pattern p"
  shows "spec_matches spec usr = Ok (glob_spec spec usr)"
  using assms by (auto simp: spec_matches_def match_or_panic_def glob_spec_def spec_patterns_def Match_glob simp del: glob.simps)

lemma spec_patterns_Cons: "spec_patterns (spec # specs) = spec_patterns [spec] @ spec_patterns specs"
  by (simp add: spec_patterns_def)

lemma any_spec_matches_glob:
  assumes "\<forall>p \<in> set (spec_patterns specs). plain_pattern p"
  shows "any_spec_matches specs usr b = Ok (if \<exists>spec \<in> set specs. glob_spec spec usr then b else \<not> b)"
  using assms
proof (induction specs)
  case (Cons spec specs)
  have eq: "set (spec_patterns (spec # specs)) = set (spec_patterns [spec]) \<union> set (spec_patterns specs)"
    using spec_patterns_Cons [of spec specs] by (metis set_append)
  have pl: "\<forall>p \<in> set (spec_patterns [spec]). plain_pattern p" "\<forall>p \<in> set (spec_patterns specs). plain_pattern p"
    using Cons.prems unfolding eq by blast+
  show ?case using spec_matches_glob [OF pl(1), of usr] Cons.IH [OF pl(2)] by simp
qed simp

text \<open>
  C40. Which users jobs are run for: when the only special character of the patterns is the star
  (no question mark, class or escape), the check never panics; with an include list a user is
  chosen exactly if some entry fits, with an exclude list exactly if none does, where an entry fits
  if the name and the home directory are in the languages of its patterns. The check of the
  patterns when the file is read is not enough for the others: a class that is never closed passes
  it and panics on the first user whose name gets to it.
\<close>

theorem jobberShouldRunForUser_spec:
  assumes "\<forall>p \<in> set (spec_patterns (UsersInclude prfs @ UsersExclude prfs)). plain_pattern p"
  shows "check_patterns (spec_patterns (UsersInclude prfs @ UsersExclude prfs)) = Ok () \<and>
    jobberShouldRunForUser prfs usr =
      Ok (if UsersInclude prfs \<noteq> [] then \<exists>spec \<in> set (UsersInclude prfs). glob_spec spec usr
          else \<not> (\<exists>spec \<in> set (UsersExclude prfs). glob_spec spec usr)) \<and>
    check_patterns [''x[''] = Ok () \<and>
    (\<exists>msg. jobberShouldRunForUser (no_prefs\<lparr>UsersExclude := [\<lparr>us_Username = ''x['', us_Home = []\<rparr>]\<rparr>) (usr\<lparr>Username := ''xa''\<rparr>) = Panic msg)"
proof -
  have "check_patterns ps = Ok ()" if "\<forall>p \<in> set ps. plain_pattern p" for ps
    using that by (induction ps) (simp_all add: Match_glob del: glob.simps)
  moreover have "spec_patterns (UsersInclude prfs @ UsersExclude prfs) =
      spec_patterns (UsersInclude prfs) @ spec_patterns (UsersExclude prfs)" by (simp add: spec_patterns_def)
  ultimately have 1: "check_patterns (spec_patterns (UsersInclude prfs @ UsersExclude prfs)) = Ok ()"
    and 2: "\<forall>p \<in> set (spec_patterns (UsersInclude prfs)). plain_pattern p"
      "\<forall>p \<in> set (spec_patterns (UsersExclude prfs)). plain_pattern p"
    using assms by auto
  have bad: "Match ''x['' ''something'' = Ok False" "Match ''x['' ''xa'' = Fail ErrBadPattern" by code_simp+
  show ?thesis
    using 1 any_spec_matches_glob [OF 2(1), of usr] any_spec_matches_glob [OF 2(2), of usr] bad
    by (simp add: jobberShouldRunForUser_def no_prefs_def spec_matches_def match_or_panic_def del: glob.simps)
qed

text \<open>The example in the default preferences: root and the users with a home under /home/svcusers.\<close>

theorem jobberShouldRunForUser_spec_witness:
  "jobberShouldRunForUser
     (no_prefs\<lparr>UsersInclude := [\<lparr>us_Username = ''root'', us_Home = []\<rparr>, \<lparr>us_Username = [], us_Home = ''/home/svcusers/*''\<rparr>]\<rparr>)
     \<lparr>Uid = ''5'', Gid = ''5'', Username = ''db'', HomeDir = ''/home/svcusers/db''\<rparr> = Ok True"
proof -
  let ?prfs = "no_prefs\<lparr>UsersInclude := [\<lparr>us_Username = ''root'', us_Home = []\<rparr>, \<lparr>us_Username = [], us_Home = ''/home/svcusers/*''\<rparr>]\<rparr>"
  let ?usr = "\<lparr>Uid = ''5'', Gid = ''5'', Username = ''db'', HomeDir = ''/home/svcusers/db''\<rparr>"
  have "\<forall>p \<in> set (spec_patterns (UsersInclude ?prfs @ UsersExclude ?prfs)). plain_pattern p"
    by (simp add: spec_patterns_def no_prefs_def backslash_def)
  note spec = jobberShouldRunForUser_spec [OF this, of ?usr]
  have "glob ''/home/svcusers/*'' ''/home/svcusers/db''"
    by (simp add: exI [of _ "2"])
  then have "\<exists>spec \<in> set (UsersInclude ?prfs). glob_spec spec ?usr"
    by (simp add: glob_spec_def del: glob.simps)
  then show ?thesis using spec by simp
qed

end
