(* ===== verification/Master_Spec.thy ===== *)
theory Master_Spec
  imports Master Settings_Spec Job_File_Spec
begin

text \<open>
  What the master guarantees (theory \<open>Master\<close>): whom it starts runners for, how it restarts them, and
  what is kept of their error output.
\<close>

section \<open>Error output\<close>

lemma copy_output_spec:
  "length (bb_data buf) \<le> bb_cap buf \<Longrightarrow>
   copy_output outs buf =
     (length (bb_data buf) + length (concat outs) \<le> bb_cap buf, buf\<lparr>bb_data := take (bb_cap buf) (bb_data buf @ concat outs)\<rparr>)"
proof (induction outs arbitrary: buf)
  case (Cons p outs)
  show ?case
  proof (cases "bb_cap buf - length (bb_data buf) < length p")
    case True
    then show ?thesis using Cons.prems by (simp add: bb_Write_def Let_def)
  next
    case False
    let ?buf = "buf\<lparr>bb_data := bb_data buf @ p\<rparr>"
    have "bb_Write p buf = (length p, None, ?buf)" using False by (simp add: bb_Write_def Let_def)
    then show ?thesis using Cons.IH [of ?buf] Cons.prems False by (simp add: add.assoc)
  qed
qed simp

text \<open>
  The error output of a runner: the master keeps its first bytes, as many as the buffer holds,
  however they are written. The pipe stays open exactly if they all fit: a runner that writes more
  than 1024 bytes to its error output in its whole life finds the pipe closed.
\<close>

theorem stderr_kept:
  "fst (copy_output outs (NewBoundedBuffer n)) = (length (concat outs) \<le> n) \<and>
   bb_String (snd (copy_output outs (NewBoundedBuffer n))) = take n (concat outs)"
  using copy_output_spec [of "NewBoundedBuffer n" outs] by (simp add: NewBoundedBuffer_def bb_String_def)

section \<open>Users\<close>

definition wanted :: "master_env \<Rightarrow> globals \<Rightarrow> user \<Rightarrow> bool" where
  "wanted env g usr \<longleftrightarrow>
     jobberShouldRunForUser (gPrfs g) usr = Ok True \<and> HomeDir usr \<noteq> [] \<and> HomeDir usr \<noteq> ''/dev/null'' \<and> IsAbs (HomeDir usr) \<and>
     (\<exists>st. me_stat env (HomeDir usr) = Ok st \<and> nat_str (stat_Uid st) = Uid usr)"

lemma userHasHome_iff:
  "fst (userHasHome env usr w) \<longleftrightarrow>
     HomeDir usr \<noteq> [] \<and> HomeDir usr \<noteq> ''/dev/null'' \<and> IsAbs (HomeDir usr) \<and>
     (\<exists>st. me_stat env (HomeDir usr) = Ok st \<and> nat_str (stat_Uid st) = Uid usr)"
  by (cases "me_stat env (HomeDir usr)") (simp_all add: userHasHome_def UserOwnsFile_def UserOwnsFileF_def split: bool.splits)

lemma log_os [simp]: "w_os (log_out msg w) = w_os w" "w_os (log_err msg w) = w_os w"
  by (simp_all add: log_out_def log_err_def)

lemma shouldRunForUser_wanted:
  assumes "is_Ok (jobberShouldRunForUser (gPrfs g) usr)"
  shows "\<exists>w'. shouldRunForUser env g usr w = (Ok (wanted env g usr), w')"
proof -
  obtain b where b: "jobberShouldRunForUser (gPrfs g) usr = Ok b" using assms by (auto simp: is_Ok_iff)
  obtain h w' where h: "userHasHome env usr w = (h, w')" by (cases "userHasHome env usr w")
  then show ?thesis
    using b userHasHome_iff [of env usr w] by (cases b) (auto simp: shouldRunForUser_def wanted_def)
qed

lemma filter_users_wanted:
  "\<forall>usr \<in> set usrs. is_Ok (jobberShouldRunForUser (gPrfs g) usr) \<Longrightarrow>
   \<exists>w'. filter_users env g usrs w = (Ok (filter (wanted env g) usrs), w')"
proof (induction usrs arbitrary: w)
  case (Cons usr usrs)
  then obtain w1 where 1: "shouldRunForUser env g usr w = (Ok (wanted env g usr), w1)"
    using shouldRunForUser_wanted by fastforce
  obtain w2 where "filter_users env g usrs w1 = (Ok (filter (wanted env g) usrs), w2)" using Cons by fastforce
  then show ?case using 1 by simp
qed simp

definition dir_ready :: "master_env \<Rightarrow> globals \<Rightarrow> user \<Rightarrow> bool" where
  "dir_ready env g usr \<longleftrightarrow> mkdirp env (PerUserDirPath g usr) = None \<and> is_Ok (Chown env (PerUserDirPath g usr) usr)"

lemma Chown_no_panic: "Chown env p usr \<noteq> Panic x"
proof -
  have "ParseInt s \<noteq> Panic y" for s y by (simp add: ParseInt_def Let_def)
  then show ?thesis by (auto simp: Chown_def outcome_simps split: option.splits)
qed

definition with_jobfile :: "user \<Rightarrow> user \<times> string" where
  "with_jobfile usr = (usr, filepath_Join [HomeDir usr, gJobFileName])"

lemma launch_users_spec:
  "\<exists>w'. launch_users env g usrs w = (Ok (map with_jobfile (filter (dir_ready env g) usrs)), w')"
proof (induction usrs arbitrary: w)
  case (Cons usr usrs)
  show ?case
  proof (cases "mkdirp env (PerUserDirPath g usr)")
    case None
    show ?thesis
    proof (cases "Chown env (PerUserDirPath g usr) usr")
      case (Ok u)
      obtain w' where "launch_users env g usrs w = (Ok (map with_jobfile (filter (dir_ready env g) usrs)), w')"
        using Cons.IH by blast
      moreover have "dir_ready env g usr" using None Ok by (simp add: dir_ready_def)
      ultimately show ?thesis using None Ok by (simp add: with_jobfile_def [of usr])
    next
      case (Fail e)
      then show ?thesis using None Cons.IH by (simp add: dir_ready_def)
    qed (simp add: Chown_no_panic)
  next
    case (Some e)
    then show ?thesis using Cons.IH by (simp add: dir_ready_def)
  qed
qed simp

text \<open>
  C38. Whom the master starts runners for: when the settings can be read, the directory for all users
  can be made, the password file can be read, and no pattern of the preferences panics, they are,
  in the order of that file, exactly the users that the user database knows, that the preferences
  select, that own their home directory, given by an absolute path other than /dev/null, and whose
  own directory can be made and given to them; each with the job file .jobber in the home
  directory. An error for one user does not keep the others from their runners.
\<close>

theorem doDefault_spec:
  assumes "InitSettings yaml params g0 w = (Ok (), g, w1)" "mkdirp env (VarDirPath g) = None"
    "faults (w_os w1) = []" "files (w_os w1) ''/etc/passwd'' = Some contents"
    "\<forall>usr \<in> set (passwd_users env contents). is_Ok (jobberShouldRunForUser (gPrfs g) usr)"
  shows "fst (doDefault yaml env params g0 w) =
    Ok (0, map with_jobfile (filter (\<lambda>usr. wanted env g usr \<and> dir_ready env g usr) (passwd_users env contents)))"
proof -
  let ?w2 = "log_out (''temp dir: '' @ TempDirPath g) (log_out (''libexec dir: '' @ LibexecDirPath g)
                     (log_out (''var dir: '' @ VarDirPath g) (log_out (''etc dir: '' @ EtcDirPath g) w1)))"
  have "getAllUsers env ?w2 = (Ok (passwd_users env contents), ?w2)"
    using assms(3,4) by (simp add: getAllUsers_def os_Open_def os_call_def)
  then obtain w3 where 3: "getAcceptableUsers env g ?w2 = (Ok (filter (wanted env g) (passwd_users env contents)), w3)"
    using filter_users_wanted [OF assms(5)] by (fastforce simp: getAcceptableUsers_def bind_io_def)
  obtain w4 where "launch_users env g (filter (wanted env g) (passwd_users env contents)) w3 =
      (Ok (map with_jobfile (filter (dir_ready env g) (filter (wanted env g) (passwd_users env contents)))), w4)"
    using launch_users_spec by blast
  then show ?thesis
    using assms(1,2) 3 by (simp add: doDefault_def Let_def conj_commute)
qed

definition two_users :: master_env where
  "two_users = \<lparr>me_lookup = (\<lambda>name. if name = ''root'' then Ok \<lparr>Uid = ''0'', Gid = ''0'', Username = ''root'', HomeDir = ''/root''\<rparr>
       else if name = ''db'' then Ok \<lparr>Uid = ''5'', Gid = ''5'', Username = ''db'', HomeDir = ''/dev/null''\<rparr>
       else Fail (Errno ''unknown user'')),
     me_stat = (\<lambda>_. Ok \<lparr>stat_Uid = 0, stat_Mode = 0x1C0\<rparr>), me_mkdir = (\<lambda>_. Some exist_error), me_chown = (\<lambda>_ _ _. None),
     me_resolve = (\<lambda>_. None), me_listen = (\<lambda>_. None), me_start = (\<lambda>_. None)\<rparr>"

definition passwd_world :: world where
  "passwd_world = sample_world\<lparr>w_os := \<lparr>files = [''/etc/jobber.conf'' \<mapsto> [],
     ''/etc/passwd'' \<mapsto> ''root:x:0:0:root:/root:/bin/sh'' @ [CHR 0x0A] @ ''db:x:5:5::/dev/null:/bin/false'' @ [CHR 0x0A]], faults = []\<rparr>\<rparr>"

theorem doDefault_spec_witness:
  "fst (doDefault (\<lambda>_. Ok no_prefs) two_users conf_params (init_globals ''/tmp'' ''/etc'') passwd_world) =
     Ok (0, [(\<lparr>Uid = ''0'', Gid = ''0'', Username = ''root'', HomeDir = ''/root''\<rparr>, ''/root/.jobber'')])"
proof -
  let ?yaml = "\<lambda>_. Ok no_prefs" and ?root = "\<lparr>Uid = ''0'', Gid = ''0'', Username = ''root'', HomeDir = ''/root''\<rparr>"
    and ?db = "\<lparr>Uid = ''5'', Gid = ''5'', Username = ''db'', HomeDir = ''/dev/null''\<rparr>"
  let ?contents = "''root:x:0:0:root:/root:/bin/sh'' @ [CHR 0x0A] @ ''db:x:5:5::/dev/null:/bin/false'' @ [CHR 0x0A]"
  have f: "faults (w_os passwd_world) = []" by (simp add: passwd_world_def)
  have "filepath_Join [''/etc'', gPrefsFileName] = ''/etc/jobber.conf''" by code_simp
  then have conf: "files (w_os passwd_world) (prefs_path conf_params ''/etc'') = Some []"
    by (simp add: prefs_path_def conf_params_def passwd_world_def)
  have "parsePrefs ?yaml [] = Ok no_prefs"
    by (simp add: parsePrefs_def no_prefs_def spec_patterns_def)
  then obtain g where g: "InitSettings ?yaml conf_params (init_globals ''/tmp'' ''/etc'') passwd_world = (Ok (), g, passwd_world)"
      "gPrfs g = no_prefs"
    using InitSettings_spec [OF f, where params = conf_params and etc = "''/etc''" and yaml = ?yaml and tmp = "''/tmp''"] conf
    by auto
  have dirs: "mkdirp two_users p = None" for p by (simp add: mkdirp_def two_users_def IsExist_def)
  have pw: "files (w_os passwd_world) ''/etc/passwd'' = Some ?contents" by (simp add: passwd_world_def)
  have "list_all plain_line [''root:x:0:0:root:/root:/bin/sh'', ''db:x:5:5::/dev/null:/bin/false'']"
    by (simp add: plain_line_def)
  from ScanLines_print [OF this]
  have lines: "ScanLines ?contents = [''root:x:0:0:root:/root:/bin/sh'', ''db:x:5:5::/dev/null:/bin/false'']" by simp
  have heads: "hd (Split ''root:x:0:0:root:/root:/bin/sh'' '':'') = ''root''"
    "hd (Split ''db:x:5:5::/dev/null:/bin/false'' '':'') = ''db''" by code_simp+
  have users: "passwd_users two_users ?contents = [?root, ?db]"
    unfolding passwd_users_def lines by (simp add: map_filter_simps heads two_users_def)
  have run: "jobberShouldRunForUser (gPrfs g) usr = Ok True" for usr
    by (simp add: g(2) jobberShouldRunForUser_def no_prefs_def)
  have "nat_str 0 = ''0''" "ParseInt ''0'' = Ok 0" by code_simp+
  moreover have "me_stat two_users p = Ok \<lparr>stat_Uid = 0, stat_Mode = 0x1C0\<rparr>" "me_chown two_users p i j = None" for p i j
    by (simp_all add: two_users_def)
  ultimately have w: "wanted two_users g ?root \<and> dir_ready two_users g ?root" "\<not> wanted two_users g ?db"
    by (simp_all add: wanted_def run dir_ready_def dirs Chown_def IsAbs_def HasPrefix_def)
  have "filepath_Join [''/root'', gJobFileName] = ''/root/.jobber''" by code_simp
  then show ?thesis
    using doDefault_spec [OF g(1) dirs f pw] w unfolding users by (simp add: run with_jobfile_def)
qed

section \<open>Restarting runners\<close>

text \<open>A runner is launched, and connects; and the way in which it ends lets the thread go on.\<close>

definition launches :: "master_env \<Rightarrow> globals \<Rightarrow> user \<Rightarrow> first_event \<Rightarrow> string \<Rightarrow> bool" where
  "launches env g usr ev jobfilePath \<longleftrightarrow>
     (let p = filepath_Join [PerUserDirPath g usr, ''quit.sock''] in
      me_resolve env p = None \<and> me_listen env p = None \<and> is_Ok (Chown env p usr) \<and>
      me_start env (Sudo (Username usr) (runner_cmd g usr p jobfilePath)) = None \<and> ev = RunnerConnected)"

definition restarts :: "master_env \<Rightarrow> globals \<Rightarrow> user \<Rightarrow> string \<Rightarrow> first_event \<times> runner_end \<Rightarrow> bool" where
  "restarts env g usr jobfilePath turn \<longleftrightarrow>
     launches env g usr (fst turn) jobfilePath \<and>
     (case snd turn of ExitedWell \<Rightarrow> True | ExitedBadly isExitError msg outs \<Rightarrow> isExitError | MasterStopped \<Rightarrow> False)"

lemma log_err_log [simp]: "w_log (log_err msg w) = w_log w"
  by (simp add: log_err_def)

lemma exited_badly_log [simp]: "w_log (exited_badly usr msg outs proc w) = w_log w"
  by (simp add: exited_badly_def)

lemma LaunchRunner_spec:
  assumes "LaunchRunner env g usr jobfilePath ev w = (r, w1)"
  shows "is_Ok r \<longleftrightarrow> launches env g usr ev jobfilePath" "\<not> is_Panic r" "w_log w1 = w_log w"
  using assms Chown_no_panic
  by (auto simp: LaunchRunner_def launches_def Let_def is_Panic_def split: option.splits outcome.splits first_event.splits)

lemma runnerThread_turn:
  assumes "restarts env g usr jobfilePath turn"
  obtains w2 where "w_log w2 = w_log w @ [''Restarting runner for '' @ Username usr]"
    "runnerThread env g usr jobfilePath (turn # turns) w = runnerThread env g usr jobfilePath turns w2"
proof -
  obtain ev fin where turn: "turn = (ev, fin)" by fastforce
  obtain r w1 where l: "LaunchRunner env g usr jobfilePath ev w = (r, w1)" by fastforce
  note s = LaunchRunner_spec [OF l]
  from assms obtain proc where "r = Ok proc" using s(1) by (auto simp: restarts_def turn is_Ok_iff)
  let ?w' = "case fin of ExitedBadly b msg outs \<Rightarrow> exited_badly usr msg outs proc w1 | _ \<Rightarrow> w1"
  let ?w2 = "log_out (''Restarting runner for '' @ Username usr) ?w'"
  have "w_log ?w2 = w_log w @ [''Restarting runner for '' @ Username usr]"
    by (cases fin) (simp_all add: log_out_def s(3))
  moreover have "runnerThread env g usr jobfilePath (turn # turns) w = runnerThread env g usr jobfilePath turns ?w2"
    using l assms \<open>r = Ok proc\<close> by (cases fin) (simp_all add: turn restarts_def)
  ultimately show thesis by (rule that)
qed

lemma runnerThread_last:
  assumes "\<not> restarts env g usr jobfilePath turn"
  shows "\<exists>w1. runnerThread env g usr jobfilePath (turn # turns) w = (Ok True, w1) \<and> w_log w1 = w_log w"
proof -
  obtain ev fin where turn: "turn = (ev, fin)" by fastforce
  obtain r w1 where l: "LaunchRunner env g usr jobfilePath ev w = (r, w1)" by fastforce
  note s = LaunchRunner_spec [OF l]
  show ?thesis using assms l s
    by (cases r; cases fin) (simp_all add: turn restarts_def is_Panic_def)
qed

text \<open>
  C39. The thread that supervises the runner of a user: it restarts the runner each time it has been
  launched, has connected, and has exited, well or with an error status, once each time; the thread
  ends at the first turn in which the launch fails, the runner cannot be waited for, or the master
  is stopped, and until then it goes on. It never panics.
\<close>

theorem runnerThread_spec:
  "\<exists>w1. runnerThread env g usr jobfilePath turns w = (Ok (\<not> list_all (restarts env g usr jobfilePath) turns), w1) \<and>
     w_log w1 = w_log w @ replicate (length (takeWhile (restarts env g usr jobfilePath) turns)) (''Restarting runner for '' @ Username usr)"
proof (induction turns arbitrary: w)
  case Nil
  show ?case by simp
next
  case (Cons turn turns)
  show ?case
  proof (cases "restarts env g usr jobfilePath turn")
    case True
    from runnerThread_turn [OF this] obtain w2 where "w_log w2 = w_log w @ [''Restarting runner for '' @ Username usr]"
      "runnerThread env g usr jobfilePath (turn # turns) w = runnerThread env g usr jobfilePath turns w2" .
    with Cons.IH [of w2] True show ?thesis by (simp only: list.pred_inject takeWhile.simps if_True list.size replicate_Suc append_assoc append.simps simp_thms) simp
  next
    case False
    with runnerThread_last [OF this, of turns w] show ?thesis by simp
  qed
qed

end
